(* ===== verification/Prelude.thy ===== *)
theory Prelude
  imports Main "HOL-Library.Word"
begin

text \<open>
  The shared base of the development: the bytes and machine integers of the C++ code, the
  outcome type of a C++ call, the combinators that sequence calls, the rules that carry an
  invariant through them, and the operations of \<open>std::string\<close> with the exceptions and the
  undefined behaviour the standard gives them.
\<close>

section \<open>Machine integers and characters\<close>

type_synonym u8 = "8 word"
type_synonym u16 = "16 word"
type_synonym u32 = "32 word"
type_synonym u64 = "64 word"

text \<open>
  A \<open>char\<close> of the source is one byte. \<open>uc\<close> reads it as \<open>unsigned char\<close>;
  \<open>sc\<close> reads it as the plain \<open>char\<close> of the x86 targets, which is signed: the bytes from
  128 on are negative there, and every comparison the source writes on a plain \<open>char\<close>
  goes through \<open>sc\<close>.
\<close>

definition uc :: "char \<Rightarrow> nat" where
  "uc c = of_char c"

definition sc :: "char \<Rightarrow> int" where
  "sc c = (if uc c < 128 then int (uc c) else int (uc c) - 256)"

definition NUL :: char where
  "NUL = CHR 0x00"

lemma uc_less_256: "uc c < 256"
  by (simp add: uc_def)

lemma uc_char_of [simp]: "n < 256 \<Longrightarrow> uc (char_of n) = n"
  by (simp add: uc_def)

lemma uc_eq_iff [simp]: "uc c = uc d \<longleftrightarrow> c = d"
  by (simp add: uc_def)

lemma uc_among: "uc c \<in> uc ` set cs \<Longrightarrow> c \<in> set cs"
  by auto

lemma uc_NUL [simp]: "uc NUL = 0"
  by (simp add: uc_def NUL_def)

lemma uc_zero_iff: "uc c = 0 \<longleftrightarrow> c = NUL"
  by (metis uc_NUL uc_eq_iff)

lemma sc_bounds: "-128 \<le> sc c \<and> sc c \<le> 127"
proof -
  have "int (uc c) < 256" using uc_less_256 [of c] by linarith
  then show ?thesis unfolding sc_def by (auto split: if_splits)
qed

text \<open>A signed comparison with a positive constant: true for the low bytes and for all high ones.\<close>

lemma sc_less_iff: "0 \<le> k \<Longrightarrow> k \<le> 128 \<Longrightarrow> sc c < k \<longleftrightarrow> int (uc c) < k \<or> 128 \<le> uc c"
proof -
  assume k: "0 \<le> k" "k \<le> 128"
  have "int (uc c) < 256" using uc_less_256 [of c] by linarith
  with k show ?thesis unfolding sc_def by (auto split: if_splits)
qed

lemma unat_of_nat_u32: "n < 2 ^ 32 \<Longrightarrow> unat (of_nat n :: u32) = n"
  by (simp add: unat_of_nat)

lemma unat_sub_of_nat: "n \<le> unat (w :: u32) \<Longrightarrow> unat (w - of_nat n) = unat w - n"
proof -
  assume n: "n \<le> unat w"
  moreover have "unat w < 2 ^ 32" using unsigned_less [of w] by simp
  ultimately have u: "unat (of_nat n :: u32) = n" by (intro unat_of_nat_u32) linarith
  then have "of_nat n \<le> w" using n by (simp add: word_le_nat_alt)
  then show ?thesis using u by (simp add: unat_sub)
qed

definition byte_of_char :: "char \<Rightarrow> u8" where
  "byte_of_char c = word_of_nat (uc c)"

definition char_of_byte :: "u8 \<Rightarrow> char" where
  "char_of_byte b = char_of (unat b)"

lemma unat_u8_less [simp]: "unat (b :: u8) < 256"
  using unsigned_less [of b] by simp

lemma uc_char_of_byte [simp]: "uc (char_of_byte b) = unat b"
  by (simp add: char_of_byte_def)

lemma byte_of_char_of_byte [simp]: "byte_of_char (char_of_byte b) = b"
  by (simp add: byte_of_char_def)

lemma char_of_byte_of_char [simp]: "char_of_byte (byte_of_char c) = c"
proof -
  have "unat (byte_of_char c) = uc c"
    using uc_less_256 [of c] by (simp add: byte_of_char_def unat_of_nat)
  then show ?thesis
    by (metis uc_char_of_byte uc_eq_iff)
qed

section \<open>Outcomes and programs\<close>

text \<open>
  A call returns a value and a state, throws an exception and leaves a state, runs into
  undefined behaviour (an index past a buffer, a dereferenced null or end iterator), or never
  returns. Nothing is known of the state after undefined behaviour or of a call that hangs.
\<close>

datatype ('e, 's, 'a) out =
    Ret 'a 's
  | Exn 'e 's
  | Undefined
  | Hang

text \<open>The exceptions of the standard library the code can run into.\<close>

datatype std_exn = Out_of_range | Runtime_error string | Logic_error string

type_synonym ('e, 's, 'a) prog = "'s \<Rightarrow> ('e, 's, 'a) out"

definition ret :: "'a \<Rightarrow> ('e, 's, 'a) prog" where
  "ret a s = Ret a s"

definition throw :: "'e \<Rightarrow> ('e, 's, 'a) prog" where
  "throw e s = Exn e s"

definition undefined_behaviour :: "('e, 's, 'a) prog" where
  "undefined_behaviour s = Undefined"

definition hang :: "('e, 's, 'a) prog" where
  "hang s = Hang"

definition bind :: "('e, 's, 'a) prog \<Rightarrow> ('a \<Rightarrow> ('e, 's, 'b) prog) \<Rightarrow> ('e, 's, 'b) prog" where
  "bind m f s = (case m s of Ret a t \<Rightarrow> f a t | Exn e t \<Rightarrow> Exn e t | Undefined \<Rightarrow> Undefined | Hang \<Rightarrow> Hang)"

definition seq :: "('e, 's, 'a) prog \<Rightarrow> ('e, 's, 'b) prog \<Rightarrow> ('e, 's, 'b) prog" where
  "seq m n = bind m (\<lambda>_. n)"

definition skip :: "('e, 's, unit) prog" where
  "skip = ret ()"

definition gets :: "('s \<Rightarrow> 'a) \<Rightarrow> ('e, 's, 'a) prog" where
  "gets f s = Ret (f s) s"

definition modify :: "('s \<Rightarrow> 's) \<Rightarrow> ('e, 's, unit) prog" where
  "modify f s = Ret () (f s)"

definition whenb :: "bool \<Rightarrow> ('e, 's, unit) prog \<Rightarrow> ('e, 's, unit) prog" where
  "whenb b m = (if b then m else skip)"

fun for_each :: "'a list \<Rightarrow> ('a \<Rightarrow> ('e, 's, unit) prog) \<Rightarrow> ('e, 's, unit) prog" where
  "for_each [] f = skip"
| "for_each (x # xs) f = seq (f x) (for_each xs f)"

named_theorems out_simps "evaluation rules of the program combinators"

lemma prog_eval [out_simps]:
  "ret a s = Ret a s" "throw e s = Exn e s" "undefined_behaviour s = Undefined" "hang s = Hang"
  "skip s = Ret () s" "gets f s = Ret (f s) s" "modify g s = Ret () (g s)"
  by (simp_all add: ret_def throw_def undefined_behaviour_def hang_def skip_def gets_def modify_def)

lemma bind_eval [out_simps]:
  "m s = Ret a t \<Longrightarrow> bind m f s = f a t"
  "m s = Exn e t \<Longrightarrow> bind m f s = Exn e t"
  "m s = Undefined \<Longrightarrow> bind m f s = Undefined"
  "m s = Hang \<Longrightarrow> bind m f s = Hang"
  by (simp_all add: bind_def)

lemma seq_eval [out_simps]:
  "m s = Ret a t \<Longrightarrow> seq m n s = n t"
  "m s = Exn e t \<Longrightarrow> seq m n s = Exn e t"
  "m s = Undefined \<Longrightarrow> seq m n s = Undefined"
  "m s = Hang \<Longrightarrow> seq m n s = Hang"
  by (simp_all add: seq_def bind_def)

lemma whenb_eval [out_simps]: "whenb True m = m" "whenb False m = skip"
  by (simp_all add: whenb_def)

lemma bind_Ret_iff:
  "bind m f s = Ret b t \<longleftrightarrow> (\<exists>a u. m s = Ret a u \<and> f a u = Ret b t)"
  by (simp add: bind_def split: out.splits)

lemma bind_Exn_iff:
  "bind m f s = Exn e t \<longleftrightarrow> m s = Exn e t \<or> (\<exists>a u. m s = Ret a u \<and> f a u = Exn e t)"
  by (auto simp: bind_def split: out.splits)

section \<open>Invariants of programs\<close>

text \<open>
  \<open>keeps I m\<close>: from a state with the invariant, the call leaves the invariant, whether it
  returns or throws. \<open>safe I m\<close> says moreover that it runs into no undefined behaviour and
  does not hang.
\<close>

fun out_all :: "('s \<Rightarrow> bool) \<Rightarrow> ('e, 's, 'a) out \<Rightarrow> bool" where
  "out_all I (Ret _ t) = I t"
| "out_all I (Exn _ t) = I t"
| "out_all I Undefined = True"
| "out_all I Hang = True"

fun defined :: "('e, 's, 'a) out \<Rightarrow> bool" where
  "defined (Ret _ _) = True"
| "defined (Exn _ _) = True"
| "defined Undefined = False"
| "defined Hang = False"

definition keeps :: "('s \<Rightarrow> bool) \<Rightarrow> ('e, 's, 'a) prog \<Rightarrow> bool" where
  "keeps I m \<longleftrightarrow> (\<forall>s. I s \<longrightarrow> out_all I (m s))"

definition safe :: "('s \<Rightarrow> bool) \<Rightarrow> ('e, 's, 'a) prog \<Rightarrow> bool" where
  "safe I m \<longleftrightarrow> (\<forall>s. I s \<longrightarrow> out_all I (m s) \<and> defined (m s))"

named_theorems keeps_intros "rules that carry an invariant through a program"

lemma safe_imp_keeps: "safe I m \<Longrightarrow> keeps I m"
  by (simp add: safe_def keeps_def)

lemma keepsD: "keeps I m \<Longrightarrow> I s \<Longrightarrow> out_all I (m s)"
  by (simp add: keeps_def)

lemma keepsD_Ret: "keeps I m \<Longrightarrow> I s \<Longrightarrow> m s = Ret a t \<Longrightarrow> I t"
  by (drule (1) keepsD) simp

lemma keepsD_Exn: "keeps I m \<Longrightarrow> I s \<Longrightarrow> m s = Exn e t \<Longrightarrow> I t"
  by (drule (1) keepsD) simp

lemma keepsI: "(\<And>s. I s \<Longrightarrow> out_all I (m s)) \<Longrightarrow> keeps I m"
  by (simp add: keeps_def)

lemma keeps_basic [keeps_intros]:
  "keeps I (ret a)" "keeps I (throw e)" "keeps I undefined_behaviour" "keeps I hang"
  "keeps I skip" "keeps I (gets f)"
  by (simp_all add: keeps_def out_simps)

lemma keeps_modify [keeps_intros]: "(\<And>s. I s \<Longrightarrow> I (g s)) \<Longrightarrow> keeps I (modify g)"
  by (simp add: keeps_def out_simps)

lemma out_all_bind:
  assumes "out_all I (m s)" and "\<And>a t. I t \<Longrightarrow> out_all I (f a t)"
  shows "out_all I (bind m f s)"
  using assms by (cases "m s") (simp_all add: bind_def)

lemma keeps_bind [keeps_intros]:
  "keeps I m \<Longrightarrow> (\<And>a. keeps I (f a)) \<Longrightarrow> keeps I (bind m f)"
  by (intro keepsI out_all_bind) (blast dest: keepsD)+

lemma keeps_seq [keeps_intros]: "keeps I m \<Longrightarrow> keeps I n \<Longrightarrow> keeps I (seq m n)"
  unfolding seq_def by (rule keeps_bind)

lemma keeps_whenb [keeps_intros]: "(b \<Longrightarrow> keeps I m) \<Longrightarrow> keeps I (whenb b m)"
  by (simp add: whenb_def keeps_basic)

lemma keeps_if [keeps_intros]:
  "(b \<Longrightarrow> keeps I m) \<Longrightarrow> (\<not> b \<Longrightarrow> keeps I n) \<Longrightarrow> keeps I (if b then m else n)"
  by simp

lemma keeps_for_each [keeps_intros]:
  "(\<And>x. x \<in> set xs \<Longrightarrow> keeps I (f x)) \<Longrightarrow> keeps I (for_each xs f)"
  by (induction xs) (auto intro!: keeps_intros)

section \<open>Weakest preconditions\<close>

text \<open>
  \<open>wp m Q R s\<close>: the call returns or throws (it is defined and does not hang) and the result
  satisfies \<open>Q\<close> or the exception \<open>R\<close>. The rules compute it through the combinators.
\<close>

definition wp :: "('e, 's, 'a) prog \<Rightarrow> ('a \<Rightarrow> 's \<Rightarrow> bool) \<Rightarrow> ('e \<Rightarrow> 's \<Rightarrow> bool) \<Rightarrow> 's \<Rightarrow> bool" where
  "wp m Q R s = (case m s of Ret a t \<Rightarrow> Q a t | Exn e t \<Rightarrow> R e t | Undefined \<Rightarrow> False | Hang \<Rightarrow> False)"

named_theorems wp_simps "weakest preconditions of the combinators and of the basic operations"

lemma wp_basic [wp_simps]:
  "wp (ret a) Q R = Q a" "wp (throw e) Q R = R e" "wp undefined_behaviour Q R = (\<lambda>_. False)"
  "wp hang Q R = (\<lambda>_. False)"
  by (rule ext, simp add: wp_def out_simps)+

lemma wp_state [wp_simps]: "wp (gets f) Q R = (\<lambda>s. Q (f s) s)"
  by (rule ext) (simp add: wp_def out_simps)

lemma wp_unit [wp_simps]: "wp skip Q R = Q ()" "wp (modify g) Q R = (\<lambda>s. Q () (g s))"
  by (rule ext, simp add: wp_def out_simps)+

lemma wp_bind [wp_simps]: "wp (bind m f) Q R = wp m (\<lambda>a. wp (f a) Q R) R"
  by (rule ext) (simp add: wp_def bind_def split: out.split)

lemma wp_seq [wp_simps]: "wp (seq m n) Q R = wp m (\<lambda>_. wp n Q R) R"
  by (simp add: seq_def wp_bind)

lemma wp_whenb [wp_simps]: "wp (whenb b m) Q R = (if b then wp m Q R else Q ())"
  by (simp add: whenb_def wp_unit)

lemma wp_if [wp_simps]: "wp (if b then m else n) Q R = (if b then wp m Q R else wp n Q R)"
  by simp

lemma if_apply [wp_simps]: "(if b then f else g) x = (if b then f x else g x)"
  by simp

lemma wp_mono:
  "wp m Q R s \<Longrightarrow> (\<And>a t. Q a t \<Longrightarrow> Q' a t) \<Longrightarrow> (\<And>e t. R e t \<Longrightarrow> R' e t) \<Longrightarrow> wp m Q' R' s"
  by (simp add: wp_def split: out.splits)

lemma wp_Ret: "wp m Q (\<lambda>_ _. False) s \<longleftrightarrow> (\<exists>a t. m s = Ret a t \<and> Q a t)"
  by (simp add: wp_def split: out.split)

lemma wp_RetD: "wp m Q R s \<Longrightarrow> m s = Ret a t \<Longrightarrow> Q a t"
  by (simp add: wp_def)

lemma wp_not_Hang: "wp m Q R s \<Longrightarrow> m s \<noteq> Hang \<and> m s \<noteq> Undefined"
  by (auto simp: wp_def)

section \<open>Invariants of step relations\<close>

text \<open>
  What several threads do to one state is a step relation. An invariant of the single steps is one of all
  that can be reached; \<open>closed\<close> is the other use, a set of states that no step leaves.
\<close>

locale stepping =
  fixes step :: "'s \<Rightarrow> 's \<Rightarrow> bool"
    and inv :: "'s \<Rightarrow> bool"
  assumes kept: "step x y \<Longrightarrow> inv x \<Longrightarrow> inv y"
begin

lemma reached: "step\<^sup>*\<^sup>* x y \<Longrightarrow> inv x \<Longrightarrow> inv y"
  by (induction rule: rtranclp_induct) (auto intro: kept)

lemma closed: "inv x \<Longrightarrow> {y. step\<^sup>*\<^sup>* x y} \<subseteq> {y. inv y}"
  by (auto intro: reached)

end

text \<open>
  The same for an object whose calls come one after the other, as long as they are of those the object
  expects. Nothing undefined happens, and the first exception, one of \<open>raised\<close>, ends it.
\<close>

locale object_life =
  fixes call :: "'c \<Rightarrow> ('e, 's, unit) prog"
    and life :: "'s \<Rightarrow> bool"
    and expected :: "'c \<Rightarrow> bool"
    and raised :: "'e set"
  assumes call_life: "life s \<Longrightarrow> expected c \<Longrightarrow> wp (call c) (\<lambda>_. life) (\<lambda>e t. life t \<and> e \<in> raised) s"
begin

lemma calls_life:
  "life s \<Longrightarrow> list_all expected cs \<Longrightarrow> wp (for_each cs call) (\<lambda>_. life) (\<lambda>e t. life t \<and> e \<in> raised) s"
proof (induction cs arbitrary: s)
  case (Cons c cs)
  then show ?case by (auto simp: wp_seq elim!: wp_mono [OF call_life])
qed (simp add: wp_unit)

lemma calls_end:
  assumes "life s" and "list_all expected cs"
  shows "\<exists>t. life t \<and> (for_each cs call s = Ret () t \<or> (\<exists>e\<in>raised. for_each cs call s = Exn e t))"
  using calls_life [OF assms] by (auto simp: wp_def split: out.splits)

end

text \<open>
  Refinement of a contract: every operation on a good state returns what the contract says of the
  abstract state, and goes where it says. A list of operations then does so too.
\<close>

fun run_all :: "('x \<Rightarrow> ('e, 's, 'r) prog) \<Rightarrow> 'x list \<Rightarrow> ('e, 's, 'r list) prog" where
  "run_all op [] = ret []"
| "run_all op (x # xs) = bind (op x) (\<lambda>r. bind (run_all op xs) (\<lambda>rs. ret (r # rs)))"

fun contract_all :: "('x \<Rightarrow> 'a \<Rightarrow> 'r \<times> 'a) \<Rightarrow> 'x list \<Rightarrow> 'a \<Rightarrow> 'r list \<times> 'a" where
  "contract_all spec [] a = ([], a)"
| "contract_all spec (x # xs) a = (let (r, b) = spec x a; (rs, c) = contract_all spec xs b in (r # rs, c))"

locale contract =
  fixes good :: "'s \<Rightarrow> bool"
    and abs :: "'s \<Rightarrow> 'a"
    and op :: "'x \<Rightarrow> ('e, 's, 'r) prog"
    and spec :: "'x \<Rightarrow> 'a \<Rightarrow> 'r \<times> 'a"
  assumes once: "good s \<Longrightarrow> \<exists>t. op x s = Ret (fst (spec x (abs s))) t \<and> abs t = snd (spec x (abs s)) \<and> good t"
begin

lemma all: "good s \<Longrightarrow> \<exists>t. run_all op xs s = Ret (fst (contract_all spec xs (abs s))) t
    \<and> abs t = snd (contract_all spec xs (abs s)) \<and> good t"
proof (induction xs arbitrary: s)
  case (Cons x xs)
  obtain t where t: "op x s = Ret (fst (spec x (abs s))) t" "abs t = snd (spec x (abs s))" "good t"
    using once [OF Cons.prems] by blast
  obtain u where "run_all op xs t = Ret (fst (contract_all spec xs (abs t))) u"
      "abs u = snd (contract_all spec xs (abs t))" "good u" using Cons.IH [OF t(3)] by blast
  then show ?case using t by (simp add: bind_def prog_eval Let_def split: prod.split)
qed (simp add: prog_eval)

end

section \<open>Strings of the standard library\<close>

text \<open>
  \<open>str_at s i\<close> is \<open>s[i]\<close>: the terminating NUL at \<open>i = s.size()\<close>, undefined past it.
  \<open>erase\<close>, \<open>replace\<close> and \<open>substr\<close> throw \<open>out_of_range\<close> (\<open>None\<close> here) when their
  position is past the end, and clamp their count.
\<close>

definition str_at :: "string \<Rightarrow> nat \<Rightarrow> char option" where
  "str_at s i = (if i < length s then Some (s ! i) else if i = length s then Some NUL else None)"

definition str_erase_from :: "string \<Rightarrow> nat \<Rightarrow> string option" where
  "str_erase_from s pos = (if pos \<le> length s then Some (take pos s) else None)"

definition str_erase :: "string \<Rightarrow> nat \<Rightarrow> nat \<Rightarrow> string option" where
  "str_erase s pos n = (if pos \<le> length s then Some (take pos s @ drop (pos + n) s) else None)"

definition str_replace :: "string \<Rightarrow> nat \<Rightarrow> nat \<Rightarrow> string \<Rightarrow> string option" where
  "str_replace s pos n t =
     (if pos \<le> length s then Some (take pos s @ t @ drop (pos + n) s) else None)"

definition str_substr :: "string \<Rightarrow> nat \<Rightarrow> nat \<Rightarrow> string option" where
  "str_substr s pos n = (if pos \<le> length s then Some (take n (drop pos s)) else None)"

definition str_substr_from :: "string \<Rightarrow> nat \<Rightarrow> string option" where
  "str_substr_from s pos = (if pos \<le> length s then Some (drop pos s) else None)"

text \<open>\<open>str_find s t pos\<close> is \<open>s.find(t, pos)\<close>, with \<open>None\<close> for \<open>npos\<close>.\<close>

definition str_find :: "string \<Rightarrow> string \<Rightarrow> nat \<Rightarrow> nat option" where
  "str_find s t pos =
     List.find (\<lambda>i. take (length t) (drop i s) = t) [pos..<Suc (length s) - length t]"

lemma str_find_Some:
  assumes "str_find s t pos = Some i"
  shows "pos \<le> i" "i + length t \<le> length s" "take (length t) (drop i s) = t"
    "\<And>j. pos \<le> j \<Longrightarrow> j < i \<Longrightarrow> take (length t) (drop j s) \<noteq> t"
proof -
  obtain k where k: "k < length [pos..<Suc (length s) - length t]"
      "take (length t) (drop ([pos..<Suc (length s) - length t] ! k) s) = t"
      "i = [pos..<Suc (length s) - length t] ! k"
      "\<forall>j<k. take (length t) (drop ([pos..<Suc (length s) - length t] ! j) s) \<noteq> t"
    using assms unfolding str_find_def find_Some_iff by blast
  have i: "i = pos + k" "pos + k < Suc (length s) - length t"
    using k(1,3) by simp_all
  show "pos \<le> i" "i + length t \<le> length s" "take (length t) (drop i s) = t"
    using i k(2,3) by simp_all
  show "take (length t) (drop j s) \<noteq> t" if "pos \<le> j" "j < i" for j
  proof -
    have "j - pos < k" using that i(1) by linarith
    then have "take (length t) (drop ([pos..<Suc (length s) - length t] ! (j - pos)) s) \<noteq> t"
      using k(4) by blast
    moreover have "[pos..<Suc (length s) - length t] ! (j - pos) = j"
      using that i by simp
    ultimately show ?thesis by simp
  qed
qed

lemma str_find_None:
  assumes "str_find s t pos = None" and "pos \<le> j" and "j + length t \<le> length s"
  shows "take (length t) (drop j s) \<noteq> t"
proof -
  have "j \<in> set [pos..<Suc (length s) - length t]" using assms(2,3) by auto
  then show ?thesis
    using assms(1) unfolding str_find_def find_None_iff by blast
qed

text \<open>The part of a string a C function sees: what stands before the first NUL.\<close>

definition c_str :: "string \<Rightarrow> string" where
  "c_str s = takeWhile (\<lambda>c. c \<noteq> NUL) s"

lemma c_str_id: "NUL \<notin> set s \<Longrightarrow> c_str s = s"
  by (auto simp: c_str_def takeWhile_eq_all_conv)

text \<open>The decimal digits \<open>ostream\<close> and \<open>printf("%d")\<close> write for an integer.\<close>

fun show_nat :: "nat \<Rightarrow> string" where
  "show_nat n =
     (if n < 10 then [char_of (48 + n)] else show_nat (n div 10) @ [char_of (48 + n mod 10)])"

declare show_nat.simps [simp del]

definition show_int :: "int \<Rightarrow> string" where
  "show_int i = (if i < 0 then CHR ''-'' # show_nat (nat (- i)) else show_nat (nat i))"

lemma show_nat_digits: "\<forall>c \<in> set (show_nat n). 48 \<le> uc c \<and> uc c \<le> 57"
proof (induction n rule: show_nat.induct)
  case (1 n)
  show ?case
  proof (cases "n < 10")
    case True
    then show ?thesis by (subst show_nat.simps) simp
  next
    case False
    moreover have "n mod 10 < 10" by simp
    ultimately show ?thesis using 1 by (subst show_nat.simps) auto
  qed
qed

end
