(* ===== verification/StdMap.thy ===== *)
theory StdMap
  imports Prelude "HOL-Library.List_Lexorder" "HOL-Library.Char_ord"
begin

text \<open>
  The ordered containers of the standard library the code keys its objects by:
  \<open>std::map\<close> as the list of its entries in increasing key order (the order iteration
  visits them in), \<open>std::set\<close> as a map to \<open>unit\<close>. The interface the components use is the
  locale \<open>registry\<close>; its laws hold of the model of \<open>std::map\<close>.
\<close>

section \<open>The entries in key order\<close>

type_synonym ('k, 'v) smap = "('k \<times> 'v) list"

fun map_find :: "('k, 'v) smap \<Rightarrow> 'k \<Rightarrow> 'v option" where
  "map_find [] k = None"
| "map_find ((a, b) # m) k = (if a = k then Some b else map_find m k)"

text \<open>\<open>m[k] = v\<close> and \<open>insert_or_assign\<close>: an existing entry is overwritten.\<close>

fun map_put :: "'k::linorder \<Rightarrow> 'v \<Rightarrow> ('k, 'v) smap \<Rightarrow> ('k, 'v) smap" where
  "map_put k v [] = [(k, v)]"
| "map_put k v ((a, b) # m) =
     (if k < a then (k, v) # (a, b) # m
      else if k = a then (k, v) # m
      else (a, b) # map_put k v m)"

text \<open>\<open>emplace\<close>: an existing entry stays.\<close>

definition map_emplace :: "'k::linorder \<Rightarrow> 'v \<Rightarrow> ('k, 'v) smap \<Rightarrow> ('k, 'v) smap" where
  "map_emplace k v m = (case map_find m k of None \<Rightarrow> map_put k v m | Some _ \<Rightarrow> m)"

fun map_erase :: "'k \<Rightarrow> ('k, 'v) smap \<Rightarrow> ('k, 'v) smap" where
  "map_erase k [] = []"
| "map_erase k ((a, b) # m) = (if a = k then m else (a, b) # map_erase k m)"

definition map_keys :: "('k, 'v) smap \<Rightarrow> 'k list" where
  "map_keys m = map fst m"

definition map_ok :: "('k::linorder, 'v) smap \<Rightarrow> bool" where
  "map_ok m \<longleftrightarrow> sorted_wrt (<) (map_keys m)"

lemma map_keys_simps [simp]: "map_keys [] = []" "map_keys (p # m) = fst p # map_keys m"
  by (simp_all add: map_keys_def)

lemma map_ok_Nil [simp]: "map_ok []"
  by (simp add: map_ok_def)

lemma map_ok_Cons [simp]: "map_ok (p # m) \<longleftrightarrow> (\<forall>k \<in> set (map_keys m). fst p < k) \<and> map_ok m"
  by (simp add: map_ok_def)

lemma set_keys_put: "set (map_keys (map_put k v m)) = insert k (set (map_keys m))"
  by (induction k v m rule: map_put.induct) auto

lemma set_keys_erase: "set (map_keys (map_erase k m)) \<subseteq> set (map_keys m)"
  by (induction k m rule: map_erase.induct) auto

lemma map_find_None_iff: "map_find m k = None \<longleftrightarrow> k \<notin> set (map_keys m)"
  by (induction m k rule: map_find.induct) auto

lemma map_find_Some_in: "map_find m k = Some v \<Longrightarrow> (k, v) \<in> set m"
  by (induction m k rule: map_find.induct) (auto split: if_splits)

lemma map_ok_put: "map_ok m \<Longrightarrow> map_ok (map_put k v m)"
  by (induction k v m rule: map_put.induct) (auto simp: set_keys_put)

lemma map_ok_erase: "map_ok m \<Longrightarrow> map_ok (map_erase k m)"
  by (induction k m rule: map_erase.induct) (auto dest: subsetD [OF set_keys_erase])

lemma map_ok_emplace: "map_ok m \<Longrightarrow> map_ok (map_emplace k v m)"
  by (simp add: map_emplace_def map_ok_put split: option.split)

lemma find_put: "map_ok m \<Longrightarrow> map_find (map_put k v m) j = (if j = k then Some v else map_find m j)"
  by (induction k v m rule: map_put.induct) auto

lemma find_put_any: "map_find (map_put k v m) j = (if j = k then Some v else map_find m j)"
  by (induction k v m rule: map_put.induct) auto

lemma find_erase: "map_ok m \<Longrightarrow> map_find (map_erase k m) j = (if j = k then None else map_find m j)"
proof (induction k m rule: map_erase.induct)
  case (2 k a b m)
  then show ?case by (auto simp: map_find_None_iff)
qed simp

lemma in_set_find: "map_ok m \<Longrightarrow> (k, v) \<in> set m \<Longrightarrow> map_find m k = Some v"
proof (induction m)
  case (Cons p m)
  then have "k \<in> set (map_keys m)" if "(k, v) \<in> set m"
    using that by (force simp: map_keys_def)
  with Cons show ?case by (cases p) auto
qed simp

lemma map_find_iff: "map_ok m \<Longrightarrow> map_find m k = Some v \<longleftrightarrow> (k, v) \<in> set m"
  using map_find_Some_in in_set_find by metis

lemma map_ok_distinct: "map_ok m \<Longrightarrow> distinct (map_keys m)"
  by (simp add: map_ok_def strict_sorted_iff)

lemma erase_absent: "k \<notin> set (map_keys m) \<Longrightarrow> map_erase k m = m"
  by (induction k m rule: map_erase.induct) auto

section \<open>The interface of a keyed registry\<close>

text \<open>
  What the components of the server rely on when they enter, drop and look up objects by
  their id. A history of entries and removals is \<open>run\<close>; its abstract meaning is the same
  history on a partial function.
\<close>

datatype ('k, 'v) reg_op = Enter 'k 'v | Drop 'k

fun reg_spec :: "('k, 'v) reg_op list \<Rightarrow> ('k \<Rightarrow> 'v option) \<Rightarrow> ('k \<Rightarrow> 'v option)" where
  "reg_spec [] f = f"
| "reg_spec (Enter k v # ops) f = reg_spec ops (f(k := Some v))"
| "reg_spec (Drop k # ops) f = reg_spec ops (f(k := None))"

fun reg_run :: "('k \<Rightarrow> 'v \<Rightarrow> 'r \<Rightarrow> 'r) \<Rightarrow> ('k \<Rightarrow> 'r \<Rightarrow> 'r) \<Rightarrow> ('k, 'v) reg_op list \<Rightarrow> 'r \<Rightarrow> 'r" where
  "reg_run add del [] r = r"
| "reg_run add del (Enter k v # ops) r = reg_run add del ops (add k v r)"
| "reg_run add del (Drop k # ops) r = reg_run add del ops (del k r)"

locale registry =
  fixes look :: "'r \<Rightarrow> 'k \<Rightarrow> 'v option"
    and add :: "'k \<Rightarrow> 'v \<Rightarrow> 'r \<Rightarrow> 'r"
    and del :: "'k \<Rightarrow> 'r \<Rightarrow> 'r"
    and ok :: "'r \<Rightarrow> bool"
  assumes look_add: "ok r \<Longrightarrow> look (add k v r) = (look r)(k := Some v)"
    and look_del: "ok r \<Longrightarrow> look (del k r) = (look r)(k := None)"
    and ok_add: "ok r \<Longrightarrow> ok (add k v r)"
    and ok_del: "ok r \<Longrightarrow> ok (del k r)"
begin

lemmas laws = look_add look_del ok_add ok_del

lemma run_ok: "ok r \<Longrightarrow> ok (reg_run add del ops r)"
proof (induction ops arbitrary: r)
  case (Cons x ops)
  then show ?case by (cases x) (simp_all add: laws)
qed simp

lemma run_refines: "ok r \<Longrightarrow> look (reg_run add del ops r) = reg_spec ops (look r)"
proof (induction ops arbitrary: r)
  case (Cons x ops)
  then show ?case by (cases x) (simp_all add: laws fun_upd_def)
qed simp

lemma del_gone: "ok r \<Longrightarrow> look (del k r) k = None"
  by (simp add: look_del)

lemma add_other: "ok r \<Longrightarrow> j \<noteq> k \<Longrightarrow> look (add k v r) j = look r j"
  by (simp add: look_add)

lemma del_other: "ok r \<Longrightarrow> j \<noteq> k \<Longrightarrow> look (del k r) j = look r j"
  by (simp add: look_del)

end

interpretation std_map: registry map_find map_put map_erase map_ok
  by unfold_locales (auto simp: find_put find_erase map_ok_put map_ok_erase)

end
