(* ===== verification/Enums.thy ===== *)
theory Enums
  imports StdMap
begin

text \<open>
  The enumeration classes of \<open>src/Common/enum.h\<close> (\<open>Enum\<close>, its iterator and \<open>BitEnum\<close>)
  and the enumerations the \<open>.lua\<close> files of \<open>src/Common/Enums\<close> list for them. An enum
  value is its integer; the static tables of an instance of the template are the record
  \<open>enum_tables\<close>. The static functions are programs over any state, so that every component
  can call them. Boost's \<open>to_lower_copy\<close> is a parameter of the table constructor.
\<close>

unbundle bit_operations_syntax

section \<open>The tables of an enumeration\<close>

record enum_tables =
  enum_name :: string
  enum_to_string :: "(int, string list) smap"
  enum_to_value :: "(int, string) smap"
  string_to_enum :: "(string, int) smap"
  lstring_to_enum :: "(string, int) smap"

definition enum_empty :: "string \<Rightarrow> enum_tables" where
  "enum_empty name = \<lparr>enum_name = name, enum_to_string = [], enum_to_value = [],
     string_to_enum = [], lstring_to_enum = []\<rparr>"

text \<open>\<open>enum_to_string[_e].push_back(str)\<close> enters an empty vector when there is none.\<close>

definition initAddValue ::
    "(string \<Rightarrow> string) \<Rightarrow> int \<Rightarrow> string \<Rightarrow> string \<Rightarrow> enum_tables \<Rightarrow> enum_tables" where
  "initAddValue to_lower_copy e str value t =
     (let names = (case map_find (enum_to_string t) e of None \<Rightarrow> [] | Some ns \<Rightarrow> ns) in
      t\<lparr>enum_to_string := map_put e (names @ [str]) (enum_to_string t),
        enum_to_value := (if value \<noteq> [] then map_emplace e value (enum_to_value t)
                          else enum_to_value t),
        string_to_enum := map_put str e (string_to_enum t),
        lstring_to_enum := map_put (to_lower_copy str) e (lstring_to_enum t)\<rparr>)"

text \<open>
  The generated \<open>initialize\<close>: one \<open>initAddValue\<close> per line of the enumeration, the rows
  being value, name and string value.
\<close>

fun enum_initialize ::
    "(string \<Rightarrow> string) \<Rightarrow> (int \<times> string \<times> string) list \<Rightarrow> enum_tables \<Rightarrow> enum_tables" where
  "enum_initialize lower [] t = t"
| "enum_initialize lower ((e, str, value) # rows) t =
     enum_initialize lower rows (initAddValue lower e str value t)"

section \<open>The static functions of Enum\<close>

definition out_of_range_error :: "enum_tables \<Rightarrow> string \<Rightarrow> string \<Rightarrow> std_exn" where
  "out_of_range_error t what shown =
     Logic_error (''Enum '' @ enum_name t @ what @ ''('' @ shown @ '')'')"

definition enum_exists :: "enum_tables \<Rightarrow> int \<Rightarrow> bool" where
  "enum_exists t v \<longleftrightarrow> map_find (enum_to_string t) v \<noteq> None"

text \<open>\<open>toString\<close> returns the first string of the entry it finds.\<close>

definition enum_toString :: "enum_tables \<Rightarrow> int \<Rightarrow> (std_exn, 's, string) prog" where
  "enum_toString t e s =
     (case map_find (enum_to_string t) e of
        Some (str # _) \<Rightarrow> Ret str s
      | Some [] \<Rightarrow> Undefined
      | None \<Rightarrow> Exn (out_of_range_error t '' value out of range '' (show_int e)) s)"

text \<open>
  The others test \<open>i==end()\<close> where \<open>toString\<close> tests \<open>i!=end()\<close>: they dereference the end
  iterator when nothing was found (undefined) and throw when the value is there.
\<close>

definition enum_toValue :: "enum_tables \<Rightarrow> int \<Rightarrow> (std_exn, 's, string) prog" where
  "enum_toValue t e s =
     (case map_find (enum_to_value t) e of
        None \<Rightarrow> Undefined
      | Some _ \<Rightarrow> Exn (out_of_range_error t '' value out of range '' (show_int e)) s)"

definition enum_toStrings :: "enum_tables \<Rightarrow> int \<Rightarrow> (std_exn, 's, string list) prog" where
  "enum_toStrings t e s =
     (case map_find (enum_to_string t) e of None \<Rightarrow> Undefined | Some _ \<Rightarrow> Ret [] s)"

definition enum_fromString :: "enum_tables \<Rightarrow> string \<Rightarrow> (std_exn, 's, int) prog" where
  "enum_fromString t str s =
     (case map_find (string_to_enum t) str of
        None \<Rightarrow> Undefined
      | Some _ \<Rightarrow> Exn (out_of_range_error t '' value does not exist '' str) s)"

definition enum_fromInteger :: "enum_tables \<Rightarrow> int \<Rightarrow> (std_exn, 's, int) prog" where
  "enum_fromInteger t n s =
     (case map_find (enum_to_string t) n of
        None \<Rightarrow> Undefined
      | Some _ \<Rightarrow> Exn (out_of_range_error t '' value is invalid '' (show_int n)) s)"

definition enum_fromStringI :: "enum_tables \<Rightarrow> string \<Rightarrow> (std_exn, 's, int) prog" where
  "enum_fromStringI t str s =
     (case map_find (lstring_to_enum t) str of
        None \<Rightarrow> Undefined
      | Some _ \<Rightarrow> Exn (out_of_range_error t '' value out of range '' str) s)"

text \<open>
  Iteration: an iterator is a position among the keys in order; \<open>end()\<close> is one past the last.
  Its \<open>operator*\<close> is undefined there.
\<close>

definition enum_begin :: nat where
  "enum_begin = 0"

definition enum_end :: "enum_tables \<Rightarrow> nat" where
  "enum_end t = length (enum_to_string t)"

definition enum_deref :: "enum_tables \<Rightarrow> nat \<Rightarrow> int option" where
  "enum_deref t i = (if i < enum_end t then Some (fst (enum_to_string t ! i)) else None)"

text \<open>The constructor of an iterator from a value throws when the value has no entry.\<close>

fun key_index :: "('k, 'v) smap \<Rightarrow> 'k \<Rightarrow> nat option" where
  "key_index [] k = None"
| "key_index ((a, b) # m) k = (if a = k then Some 0 else map_option Suc (key_index m k))"

definition enum_iter_at :: "enum_tables \<Rightarrow> int \<Rightarrow> (std_exn, 's, nat) prog" where
  "enum_iter_at t e s =
     (case key_index (enum_to_string t) e of
        Some i \<Rightarrow> Ret i s
      | None \<Rightarrow> Exn (out_of_range_error t '' value out of range '' (show_int e)) s)"

section \<open>BitEnum\<close>

text \<open>The value is a C \<open>int\<close>; \<open>isSet\<close> compares the conjunction as a signed number.\<close>

definition bit_isSet :: "u32 \<Rightarrow> u32 \<Rightarrow> bool" where
  "bit_isSet e o' = (0 < sint (e AND o'))"

definition bit_set :: "u32 \<Rightarrow> u32 \<Rightarrow> u32" where
  "bit_set e o' = e OR o'"

definition bit_unset :: "u32 \<Rightarrow> u32 \<Rightarrow> u32" where
  "bit_unset e o' = e AND NOT o'"

text \<open>The loop of \<open>index\<close>: \<open>i\<close> is \<open>1<<j\<close>, the last one tried is \<open>1<<30\<close>.\<close>

function bit_index_loop :: "u32 \<Rightarrow> nat \<Rightarrow> nat" where
  "bit_index_loop e j =
     (if e AND push_bit j 1 = push_bit j 1 then j
      else if 30 \<le> j then 0
      else bit_index_loop e (j + 1))"
  by pat_completeness auto
termination
  by (relation "measure (\<lambda>(e, j). 30 - j)") auto

declare bit_index_loop.simps [simp del]

definition bit_index :: "u32 \<Rightarrow> nat" where
  "bit_index e = bit_index_loop e 0"

text \<open>
  \<open>BitEnum::toString\<close>: the name of the value itself, or else the names of its bits with
  bars between; a bit with no name makes \<open>Enum::toString\<close> throw.
\<close>

fun bit_names :: "enum_tables \<Rightarrow> u32 \<Rightarrow> nat list \<Rightarrow> string \<Rightarrow> bool \<Rightarrow> (std_exn, 's, string) prog" where
  "bit_names t e [] acc first s = Ret acc s"
| "bit_names t e (j # js) acc first s =
     (if e AND push_bit j 1 = push_bit j 1 then
        bind (enum_toString t (2 ^ j))
          (\<lambda>str. bit_names t e js (acc @ (if first then [] else '' | '') @ str) False) s
      else bit_names t e js acc first s)"

definition bit_toString :: "enum_tables \<Rightarrow> u32 \<Rightarrow> (std_exn, 's, string) prog" where
  "bit_toString t e =
     (if enum_exists t (sint e) then enum_toString t (sint e)
      else bit_names t e [0..<31] [] True)"

section \<open>The enumerations of the server\<close>

text \<open>\<open>UserStage.lua\<close>: the states of a login and of the command line, numbered from 0.\<close>

datatype user_stage =
    UserStage_DISCONNECT | UserStage_SWAPPED | UserStage_NEW | UserStage_LOGIN_ID
  | UserStage_LOGIN_PWD | UserStage_LOGIN_NAME | UserStage_LOGIN_NEW_PWD
  | UserStage_LOGIN_REENTER_PWD | UserStage_LOGIN_PROMPT | UserStage_CMD_LINE
  | UserStage_OLD_PWD | UserStage_NEW_PWD | UserStage_REENTER_PWD | UserStage_SUICIDE

primrec stage_value :: "user_stage \<Rightarrow> int" where
  "stage_value UserStage_DISCONNECT = 0"
| "stage_value UserStage_SWAPPED = 1"
| "stage_value UserStage_NEW = 2"
| "stage_value UserStage_LOGIN_ID = 3"
| "stage_value UserStage_LOGIN_PWD = 4"
| "stage_value UserStage_LOGIN_NAME = 5"
| "stage_value UserStage_LOGIN_NEW_PWD = 6"
| "stage_value UserStage_LOGIN_REENTER_PWD = 7"
| "stage_value UserStage_LOGIN_PROMPT = 8"
| "stage_value UserStage_CMD_LINE = 9"
| "stage_value UserStage_OLD_PWD = 10"
| "stage_value UserStage_NEW_PWD = 11"
| "stage_value UserStage_REENTER_PWD = 12"
| "stage_value UserStage_SUICIDE = 13"

text \<open>\<open>UserLevel.lua\<close>.\<close>

datatype user_level = UserLevel_LOGIN | UserLevel_NOVICE | UserLevel_USER | UserLevel_ADMIN

primrec level_value :: "user_level \<Rightarrow> int" where
  "level_value UserLevel_LOGIN = 0"
| "level_value UserLevel_NOVICE = 1"
| "level_value UserLevel_USER = 2"
| "level_value UserLevel_ADMIN = 3"

definition userLevel_rows :: "(int \<times> string \<times> string) list" where
  "userLevel_rows = [(0, ''login'', []), (1, ''novice'', []), (2, ''user'', []), (3, ''admin'', [])]"

definition userStage_rows :: "(int \<times> string \<times> string) list" where
  "userStage_rows =
     [(0, ''disconnect'', []), (1, ''swapped'', []), (2, ''new'', []), (3, ''login'', []),
      (4, ''login'', []), (5, ''login'', []), (6, ''login'', []), (7, ''login'', []),
      (8, ''login'', []), (9, ''cmd'', []), (10, ''pwd'', []), (11, ''pwd'', []),
      (12, ''pwd'', []), (13, ''suicide'', [])]"

text \<open>\<open>LoginCom.lua\<close>: the words a name prompt answers to.\<close>

definition LoginCom_QUIT :: int where "LoginCom_QUIT = 0"
definition LoginCom_WHO :: int where "LoginCom_WHO = 1"
definition LoginCom_VERSION :: int where "LoginCom_VERSION = 2"

definition loginCom_rows :: "(int \<times> string \<times> string) list" where
  "loginCom_rows = [(0, ''quit'', []), (1, ''who'', []), (2, ''version'', [])]"

text \<open>\<open>TelnetCmd.lua\<close>, \<open>TelnetOpt.lua\<close>, \<open>TelnetSub.lua\<close>, \<open>AsciiChar.lua\<close>.\<close>

definition TELCMD_SE :: nat where "TELCMD_SE = 240"
definition TELCMD_AYT :: nat where "TELCMD_AYT = 246"
definition TELCMD_SB :: nat where "TELCMD_SB = 250"
definition TELCMD_WILL :: nat where "TELCMD_WILL = 251"
definition TELCMD_WONT :: nat where "TELCMD_WONT = 252"
definition TELCMD_DO :: nat where "TELCMD_DO = 253"
definition TELCMD_DONT :: nat where "TELCMD_DONT = 254"
definition TELCMD_IAC :: nat where "TELCMD_IAC = 255"
definition TELOPT_ECHO :: nat where "TELOPT_ECHO = 1"
definition TELOPT_SGA :: nat where "TELOPT_SGA = 3"
definition TELOPT_TERM :: nat where "TELOPT_TERM = 24"
definition TELOPT_NAWS :: nat where "TELOPT_NAWS = 31"
definition TELSUB_IS :: nat where "TELSUB_IS = 0"
definition TELSUB_SEND :: nat where "TELSUB_SEND = 1"
definition ASCII_BS :: nat where "ASCII_BS = 8"
definition ASCII_DEL :: nat where "ASCII_DEL = 127"

text \<open>\<open>TelnetFlag.lua\<close>: the bits the automatic mask of \<open>Lua/Enum.lua\<close> gives in order.\<close>

definition TelnetFlag_ECHO :: u32 where "TelnetFlag_ECHO = 1"
definition TelnetFlag_SGA :: u32 where "TelnetFlag_SGA = 2"
definition TelnetFlag_TERMTYPE :: u32 where "TelnetFlag_TERMTYPE = 4"
definition TelnetFlag_TERMSIZE :: u32 where "TelnetFlag_TERMSIZE = 8"
definition TelnetFlag_GOT_TELOPT_INFO :: u32 where "TelnetFlag_GOT_TELOPT_INFO = 16"
definition TelnetFlag_ANSI_TERM :: u32 where "TelnetFlag_ANSI_TERM = 32"

text \<open>
  \<open>Enum\<close> orders its values by their integers; a datatype of the model does the same, so
  that it can key a \<open>std::map\<close>.
\<close>

instantiation user_level :: linorder
begin

definition less_eq_user_level :: "user_level \<Rightarrow> user_level \<Rightarrow> bool" where
  "less_eq_user_level a b = (level_value a \<le> level_value b)"

definition less_user_level :: "user_level \<Rightarrow> user_level \<Rightarrow> bool" where
  "less_user_level a b = (level_value a < level_value b)"

instance
proof
  fix a b :: user_level
  show "a \<le> b \<Longrightarrow> b \<le> a \<Longrightarrow> a = b"
    by (cases a; cases b) (simp_all add: less_eq_user_level_def)
qed (auto simp: less_eq_user_level_def less_user_level_def)

end

instantiation user_stage :: linorder
begin

definition less_eq_user_stage :: "user_stage \<Rightarrow> user_stage \<Rightarrow> bool" where
  "less_eq_user_stage a b = (stage_value a \<le> stage_value b)"

definition less_user_stage :: "user_stage \<Rightarrow> user_stage \<Rightarrow> bool" where
  "less_user_stage a b = (stage_value a < stage_value b)"

instance
proof
  fix a b :: user_stage
  show "a \<le> b \<Longrightarrow> b \<le> a \<Longrightarrow> a = b"
    by (cases a; cases b) (simp_all add: less_eq_user_stage_def)
qed (auto simp: less_eq_user_stage_def less_user_stage_def)

end

section \<open>What initialize builds\<close>

definition row_names :: "(int \<times> string \<times> string) list \<Rightarrow> int \<Rightarrow> string list" where
  "row_names rows e = map (fst \<circ> snd) (filter (\<lambda>r. fst r = e) rows)"

definition enum_ok :: "enum_tables \<Rightarrow> bool" where
  "enum_ok t \<longleftrightarrow> map_ok (enum_to_string t) \<and> map_ok (enum_to_value t)
     \<and> map_ok (string_to_enum t) \<and> map_ok (lstring_to_enum t)"

lemma enum_ok_empty: "enum_ok (enum_empty n)"
  by (simp add: enum_ok_def enum_empty_def)

lemma enum_ok_add: "enum_ok t \<Longrightarrow> enum_ok (initAddValue lower e str v t)"
  by (simp add: enum_ok_def initAddValue_def Let_def map_ok_put map_ok_emplace)

lemma enum_ok_initialize: "enum_ok t \<Longrightarrow> enum_ok (enum_initialize lower rows t)"
  by (induction lower rows t rule: enum_initialize.induct) (auto simp: enum_ok_add)

lemma enum_name_initialize [simp]: "enum_name (enum_initialize lower rows t) = enum_name t"
  by (induction lower rows t rule: enum_initialize.induct) (auto simp: initAddValue_def Let_def)

definition names_of :: "enum_tables \<Rightarrow> int \<Rightarrow> string list" where
  "names_of t e = (case map_find (enum_to_string t) e of None \<Rightarrow> [] | Some ns \<Rightarrow> ns)"

lemma names_of_add:
  "enum_ok t \<Longrightarrow> names_of (initAddValue lower e str v t) d
     = (if d = e then names_of t e @ [str] else names_of t d)"
  by (simp add: enum_ok_def names_of_def initAddValue_def Let_def find_put split: option.split)

lemma names_of_initialize:
  "enum_ok t \<Longrightarrow> names_of (enum_initialize lower rows t) e = names_of t e @ row_names rows e"
  by (induction lower rows t rule: enum_initialize.induct)
    (auto simp: enum_ok_add names_of_add row_names_def)

text \<open>No entry of \<open>enum_to_string\<close> is an empty vector.\<close>

definition no_empty_names :: "enum_tables \<Rightarrow> bool" where
  "no_empty_names t \<longleftrightarrow> (\<forall>e. map_find (enum_to_string t) e \<noteq> Some [])"

lemma no_empty_add: "enum_ok t \<Longrightarrow> no_empty_names t \<Longrightarrow> no_empty_names (initAddValue lower e s v t)"
  by (simp add: no_empty_names_def enum_ok_def initAddValue_def Let_def find_put)

lemma no_empty_initialize:
  "enum_ok t \<Longrightarrow> no_empty_names t \<Longrightarrow> no_empty_names (enum_initialize lower rows t)"
  by (induction lower rows t rule: enum_initialize.induct) (auto simp: enum_ok_add no_empty_add)

lemma no_empty_empty: "no_empty_names (enum_empty n)"
  by (simp add: no_empty_names_def enum_empty_def)

section \<open>The bits of a BitEnum\<close>

text \<open>The simplifier's form of \<open>1 << j\<close> is \<open>2 ^ j\<close>.\<close>

lemma and_bit_mask: "(e :: u32) AND 2 ^ j = (if bit e j then 2 ^ j else 0)"
  by (rule bit_eqI) (auto simp: bit_simps)

lemma exp_nonzero: "j < 32 \<Longrightarrow> (2 :: u32) ^ j \<noteq> 0"
proof -
  assume "j < 32"
  then have "bit ((2 :: u32) ^ j) j" by (simp add: bit_simps)
  then show ?thesis by (metis bit_0_eq bot_apply bot_bool_def)
qed

lemma and_flag_eq: "j < 32 \<Longrightarrow> (e :: u32) AND 2 ^ j = 2 ^ j \<longleftrightarrow> bit e j"
  using exp_nonzero [of j] by (auto simp: and_bit_mask)

lemma sint_pos_iff: "0 < sint (w :: u32) \<longleftrightarrow> w \<noteq> 0 \<and> \<not> bit w 31"
proof -
  have "sint w = 0 \<longleftrightarrow> w = 0" by (metis signed_0 signed_word_eqI)
  then show ?thesis using bit_last_iff [of w] by (auto simp: order_less_le)
qed

lemma isSet_flag: "j < 32 \<Longrightarrow> bit_isSet e (2 ^ j) \<longleftrightarrow> bit e j \<and> j \<noteq> 31"
  using exp_nonzero [of j] unfolding bit_isSet_def sint_pos_iff and_bit_mask
  by (auto simp: bit_simps)

lemma index_loop_spec:
  assumes "j \<le> 30"
  shows "bit_index_loop e j
    = (case List.find (bit e) [j..<31] of None \<Rightarrow> 0 | Some i \<Rightarrow> i)"
  using assms
proof (induction e j rule: bit_index_loop.induct)
  case (1 e j)
  have *: "[j..<31] = j # [Suc j..<31]" using 1(2) by (simp add: upt_rec)
  show ?case
    using 1 unfolding * by (subst bit_index_loop.simps) (auto simp: and_flag_eq)
qed

text \<open>
  For the flags \<open>1<<j\<close> below the sign bit, \<open>set\<close>, \<open>unset\<close> and \<open>isSet\<close> of
  \<open>BitEnum\<close> are insertion, removal and membership: after an operation on one flag, that flag
  reads as set or unset, and every other flag reads as it did before.
\<close>

theorem bitenum_flag_laws:
  "j < 32 \<and> k < 31 \<Longrightarrow>
     bit_isSet (bit_set e (push_bit j 1)) (push_bit k 1) = (j = k \<or> bit_isSet e (push_bit k 1))
   \<and> bit_isSet (bit_unset e (push_bit j 1)) (push_bit k 1) = (j \<noteq> k \<and> bit_isSet e (push_bit k 1))"
  by (auto simp: isSet_flag bit_set_def bit_unset_def bit_simps)

theorem bitenum_flag_laws_witness:
  "bit_isSet (bit_set 5 (push_bit 3 1)) (push_bit 2 1) = (3 = (2 :: nat) \<or> bit_isSet 5 (push_bit 2 1))
   \<and> bit_isSet (bit_unset 5 (push_bit 3 1)) (push_bit 2 1)
     = (3 \<noteq> (2 :: nat) \<and> bit_isSet 5 (push_bit 2 1))"
  by (rule bitenum_flag_laws) simp

text \<open>
  \<open>BitEnum::index\<close> returns the position of the lowest set bit among the bits 0 to
  30, and 0 when none of these is set: its loop ends on every value, the sign bit included.
\<close>

theorem bit_index_lowest:
  "bit_index e = (case List.find (bit e) [0..<31] of None \<Rightarrow> 0 | Some i \<Rightarrow> i)"
  by (simp add: bit_index_def index_loop_spec)

section \<open>Look-ups in the tables of an enumeration\<close>

abbreviation enum_of_rows ::
    "(string \<Rightarrow> string) \<Rightarrow> string \<Rightarrow> (int \<times> string \<times> string) list \<Rightarrow> enum_tables" where
  "enum_of_rows lower n rows \<equiv> enum_initialize lower rows (enum_empty n)"

lemma name_of_rows: "enum_name (enum_of_rows lower n rows) = n"
  by simp (simp add: enum_empty_def)

lemma find_of_rows:
  "map_find (enum_to_string (enum_of_rows lower n rows)) e
     = (if row_names rows e = [] then None else Some (row_names rows e))"
proof -
  have "names_of (enum_of_rows lower n rows) e = row_names rows e"
    by (simp add: names_of_initialize enum_ok_empty) (simp add: names_of_def enum_empty_def)
  moreover have "no_empty_names (enum_of_rows lower n rows)"
    by (intro no_empty_initialize no_empty_empty enum_ok_empty)
  ultimately show ?thesis
    by (auto simp: names_of_def no_empty_names_def split: option.splits)
qed

lemma exists_of_rows: "enum_exists (enum_of_rows lower n rows) e \<longleftrightarrow> e \<in> fst ` set rows"
  by (auto simp: enum_exists_def find_of_rows row_names_def filter_empty_conv image_iff)

text \<open>
  For the tables an enumeration's generated \<open>initialize\<close> builds from its rows,
  \<open>toString\<close> returns the name of the first row with that value, and throws the
  \<open>logic_error\<close> naming the enumeration when there is no such row.
\<close>

theorem toString_first_name:
  "enum_toString (enum_of_rows lower n rows) e s
     = (case row_names rows e of
          [] \<Rightarrow> Exn (Logic_error (''Enum '' @ n @ '' value out of range ('' @ show_int e @ '')'')) s
        | str # _ \<Rightarrow> Ret str s)"
  unfolding enum_toString_def find_of_rows out_of_range_error_def name_of_rows
  by (simp split: list.split)

text \<open>
  \<open>fromInteger\<close> has its test the wrong way round: it throws on exactly the values
  the enumeration lists, and dereferences the end iterator (undefined behaviour) on all the
  others; it never returns.
\<close>

theorem fromInteger_never_returns:
  "enum_fromInteger (enum_of_rows lower n rows) v s
     = (if v \<in> fst ` set rows
        then Exn (Logic_error (''Enum '' @ n @ '' value is invalid ('' @ show_int v @ '')'')) s
        else Undefined)"
  using exists_of_rows [of lower rows n v]
  unfolding enum_fromInteger_def enum_exists_def out_of_range_error_def name_of_rows
  by (auto split: option.splits)

section \<open>Iteration\<close>

lemma key_index_nth:
  "key_index m k = Some i \<Longrightarrow> i < length m \<and> fst (m ! i) = k"
  by (induction m k arbitrary: i rule: key_index.induct) (auto split: if_splits)

lemma key_index_None: "key_index m k = None \<longleftrightarrow> k \<notin> fst ` set m"
  by (induction m k rule: key_index.induct) auto

lemma key_index_distinct:
  "distinct (map fst m) \<Longrightarrow> i < length m \<Longrightarrow> key_index m (fst (m ! i)) = Some i"
proof (induction m arbitrary: i)
  case (Cons p m)
  show ?case
  proof (cases i)
    case 0
    then show ?thesis by (cases p) simp
  next
    case (Suc j)
    with Cons have "fst p \<noteq> fst (m ! j)" by (metis distinct.simps(2) length_Cons length_map
          list.simps(9) not_less_eq nth_map nth_mem)
    with Cons Suc show ?thesis by (cases p) simp
  qed
qed simp

text \<open>The values a loop from \<open>begin()\<close> to \<open>end()\<close> sees.\<close>

definition enum_values :: "enum_tables \<Rightarrow> int list" where
  "enum_values t = map (the \<circ> enum_deref t) [enum_begin..<enum_end t]"

lemma enum_values_keys: "enum_values t = map fst (enum_to_string t)"
  by (rule nth_equalityI) (auto simp: enum_values_def enum_begin_def enum_end_def enum_deref_def)

text \<open>
  A loop over an enumeration visits every listed value once, in increasing
  order, and the iterator constructed from a value stands where the loop meets that value.
\<close>

theorem iteration_visits_values:
  "let t = enum_of_rows lower n rows in
     sorted_wrt (<) (enum_values t) \<and> set (enum_values t) = fst ` set rows
   \<and> list_all (\<lambda>i. enum_iter_at t (enum_values t ! i) s = Ret i s) [enum_begin..<enum_end t]"
proof -
  let ?t = "enum_of_rows lower n rows"
  have ok: "map_ok (enum_to_string ?t)"
    using enum_ok_initialize [OF enum_ok_empty] by (simp add: enum_ok_def)
  have "set (map fst (enum_to_string ?t)) = {e. enum_exists ?t e}"
    using ok by (force simp: enum_exists_def map_find_iff image_iff)
  moreover have "distinct (map fst (enum_to_string ?t))"
    using map_ok_distinct [OF ok] by (simp add: map_keys_def)
  ultimately show ?thesis
    using ok by (auto simp: Let_def enum_values_keys exists_of_rows map_ok_def map_keys_def list_all_iff
        enum_iter_at_def key_index_distinct enum_begin_def enum_end_def)
qed

end
