(* ===== verification/Splitline.thy ===== *)
theory Splitline
  imports Prelude
begin

text \<open>
  \<open>src/Strings/Splitline.cpp\<close>: the object that takes a command line and splits it into
  words, quoted or not. The state is the record \<open>splitline\<close>; \<open>getWord\<close> and
  \<open>addWord\<close> are the steps of \<open>parse\<close>, \<open>wordptr\<close> gives the rest of the line from a
  word on.
\<close>

section \<open>State and operations\<close>

record splitline =
  startQuote :: bool
  endQuote :: bool
  word :: "string list"
  line :: string
  wordPtr :: "nat list"

definition Splitline_new :: splitline where
  "Splitline_new = \<lparr>startQuote = False, endQuote = False, word = [], line = [], wordPtr = []\<rparr>"

text \<open>\<open>reset\<close> empties the words, and only the words.\<close>

definition reset :: "splitline \<Rightarrow> splitline" where
  "reset sl = sl\<lparr>word := []\<rparr>"

abbreviation blank :: "char \<Rightarrow> bool" where
  "blank c \<equiv> sc c < 33"

abbreviation QT :: char where "QT \<equiv> CHR 0x22"
abbreviation BSL :: char where "BSL \<equiv> CHR 0x5C"

text \<open>The first loop of \<open>getWord\<close>: skip what stands before the word.\<close>

function skip_blanks :: "string \<Rightarrow> nat \<Rightarrow> nat" where
  "skip_blanks l o1 = (if o1 < length l \<and> blank (l ! o1) then skip_blanks l (o1 + 1) else o1)"
  by pat_completeness auto
termination
  by (relation "measure (\<lambda>(l, o1). length l - o1)") auto

declare skip_blanks.simps [simp del]

text \<open>
  The second loop: \<open>scan\<close> looks for the end of the word. It gives the index behind the word
  and whether a closing quote ended it.
\<close>

function scan :: "bool \<Rightarrow> string \<Rightarrow> nat \<Rightarrow> nat \<Rightarrow> nat \<times> bool" where
  "scan quoted l prev o2 =
     (if o2 < length l then
        if quoted then
          if l ! o2 = QT \<and> l ! prev \<noteq> BSL then (o2 + 1, True)
          else scan quoted l o2 (o2 + 1)
        else
          if blank (l ! o2) then (o2, False)
          else scan quoted l o2 (o2 + 1)
      else (o2, False))"
  by pat_completeness auto
termination
  by (relation "measure (\<lambda>(quoted, l, prev, o2). length l - o2)") auto

declare scan.simps [simp del]

text \<open>
  \<open>getWord\<close>: the object with its quote flags, the start of the word (the parameter is a
  reference) and the index behind it, 0 when there is no word. \<open>None\<close>: a start past the end
  of the line, where \<open>line[o1]\<close> would be undefined.
\<close>

definition getWord :: "splitline \<Rightarrow> nat \<Rightarrow> (splitline \<times> nat \<times> nat) option" where
  "getWord sl o1_in =
     (let end = length (line sl); o1 = skip_blanks (line sl) o1_in in
      if o1 = end then Some (sl, o1, 0)
      else if end < o1 then None
      else
        let q = (line sl ! o1 = QT);
            start = o1 + (if q then 1 else 0);
            (o2, eq) = scan q (line sl) start start;
            sl' = sl\<lparr>startQuote := q, endQuote := eq\<rparr>
        in if o2 = o1 \<or> (q \<and> o2 = o1 + 1) then Some (sl', o1, 0) else Some (sl', o1, o2))"

text \<open>The loop of \<open>addWord\<close> that takes away a backslash before a quote.\<close>

function strip_escapes :: "string \<Rightarrow> nat \<Rightarrow> string" where
  "strip_escapes wrd pos =
     (case str_find wrd [BSL, QT] pos of
        None \<Rightarrow> wrd
      | Some found \<Rightarrow> strip_escapes (take found wrd @ drop (found + 1) wrd) (found + 1))"
  by pat_completeness auto
termination
proof (relation "measure (\<lambda>(wrd, pos). length wrd)")
  fix wrd pos found assume "str_find wrd [BSL, QT] pos = Some found"
  from str_find_Some(2) [OF this]
  show "((take found wrd @ drop (found + 1) wrd, found + 1), (wrd, pos))
      \<in> measure (\<lambda>(wrd, pos). length wrd)" by simp
qed simp

declare strip_escapes.simps [simp del]

text \<open>\<open>addWord\<close>; \<open>None\<close> where a \<open>substr\<close> throws.\<close>

definition addWord :: "splitline \<Rightarrow> nat \<Rightarrow> nat \<Rightarrow> splitline option" where
  "addWord sl o1 o2 =
     (let sl1 = sl\<lparr>wordPtr := wordPtr sl @ [o1]\<rparr> in
      if startQuote sl then
        map_option (\<lambda>wrd. sl1\<lparr>word := word sl @ [strip_escapes wrd 0]\<rparr>)
          (if endQuote sl then str_substr (line sl) (o1 + 1) (o2 - o1 - 2)
           else str_substr_from (line sl) 1)
      else
        map_option (\<lambda>wrd. sl1\<lparr>word := word sl @ [wrd]\<rparr>) (str_substr (line sl) o1 (o2 - o1)))"

text \<open>
  The endless loop of \<open>parse\<close>, with fuel: it stops when \<open>getWord\<close> finds no word. One round
  for each character of the line and one more are enough (\<open>parse_total\<close>).
\<close>

fun parse_loop :: "nat \<Rightarrow> nat \<Rightarrow> (std_exn, splitline, unit) prog" where
  "parse_loop 0 o1 sl = Hang"
| "parse_loop (Suc n) o1 sl =
     (case getWord sl o1 of
        None \<Rightarrow> Undefined
      | Some (sl', o1', o2) \<Rightarrow>
          if o2 = 0 then Ret () sl'
          else
            (case addWord sl' o1' o2 of
               None \<Rightarrow> Exn Out_of_range (sl'\<lparr>wordPtr := wordPtr sl' @ [o1']\<rparr>)
             | Some sl'' \<Rightarrow> parse_loop n o2 sl''))"

definition parse :: "string \<Rightarrow> (std_exn, splitline, unit) prog" where
  "parse inLine sl =
     (let sl1 = reset sl in
      if inLine = [] then Ret () sl1
      else parse_loop (Suc (length inLine)) 0 (sl1\<lparr>line := inLine\<rparr>))"

definition shift :: "splitline \<Rightarrow> splitline" where
  "shift sl =
     (case word sl of
        [] \<Rightarrow> sl
      | [_] \<Rightarrow> reset sl
      | _ # ws \<Rightarrow> sl\<lparr>word := ws\<rparr>)"

text \<open>\<open>wordptr\<close>: undefined past the end of \<open>wordPtr\<close>; throws when its entry is past the line.\<close>

definition wordptr :: "nat \<Rightarrow> (std_exn, splitline, string) prog" where
  "wordptr pos sl =
     (if pos < length (wordPtr sl) then
        (case str_substr_from (line sl) (wordPtr sl ! pos) of
           None \<Rightarrow> Exn Out_of_range sl
         | Some s \<Rightarrow> Ret s sl)
      else Undefined)"

section \<open>The scanning loops\<close>

lemma skip_blanks_bounds: "o1 \<le> length l \<Longrightarrow> o1 \<le> skip_blanks l o1 \<and> skip_blanks l o1 \<le> length l"
proof (induction l o1 rule: skip_blanks.induct)
  case (1 l o1)
  then show ?case by (subst (1 2) skip_blanks.simps) auto
qed

lemma skip_blanks_eq:
  "o1 \<le> length l \<Longrightarrow> skip_blanks l o1 = o1 + length (takeWhile blank (drop o1 l))"
proof (induction l o1 rule: skip_blanks.induct)
  case (1 l o1)
  show ?case
  proof (cases "o1 < length l")
    case True
    then have "drop o1 l = l ! o1 # drop (o1 + 1) l" by (simp add: Cons_nth_drop_Suc)
    with 1 True show ?thesis by (subst skip_blanks.simps) simp
  next
    case False
    with 1(2) show ?thesis by (subst skip_blanks.simps) simp
  qed
qed

lemma scan_bounds:
  "o2 \<le> length l \<Longrightarrow> o2 \<le> fst (scan q l prev o2) \<and> fst (scan q l prev o2) \<le> length l"
proof (induction q l prev o2 rule: scan.induct)
  case (1 q l prev o2)
  then show ?case by (subst (1 2) scan.simps) auto
qed

lemma scan_plain_eq:
  "o2 \<le> length l \<Longrightarrow>
   scan False l prev o2 = (o2 + length (takeWhile (\<lambda>c. \<not> blank c) (drop o2 l)), False)"
proof (induction "length l - o2" arbitrary: prev o2)
  case 0
  then show ?case by (subst scan.simps) simp
next
  case (Suc n)
  then have less: "o2 < length l" by simp
  then have "drop o2 l = l ! o2 # drop (o2 + 1) l" by (simp add: Cons_nth_drop_Suc)
  with Suc less show ?case by (subst scan.simps) simp
qed

lemma scan_closed: "scan q l prev o2 = (e, True) \<Longrightarrow> o2 < e"
proof (induction q l prev o2 rule: scan.induct)
  case (1 q l prev o2)
  from 1(3) show ?case
    by (subst (asm) scan.simps) (auto split: if_splits dest: 1(1,2))
qed

lemma scan_plain_progress:
  assumes "o2 < length l" and "\<not> blank (l ! o2)"
  shows "o2 < fst (scan False l prev o2)"
proof -
  have "drop o2 l = l ! o2 # drop (o2 + 1) l" using assms(1) by (simp add: Cons_nth_drop_Suc)
  with assms show ?thesis by (simp add: scan_plain_eq)
qed

text \<open>What \<open>getWord\<close> returns for a start inside the line.\<close>

lemma getWord_bounds:
  assumes "o1 \<le> length (line sl)"
  obtains sl' o1' o2 where "getWord sl o1 = Some (sl', o1', o2)"
    "o2 = 0 \<or> (o1 \<le> o1' \<and> o1' < o2 \<and> o2 \<le> length (line sl)
        \<and> (startQuote sl' \<longrightarrow> o1' + 1 < o2))"
    "line sl' = line sl" "word sl' = word sl" "wordPtr sl' = wordPtr sl"
proof -
  let ?l = "line sl" and ?p = "skip_blanks (line sl) o1"
  have p: "o1 \<le> ?p" "?p \<le> length ?l" using skip_blanks_bounds [OF assms] by auto
  show thesis
  proof (cases "?p = length ?l")
    case True
    then show thesis using that [of sl ?p 0] by (simp add: getWord_def Let_def)
  next
    case False
    let ?q = "?l ! ?p = QT"
    let ?s = "?p + (if ?q then 1 else 0)"
    obtain o2 e where sc: "scan ?q ?l ?s ?s = (o2, e)" by (cases "scan ?q ?l ?s ?s")
    have "?s \<le> length ?l" using False p by auto
    then have b: "?s \<le> o2" "o2 \<le> length ?l" using scan_bounds [of ?s ?l ?q ?s] sc by simp_all
    let ?sl = "sl\<lparr>startQuote := ?q, endQuote := e\<rparr>"
    have "getWord sl o1 =
        Some (?sl, ?p, if o2 = ?p \<or> (?q \<and> o2 = ?p + 1) then 0 else o2)"
      using False p sc by (simp add: getWord_def Let_def)
    with that [of ?sl ?p "if o2 = ?p \<or> (?q \<and> o2 = ?p + 1) then 0 else o2"] p b
    show thesis by (auto split: if_splits)
  qed
qed

lemma addWord_total:
  assumes "o1 < o2" "o2 \<le> length (line sl)" "startQuote sl \<longrightarrow> o1 + 1 < o2"
  shows "\<exists>w. addWord sl o1 o2 = Some (sl\<lparr>wordPtr := wordPtr sl @ [o1], word := word sl @ [w]\<rparr>)"
  using assms by (auto simp: addWord_def Let_def str_substr_def str_substr_from_def)

text \<open>The loop returns: each round starts behind the word of the one before.\<close>

lemma parse_loop_total:
  assumes "o1 \<le> length (line sl)" and "length (line sl) - o1 < n"
  shows "\<exists>sl' ws ps. parse_loop n o1 sl = Ret () sl' \<and> line sl' = line sl
     \<and> word sl' = word sl @ ws \<and> wordPtr sl' = wordPtr sl @ ps \<and> length ws = length ps
     \<and> (\<forall>p \<in> set ps. p < length (line sl))"
  using assms
proof (induction n arbitrary: o1 sl)
  case (Suc n)
  obtain sl1 p o2 where g: "getWord sl o1 = Some (sl1, p, o2)"
      "o2 = 0 \<or> (o1 \<le> p \<and> p < o2 \<and> o2 \<le> length (line sl) \<and> (startQuote sl1 \<longrightarrow> p + 1 < o2))"
      "line sl1 = line sl" "word sl1 = word sl" "wordPtr sl1 = wordPtr sl"
    using getWord_bounds [OF Suc.prems(1)] by metis
  show ?case
  proof (cases "o2 = 0")
    case True
    with g show ?thesis by (intro exI [of _ sl1] exI [of _ "[]"]) simp
  next
    case False
    with g have b: "o1 \<le> p" "p < o2" "o2 \<le> length (line sl)" by auto
    from False g obtain w where
      a: "addWord sl1 p o2 = Some (sl1\<lparr>wordPtr := wordPtr sl1 @ [p], word := word sl1 @ [w]\<rparr>)"
      (is "_ = Some ?sl2") using addWord_total [of p o2 sl1] by auto
    have "length (line ?sl2) - o2 < n" using b g(3) Suc.prems(2) by simp
    then obtain sl' ws ps where "parse_loop n o2 ?sl2 = Ret () sl'" "line sl' = line ?sl2"
        "word sl' = word ?sl2 @ ws" "wordPtr sl' = wordPtr ?sl2 @ ps" "length ws = length ps"
        "\<forall>p \<in> set ps. p < length (line ?sl2)"
      using Suc.IH [of o2 ?sl2] b g(3) by auto
    with g a False b show ?thesis
      by (intro exI [of _ sl'] exI [of _ "w # ws"] exI [of _ "p # ps"]) auto
  qed
qed simp

section \<open>Escaped quotes\<close>

text \<open>The loop over \<open>find\<close> and \<open>erase\<close> drops each backslash that stands before a quote.\<close>

fun unescape :: "string \<Rightarrow> string" where
  "unescape [] = []"
| "unescape [c] = [c]"
| "unescape (c # d # s) =
     (if c = BSL \<and> d = QT then QT # unescape s else c # unescape (d # s))"

lemma unescape_none:
  "(\<And>j. j + 2 \<le> length s \<Longrightarrow> take 2 (drop j s) \<noteq> [BSL, QT]) \<Longrightarrow> unescape s = s"
proof (induction s rule: unescape.induct)
  case (3 c d s)
  have "\<not> (c = BSL \<and> d = QT)" using 3(3) [of 0] by auto
  moreover have "unescape (d # s) = d # s" if "\<not> (c = BSL \<and> d = QT)"
    using that 3(3) [of "Suc j" for j] by (intro 3(2)) auto
  ultimately show ?case by simp
qed auto

lemma unescape_first:
  "(\<And>j. j < length a \<Longrightarrow> take 2 (drop j (a @ BSL # QT # b)) \<noteq> [BSL, QT]) \<Longrightarrow>
   unescape (a @ BSL # QT # b) = a @ QT # unescape b"
proof (induction a)
  case (Cons c a)
  obtain d r where d: "a @ BSL # QT # b = d # r" by (cases a) auto
  have "\<not> (c = BSL \<and> d = QT)" using Cons(2) [of 0] d by auto
  moreover have "unescape (a @ BSL # QT # b) = a @ QT # unescape b"
    using Cons(2) [of "Suc j" for j] by (intro Cons(1)) auto
  ultimately show ?case using d by auto
qed simp

lemma strip_escapes_append: "strip_escapes (pre @ s) (length pre) = pre @ unescape s"
proof (induction "length s" arbitrary: pre s rule: less_induct)
  case less
  let ?w = "pre @ s"
  show ?case
  proof (cases "str_find ?w [BSL, QT] (length pre)")
    case None
    have "take 2 (drop j s) \<noteq> [BSL, QT]" if "j + 2 \<le> length s" for j
      using str_find_None [OF None, of "length pre + j"] that by (simp add: numeral_2_eq_2)
    then have "unescape s = s" by (rule unescape_none)
    with None show ?thesis by (subst strip_escapes.simps) simp
  next
    case (Some found)
    note f = str_find_Some [OF Some]
    define a where "a = take (found - length pre) s"
    define b where "b = drop (found - length pre + 2) s"
    have fl: "length pre \<le> found" "found + 2 \<le> length pre + length s" using f(1,2) by simp_all
    have la: "length a = found - length pre" using fl by (simp add: a_def)
    have at: "take 2 (drop (found - length pre) s) = [BSL, QT]" using f(3) fl by (simp add: numeral_2_eq_2)
    have "drop (found - length pre) s = [BSL, QT] @ b"
      using append_take_drop_id [of 2 "drop (found - length pre) s"] at
      by (simp add: b_def add.commute)
    then have s: "s = a @ BSL # QT # b"
      using append_take_drop_id [of "found - length pre" s] by (simp add: a_def)
    have "take 2 (drop j s) \<noteq> [BSL, QT]" if "j < length a" for j
      using f(4) [of "length pre + j"] that la fl(1) by (simp add: numeral_2_eq_2)
    then have u: "unescape s = a @ QT # unescape b" using s unescape_first by metis
    have cut: "take found ?w @ drop (found + 1) ?w = (pre @ a @ [QT]) @ b"
      using fl la s by simp
    have "strip_escapes ((pre @ a @ [QT]) @ b) (length (pre @ a @ [QT]))
        = (pre @ a @ [QT]) @ unescape b"
      by (rule less) (simp add: s)
    moreover have "length (pre @ a @ [QT]) = found + 1" using la fl(1) by simp
    ultimately show ?thesis using Some cut u by (subst strip_escapes.simps) simp
  qed
qed

theorem strip_escapes_unescape: "strip_escapes w 0 = unescape w"
  using strip_escapes_append [of "[]" w] by simp

text \<open>How a client quotes a word, and that \<open>unescape\<close> takes it back.\<close>

fun escape :: "string \<Rightarrow> string" where
  "escape [] = []"
| "escape (c # s) = (if c = QT then [BSL, QT] else [c]) @ escape s"

lemma escape_Nil_iff [simp]: "escape s = [] \<longleftrightarrow> s = []"
  by (cases s) auto

lemma unescape_Cons: "c \<noteq> BSL \<or> (\<forall>r. s \<noteq> QT # r) \<Longrightarrow> unescape (c # s) = c # unescape s"
  by (cases s) auto

lemma unescape_escape: "unescape (escape s) = s"
proof (induction s)
  case (Cons c s)
  have "\<forall>r. escape s \<noteq> QT # r" by (cases s) (auto split: if_splits)
  then show ?case using Cons by (auto simp: unescape_Cons)
qed simp

lemma escape_no_final_BSL: "s \<noteq> [] \<Longrightarrow> last s \<noteq> BSL \<Longrightarrow> last (escape s) \<noteq> BSL"
proof (induction s)
  case (Cons c s)
  have "escape s \<noteq> []" if "s \<noteq> []" using that by (cases s) auto
  with Cons show ?case by (cases "s = []") auto
qed simp

lemma scan_quoted_escape:
  assumes "prev = length pre \<or> (pre \<noteq> [] \<and> prev = length pre - 1)"
    and "w = [] \<Longrightarrow> pre \<noteq> [] \<Longrightarrow> prev = length pre - 1 \<Longrightarrow> last pre \<noteq> BSL"
    and "w \<noteq> [] \<Longrightarrow> last w \<noteq> BSL"
  shows "scan True (pre @ escape w @ QT # rest) prev (length pre)
    = (length pre + length (escape w) + 1, True)"
  using assms
proof (induction w arbitrary: pre prev)
  case Nil
  have "(pre @ QT # rest) ! prev \<noteq> BSL"
  proof (cases "prev = length pre")
    case False
    with Nil have "pre \<noteq> []" "prev = length pre - 1" by auto
    with Nil(2) show ?thesis by (simp add: nth_append last_conv_nth)
  qed (simp add: nth_append)
  then show ?case by (subst scan.simps) (simp add: nth_append)
next
  case (Cons c w)
  let ?l = "pre @ escape (c # w) @ QT # rest"
  have next_ok: "scan True (p @ escape w @ QT # rest) (length p - 1) (length p)
      = (length p + length (escape w) + 1, True)"
    if "p \<noteq> []" "w = [] \<Longrightarrow> last p \<noteq> BSL" for p
    using that Cons.prems(3) by (intro Cons.IH) auto
  show ?case
  proof (cases "c = QT")
    case False
    have "scan True ?l prev (length pre) = scan True ?l (length pre) (Suc (length pre))"
      using False by (subst scan.simps) (simp add: nth_append)
    also have "\<dots> = (length pre + length (escape (c # w)) + 1, True)"
      using next_ok [of "pre @ [c]"] Cons.prems(3) False by (cases "w = []") simp_all
    finally show ?thesis .
  next
    case True
    have "scan True ?l prev (length pre) = scan True ?l (length pre) (Suc (length pre))"
      using True by (subst scan.simps) (simp add: nth_append)
    also have "\<dots> = scan True ?l (Suc (length pre)) (Suc (Suc (length pre)))"
      using True by (subst scan.simps) (simp add: nth_append)
    also have "\<dots> = (length pre + length (escape (c # w)) + 1, True)"
      using next_ok [of "pre @ [BSL, QT]"] True by simp
    finally show ?thesis .
  qed
qed

section \<open>Parsing a whole line\<close>

text \<open>The words of a line with no quotes: its maximal runs of characters that are not blank.\<close>

function split_blanks :: "string \<Rightarrow> string list" where
  "split_blanks s =
     (case dropWhile blank s of
        [] \<Rightarrow> []
      | t \<Rightarrow> takeWhile (\<lambda>c. \<not> blank c) t # split_blanks (dropWhile (\<lambda>c. \<not> blank c) t))"
  by pat_completeness auto
termination
proof (relation "measure length")
  fix s c t assume d: "dropWhile blank s = c # t"
  then have "\<not> blank c" by (metis dropWhile_eq_Cons_conv)
  moreover have "length (c # t) \<le> length s" using d by (metis length_dropWhile_le)
  ultimately have "length (dropWhile (\<lambda>c. \<not> blank c) (c # t)) < length s"
    using length_dropWhile_le [of "\<lambda>c. \<not> blank c" t] by simp
  then show "(dropWhile (\<lambda>c. \<not> blank c) (c # t), s) \<in> measure length" by simp
qed simp

declare split_blanks.simps [simp del]

lemma split_blanks_Nil: "dropWhile blank s = [] \<Longrightarrow> split_blanks s = []"
  by (subst split_blanks.simps) (simp only: list.case)

lemma split_blanks_Cons:
  "dropWhile blank s = c # t \<Longrightarrow> split_blanks s =
     takeWhile (\<lambda>c. \<not> blank c) (c # t) # split_blanks (dropWhile (\<lambda>c. \<not> blank c) (c # t))"
  by (subst split_blanks.simps) (simp only: list.case)

lemma split_blanks_words: "w \<in> set (split_blanks s) \<Longrightarrow> w \<noteq> [] \<and> (\<forall>c \<in> set w. \<not> blank c)"
proof (induction s rule: split_blanks.induct)
  case (1 s)
  show ?case
  proof (cases "dropWhile blank s")
    case Nil
    with 1(2) show ?thesis by (simp add: split_blanks_Nil)
  next
    case (Cons c t)
    then have "\<not> blank c" by (metis dropWhile_eq_Cons_conv)
    moreover from 1(2) Cons have "w = takeWhile (\<lambda>c. \<not> blank c) (c # t)
        \<or> w \<in> set (split_blanks (dropWhile (\<lambda>c. \<not> blank c) (c # t)))"
      unfolding split_blanks_Cons [OF Cons] by (simp only: list.set insert_iff)
    moreover have "takeWhile (\<lambda>c. \<not> blank c) (c # t) \<noteq> []" using \<open>\<not> blank c\<close> by simp
    ultimately show ?thesis using 1(1) [OF Cons] set_takeWhileD [of _ "\<lambda>c. \<not> blank c" "c # t"] by metis
  qed
qed

lemma parse_loop_plain:
  assumes "QT \<notin> set (line sl)" and "o1 \<le> length (line sl)" and "length (line sl) - o1 < n"
  shows "\<exists>sl'. parse_loop n o1 sl = Ret () sl' \<and> line sl' = line sl
     \<and> word sl' = word sl @ split_blanks (drop o1 (line sl))"
  using assms
proof (induction n arbitrary: o1 sl)
  case (Suc n)
  let ?l = "line sl" and ?p = "skip_blanks (line sl) o1"
  let ?r = "dropWhile blank (drop o1 ?l)"
  have p: "o1 \<le> ?p" "?p \<le> length ?l" using skip_blanks_bounds [OF Suc.prems(2)] by auto
  have r: "drop ?p ?l = ?r"
    using skip_blanks_eq [OF Suc.prems(2)]
    by (metis add.commute drop_drop dropWhile_eq_drop)
  show ?case
  proof (cases "?p = length ?l")
    case True
    then have "?r = []" using r by simp
    then have "split_blanks (drop o1 ?l) = []" by (rule split_blanks_Nil)
    with True show ?thesis by (simp add: getWord_def Let_def)
  next
    case False
    then have pl: "?p < length ?l" using p by simp
    then have c: "?r = ?l ! ?p # drop (?p + 1) ?l" using r by (simp add: Cons_nth_drop_Suc)
    then have nb: "\<not> blank (?l ! ?p)" by (metis dropWhile_eq_Cons_conv)
    have nq: "?l ! ?p \<noteq> QT" using Suc.prems(1) pl nth_mem by metis
    define w where "w = takeWhile (\<lambda>c. \<not> blank c) ?r"
    have wl: "0 < length w" using c nb by (simp add: w_def)
    have ol: "?p + length w \<le> length ?l"
      using r pl by (metis add_le_cancel_left drop_eq_Nil le_add_diff_inverse length_drop
          length_takeWhile_le p(2) w_def)
    let ?sl1 = "sl\<lparr>startQuote := False, endQuote := False\<rparr>"
    let ?sl2 = "?sl1\<lparr>wordPtr := wordPtr sl @ [?p], word := word sl @ [w]\<rparr>"
    have "scan False ?l ?p ?p = (?p + length w, False)"
      using scan_plain_eq [OF p(2)] r by (simp add: w_def)
    then have g: "getWord sl o1 = Some (?sl1, ?p, ?p + length w)"
      using False p nq wl by (simp add: getWord_def Let_def)
    have "take (length w) (drop ?p ?l) = w" using r by (simp add: w_def takeWhile_eq_take [symmetric])
    then have a: "addWord ?sl1 ?p (?p + length w) = Some ?sl2"
      using p by (simp add: addWord_def Let_def str_substr_def)
    have "drop (?p + length w) ?l = drop (length w) ?r" using r by (simp add: add.commute flip: drop_drop)
    also have "\<dots> = dropWhile (\<lambda>c. \<not> blank c) ?r" by (simp add: w_def dropWhile_eq_drop)
    finally have rest: "drop (?p + length w) ?l = dropWhile (\<lambda>c. \<not> blank c) ?r" .
    have "length ?l - (?p + length w) < n" using wl ol p(1) Suc.prems(3) by linarith
    then have "length (line ?sl2) - (?p + length w) < n" by simp
    then obtain sl' where "parse_loop n (?p + length w) ?sl2 = Ret () sl'" "line sl' = ?l"
        "word sl' = word ?sl2 @ split_blanks (drop (?p + length w) ?l)"
      using Suc.IH [of ?sl2 "?p + length w"] Suc.prems(1) ol by auto
    moreover have "split_blanks (drop o1 ?l) = w # split_blanks (dropWhile (\<lambda>c. \<not> blank c) ?r)"
      using split_blanks_Cons [OF c] c by (simp add: w_def)
    ultimately show ?thesis using g a wl rest by simp
  qed
qed simp

section \<open>Properties\<close>

lemma parse_nonempty:
  "l \<noteq> [] \<Longrightarrow> parse l sl = parse_loop (Suc (length l)) 0 (sl\<lparr>word := [], line := l\<rparr>)"
  by (simp add: parse_def reset_def Let_def)

lemma parse_returns: "\<exists>sl'. parse l sl = Ret () sl'"
proof (cases "l = []")
  case True
  then show ?thesis by (simp add: parse_def)
next
  case False
  then show ?thesis
    using parse_loop_total [of 0 "sl\<lparr>word := [], line := l\<rparr>" "Suc (length l)"] by (auto simp: parse_nonempty)
qed

lemma parse_records:
  "\<exists>sl' ps. parse l sl = Ret () sl' \<and> wordPtr sl' = wordPtr sl @ ps
     \<and> length (word sl') = length ps \<and> list_all (\<lambda>p. p < length l) ps"
proof (cases "l = []")
  case True
  then show ?thesis by (simp add: parse_def reset_def)
next
  case False
  then show ?thesis
    using parse_loop_total [of 0 "sl\<lparr>word := [], line := l\<rparr>" "Suc (length l)"]
    by (auto simp: parse_nonempty list_all_iff)
qed

text \<open>
  Claim C1: \<open>parse\<close> always returns: its endless loop stops, no read of \<open>getWord\<close> is out of
  the line and no \<open>substr\<close> of \<open>addWord\<close> throws, whatever the line and whatever the object
  held before. It records one start offset per word, each inside the line.
\<close>

theorem parse_total:
  "\<exists>sl' ps. parse l sl = Ret () sl' \<and> wordPtr sl' = wordPtr sl @ ps
     \<and> length (word sl') = length ps \<and> list_all (\<lambda>p. p < length l) ps"
  by (rule parse_records)

text \<open>
  Claim C3: a line with no quotes is split into its maximal runs of characters that are not
  blank, in order, each of them nonempty.
\<close>

theorem parse_plain_words:
  assumes "QT \<notin> set l"
  shows "\<exists>sl'. parse l sl = Ret () sl' \<and> word sl' = split_blanks l
     \<and> list_all (\<lambda>w. w \<noteq> [] \<and> list_all (\<lambda>c. \<not> blank c) w) (split_blanks l)"
proof (cases "l = []")
  case True
  moreover have "split_blanks [] = []" by (rule split_blanks_Nil) simp
  ultimately show ?thesis by (simp add: parse_def reset_def)
next
  case False
  then show ?thesis
    using parse_loop_plain [of "sl\<lparr>word := [], line := l\<rparr>" 0 "Suc (length l)"] assms split_blanks_words
    by (auto simp: parse_nonempty list_all_iff)
qed

theorem parse_plain_words_witness:
  "\<exists>sl'. parse ''say  hi'' Splitline_new = Ret () sl' \<and> word sl' = split_blanks ''say  hi''"
  using parse_plain_words [of "''say  hi''" Splitline_new] by auto

lemma getWord_quoted:
  assumes "w \<noteq> [] \<Longrightarrow> last w \<noteq> BSL"
  shows "getWord (sl\<lparr>line := QT # escape w @ [QT]\<rparr>) 0
    = Some (sl\<lparr>line := QT # escape w @ [QT], startQuote := True, endQuote := True\<rparr>, 0, length (escape w) + 2)"
proof -
  have "\<not> blank QT" by (simp add: sc_def uc_def)
  then have p: "skip_blanks (QT # escape w @ [QT]) 0 = 0" by (subst skip_blanks.simps) simp
  have "scan True ([QT] @ escape w @ QT # []) 1 (length [QT]) = (length [QT] + length (escape w) + 1, True)"
    by (rule scan_quoted_escape) (use assms in auto)
  then show ?thesis using p by (simp add: getWord_def Let_def)
qed

text \<open>
  Claim C2: quoting round trip. A word that does not end in a backslash, written between
  quotes with a backslash before each quote of its own, comes back from \<open>parse\<close> as the one
  word of the line, whatever blanks and quotes it holds.
\<close>

theorem parse_quoted_roundtrip:
  assumes "w = [] \<or> last w \<noteq> BSL"
  shows "\<exists>sl'. parse (QT # escape w @ [QT]) sl = Ret () sl' \<and> word sl' = [w]"
proof -
  let ?l = "QT # escape w @ [QT]"
  let ?sl0 = "sl\<lparr>word := [], line := ?l\<rparr>"
  let ?sl1 = "?sl0\<lparr>startQuote := True, endQuote := True\<rparr>"
  let ?sl2 = "?sl1\<lparr>wordPtr := wordPtr sl @ [0], word := [w]\<rparr>"
  have g: "getWord ?sl0 0 = Some (?sl1, 0, length (escape w) + 2)"
    using getWord_quoted [of w "sl\<lparr>word := []\<rparr>"] assms by auto
  have a: "addWord ?sl1 0 (length (escape w) + 2) = Some ?sl2"
    by (simp add: addWord_def Let_def str_substr_def strip_escapes_unescape unescape_escape)
  have "skip_blanks ?l (length (escape w) + 2) = length (escape w) + 2"
    by (subst skip_blanks.simps) simp
  then have "getWord ?sl2 (length (escape w) + 2) = Some (?sl2, length (escape w) + 2, 0)"
    by (simp add: getWord_def Let_def)
  then have "parse_loop (Suc (length ?l)) 0 ?sl0 = Ret () ?sl2" using g a by simp
  then show ?thesis using parse_nonempty [of ?l sl] by (intro exI [of _ ?sl2]) simp
qed

theorem parse_quoted_roundtrip_witness:
  "\<exists>sl'. parse (QT # escape [CHR ''a'', CHR '' '', QT, CHR ''b''] @ [QT]) Splitline_new = Ret () sl'
     \<and> word sl' = [[CHR ''a'', CHR '' '', QT, CHR ''b'']]"
  by (rule parse_quoted_roundtrip) simp

text \<open>
  \<open>reset\<close> empties the words but not their offsets, so \<open>wordptr\<close> of a second line
  reads offsets of the first one. After a first line of two words that is longer than the
  second line, \<open>wordptr(1)\<close> of the second line throws \<open>out_of_range\<close> although the line has
  a second word.
\<close>

theorem wordptr_stale_offset:
  "case parse ''aaaaaaaaaa bb'' Splitline_new of
     Ret _ sl1 \<Rightarrow>
       (case parse ''say hi'' sl1 of
          Ret _ sl2 \<Rightarrow> word sl2 = [''say'', ''hi''] \<and> wordptr 1 sl2 = Exn Out_of_range sl2
        | _ \<Rightarrow> False)
   | _ \<Rightarrow> False"
  by code_simp

text \<open>
  An opening quote that is never closed takes the whole line from its second
  character on as the word, where it should take the rest behind the quote: the line
  \<open>say "hi\<close> has the words \<open>say\<close> and \<open>ay "hi\<close>.
\<close>

theorem unclosed_quote_takes_line:
  "case parse [CHR ''s'', CHR ''a'', CHR ''y'', CHR '' '', QT, CHR ''h'', CHR ''i''] Splitline_new of
     Ret _ sl \<Rightarrow> word sl = [''say'', [CHR ''a'', CHR ''y'', CHR '' '', QT, CHR ''h'', CHR ''i'']]
   | _ \<Rightarrow> False"
  by code_simp

end
