(* ===== verification/UserState.thy ===== *)
theory UserState
  imports Enums Splitline
begin

text \<open>
  The \<open>User\<close> object (\<open>src/Common/User.h\<close>) and its output side (\<open>uWrite\<close>, \<open>uPrintf\<close>,
  \<open>prompt\<close> of \<open>src/Common/User.cpp\<close>). \<open>client\<close> is a handle of the \<open>Protocol\<close> object; the calls
  the user makes on its client are recorded in order in \<open>calls\<close>, a field the program does not
  have. The options, the build information and the functions of Boost the code calls are the
  record \<open>server\<close>.
\<close>

section \<open>The object\<close>

datatype pcall = Write string | Logout bool | Disconnect | SetUser "nat option" | SendEchoOn

record user =
  auto_id :: nat
  u_id :: u32
  m_refCount :: u32
  com :: splitline
  client :: "nat option"
  stage :: user_stage
  u_name :: string
  password :: "string option"
  flagsTelnet :: u32
  level :: user_level
  attempts :: u8
  bpos :: u32
  buffnum :: nat
  buff :: string
  textBuffer :: "string list"
  tbpos :: int
  inlinePrompt :: string
  termCols :: u16
  termRows :: u16
  termType :: string
  guid :: u32
  calls :: "(nat \<times> pcall) list"

definition User_new :: "nat \<Rightarrow> nat option \<Rightarrow> user" where
  "User_new aid p =
     \<lparr>auto_id = aid, u_id = 0, m_refCount = 0, com = Splitline_new, client = p,
      stage = UserStage_NEW, u_name = [], password = None, flagsTelnet = 0,
      level = UserLevel_LOGIN, attempts = 0, bpos = 0, buffnum = 0, buff = [],
      textBuffer = [[], []], tbpos = 0, inlinePrompt = [], termCols = 80, termRows = 25,
      termType = [], guid = 0, calls = []\<rparr>"

text \<open>
  What the code takes from outside: Boost's case-insensitive comparison, lower-casing and
  splitting, the two options it reads, the version string, the text of a client's address,
  and \<open>end_value\<close>, what reading an end iterator of the \<open>LoginCom\<close> enumeration gives on the
  platform (\<open>None\<close>: nothing defined).
\<close>

record server =
  iequals :: "string \<Rightarrow> string \<Rightarrow> bool"
  to_lower_copy :: "string \<Rightarrow> string"
  split_any :: "string \<Rightarrow> string \<Rightarrow> string list"
  opt_serverName :: string
  opt_ansiTerms :: string
  project_version :: string
  address_of :: "nat option \<Rightarrow> string"
  end_value :: "int option"

text \<open>A user function throws a standard exception or an \<open>enums::UserStage\<close>.\<close>

datatype uexn = Std std_exn | Thrown user_stage

type_synonym 'a uprog = "(uexn, user, 'a) prog"

section \<open>Output\<close>

definition on_client :: "pcall \<Rightarrow> unit uprog" where
  "on_client c = modify (\<lambda>u. case client u of None \<Rightarrow> u | Some p \<Rightarrow> u\<lparr>calls := calls u @ [(p, c)]\<rparr>)"

definition uWrite :: "string \<Rightarrow> unit uprog" where
  "uWrite message = whenb (message \<noteq> []) (on_client (Write message))"

text \<open>
  The conversions of \<open>snprintf\<close> the code uses, as the pieces of a formatted string: text of the
  format, \<open>%s\<close>, \<open>%d\<close>, \<open>%c\<close> and \<open>%-*s\<close>. The format and the string arguments are C strings.
\<close>

datatype piece = Lit string | S string | D int | C char | Pad nat string

fun piece_text :: "piece \<Rightarrow> string" where
  "piece_text (Lit s) = c_str s"
| "piece_text (S s) = c_str s"
| "piece_text (D i) = show_int i"
| "piece_text (C c) = [c]"
| "piece_text (Pad w s) = (let t = c_str s in t @ replicate (w - length t) (CHR '' ''))"

definition stringFormat :: "piece list \<Rightarrow> string" where
  "stringFormat ps = concat (map piece_text ps)"

text \<open>
  The loop of \<open>uPrintf\<close> over the formatted string, which ends at a NUL: \<open>str2\<close> as it is built
  from here on. A slash is held back in \<open>pcesc\<close> until the next character comes.
\<close>

definition NL :: char where "NL = CHR 0x0A"
definition CR :: char where "CR = CHR 0x0D"
definition SL :: char where "SL = CHR ''/''"

fun printf_loop :: "string \<Rightarrow> bool \<Rightarrow> string" where
  "printf_loop [] pcesc = []"
| "printf_loop (c # s) pcesc =
     (if c = NUL then []
      else if c = NL then (if pcesc then [SL] else []) @ CR # c # printf_loop s False
      else if c = SL then (if pcesc then [SL] else []) @ printf_loop s True
      else (if pcesc then [SL] else []) @ c # printf_loop s False)"

definition uPrintf :: "piece list \<Rightarrow> unit uprog" where
  "uPrintf ps = uWrite (printf_loop (stringFormat ps) False)"

definition prompt :: "server \<Rightarrow> unit uprog" where
  "prompt E = bind (gets id) (\<lambda>u.
     case stage u of
       UserStage_LOGIN_ID \<Rightarrow> uPrintf [Lit ''Login: '']
     | UserStage_LOGIN_NAME \<Rightarrow> uPrintf [Lit ''Login: '']
     | UserStage_LOGIN_PWD \<Rightarrow> uPrintf [Lit ''Enter password: '']
     | UserStage_LOGIN_NEW_PWD \<Rightarrow> uPrintf [Lit ''Enter a password: '']
     | UserStage_LOGIN_REENTER_PWD \<Rightarrow> uPrintf [Lit ''Re-enter password: '']
     | UserStage_CMD_LINE \<Rightarrow>
         uPrintf [S (u_name u), Lit ''@'', S (opt_serverName E), Lit (''>'' @ [NL])]
     | UserStage_OLD_PWD \<Rightarrow> uPrintf [Lit ''Enter old password: '']
     | UserStage_NEW_PWD \<Rightarrow> uPrintf [Lit ''Enter new password: '']
     | UserStage_REENTER_PWD \<Rightarrow> uPrintf [Lit ''Re-enter new password: '']
     | UserStage_SUICIDE \<Rightarrow> uPrintf [Lit ''Enter password: '']
     | _ \<Rightarrow> skip)"

section \<open>What uPrintf writes\<close>

text \<open>Each newline becomes a carriage return and a newline.\<close>

fun crlf :: "string \<Rightarrow> string" where
  "crlf [] = []"
| "crlf (c # s) = (if c = NL then CR # c # crlf s else c # crlf s)"

definition drop_slash :: "string \<Rightarrow> string" where
  "drop_slash s = (if s \<noteq> [] \<and> last s = SL then butlast s else s)"

lemma special_chars [simp]:
  "NL \<noteq> SL" "SL \<noteq> NL" "NL \<noteq> NUL" "NUL \<noteq> NL" "SL \<noteq> NUL" "NUL \<noteq> SL" "CR \<noteq> NUL" "CR \<noteq> NL"
  "CR \<noteq> SL" "NUL \<noteq> CR" "NL \<noteq> CR" "SL \<noteq> CR"
  by (simp_all add: NL_def SL_def NUL_def CR_def)

lemma c_str_simps [simp]: "c_str [] = []" "c_str (c # s) = (if c = NUL then [] else c # c_str s)"
  by (simp_all add: c_str_def)

lemma drop_slash_simps:
  "drop_slash [] = []" "drop_slash (c # s) = (if s = [] then (if c = SL then [] else [c]) else c # drop_slash s)"
  by (auto simp: drop_slash_def)

lemma printf_loop_spec:
  "printf_loop s p = crlf (drop_slash ((if p then [SL] else []) @ c_str s))"
proof (induction s p rule: printf_loop.induct)
  case (1 pcesc)
  then show ?case by (simp add: drop_slash_simps)
next
  case (2 c s pcesc)
  show ?case
    by (cases "c = NUL"; cases "c = NL"; cases "c = SL"; cases pcesc)
      (use 2 in \<open>auto simp: drop_slash_simps split: if_splits\<close>)
qed

text \<open>
  \<open>uPrintf\<close> writes the formatted text up to its first NUL with each newline turned
  into carriage return and newline, in one write, and writes nothing when that is empty. A
  slash at the very end of the text is lost: the loop holds it back for a next character that
  does not come.
\<close>

theorem uPrintf_text:
  "uPrintf ps u = uWrite (crlf (drop_slash (c_str (stringFormat ps)))) u"
  by (simp add: uPrintf_def printf_loop_spec)

lemma crlf_append: "crlf (s @ t) = crlf s @ crlf t"
  by (induction s) auto

lemma crlf_Nil_iff [simp]: "crlf s = [] \<longleftrightarrow> s = []"
  by (cases s) auto

section \<open>Rules for the output functions\<close>

text \<open>Writing changes the recorded calls and nothing else.\<close>

definition wrote_calls :: "pcall list \<Rightarrow> user \<Rightarrow> user" where
  "wrote_calls cs u = (case client u of None \<Rightarrow> u | Some p \<Rightarrow> u\<lparr>calls := calls u @ map (Pair p) cs\<rparr>)"

lemma on_client_eval [out_simps]: "on_client c u = Ret () (wrote_calls [c] u)"
  by (simp add: on_client_def wrote_calls_def out_simps split: option.split)

lemma uWrite_eval [out_simps]: "uWrite m u = Ret () (wrote_calls (if m = [] then [] else [Write m]) u)"
  by (cases "m = []") (simp_all add: uWrite_def out_simps wrote_calls_def split: option.split)

lemma uPrintf_eval [out_simps]:
  "uPrintf ps u = Ret () (wrote_calls
     (let t = crlf (drop_slash (c_str (stringFormat ps))) in if t = [] then [] else [Write t]) u)"
  by (simp add: uPrintf_def printf_loop_spec uWrite_eval Let_def)

lemma wrote_fields [simp]:
  "client (wrote_calls cs u) = client u" "stage (wrote_calls cs u) = stage u"
  "level (wrote_calls cs u) = level u" "u_name (wrote_calls cs u) = u_name u"
  "password (wrote_calls cs u) = password u" "attempts (wrote_calls cs u) = attempts u"
  "flagsTelnet (wrote_calls cs u) = flagsTelnet u" "bpos (wrote_calls cs u) = bpos u"
  "buff (wrote_calls cs u) = buff u" "buffnum (wrote_calls cs u) = buffnum u"
  "textBuffer (wrote_calls cs u) = textBuffer u" "tbpos (wrote_calls cs u) = tbpos u"
  "termCols (wrote_calls cs u) = termCols u" "termRows (wrote_calls cs u) = termRows u"
  "termType (wrote_calls cs u) = termType u" "com (wrote_calls cs u) = com u"
  "u_id (wrote_calls cs u) = u_id u" "auto_id (wrote_calls cs u) = auto_id u"
  "guid (wrote_calls cs u) = guid u" "m_refCount (wrote_calls cs u) = m_refCount u"
  "inlinePrompt (wrote_calls cs u) = inlinePrompt u"
  by (simp_all add: wrote_calls_def split: option.split)

lemma wrote_calls_append [simp]: "wrote_calls ds (wrote_calls cs u) = wrote_calls (cs @ ds) u"
  by (simp add: wrote_calls_def split: option.split)

lemma wrote_calls_Nil [simp]: "wrote_calls [] u = u"
  by (simp add: wrote_calls_def split: option.split)

lemma uPrintf_some: "\<exists>cs. uPrintf ps u = Ret () (wrote_calls cs u)"
  unfolding uPrintf_eval by (intro exI, rule refl)

lemma skip_some: "\<exists>cs. skip u = Ret () (wrote_calls cs u)"
  by (rule exI [of _ "[]"]) (simp add: out_simps)

lemma prompt_eval: "\<exists>cs. prompt E u = Ret () (wrote_calls cs u)"
proof -
  have "prompt E u = skip u \<or> (\<exists>ps. prompt E u = uPrintf ps u)"
    by (cases "stage u") (auto simp: prompt_def bind_def prog_eval(6))
  then show ?thesis using uPrintf_some skip_some by metis
qed

lemma wp_output [wp_simps]:
  "wp (uWrite m) Q R = (\<lambda>u. Q () (wrote_calls (if m = [] then [] else [Write m]) u))"
  "wp (on_client c) Q R = (\<lambda>u. Q () (wrote_calls [c] u))"
  by (rule ext, simp add: wp_def out_simps)+

lemma wp_uPrintf: "(\<And>cs. Q () (wrote_calls cs u)) \<Longrightarrow> wp (uPrintf ps) Q R u"
  using uPrintf_some [of ps u] by (auto simp: wp_def)

lemma wp_prompt: "(\<And>cs. Q () (wrote_calls cs u)) \<Longrightarrow> wp (prompt E) Q R u"
  using prompt_eval [of E u] by (auto simp: wp_def)

end
