(* ===== verification/Telopt.thy ===== *)
theory Telopt
  imports UserState
begin

text \<open>
  Telnet option negotiation: \<open>User::parseTelopt\<close>, \<open>getTermsize\<close> and \<open>getTermtype\<close>
  (\<open>src/Common/User.cpp\<close>). They work on \<open>buff\<close>, of which \<open>bpos\<close> bytes are meant; an index
  past \<open>buff.size()\<close> is undefined behaviour.
\<close>

section \<open>Reading the buffer\<close>

definition rd :: "nat \<Rightarrow> char uprog" where
  "rd i u = (case str_at (buff u) i of None \<Rightarrow> Undefined | Some c \<Rightarrow> Ret c u)"

definition IAC :: char where "IAC = char_of TELCMD_IAC"
definition SE :: char where "SE = char_of TELCMD_SE"
definition SB :: char where "SB = char_of TELCMD_SB"
definition OPT_NAWS :: char where "OPT_NAWS = char_of TELOPT_NAWS"
definition OPT_TERM :: char where "OPT_TERM = char_of TELOPT_TERM"

definition setFlag :: "u32 \<Rightarrow> unit uprog" where
  "setFlag f = modify (\<lambda>u. u\<lparr>flagsTelnet := bit_set (flagsTelnet u) f\<rparr>)"

definition unsetFlag :: "u32 \<Rightarrow> unit uprog" where
  "unsetFlag f = modify (\<lambda>u. u\<lparr>flagsTelnet := bit_unset (flagsTelnet u) f\<rparr>)"

text \<open>The value of the comparison \<open>((unsigned char)c)==TELCMD_IAC\<close> in a sum.\<close>

definition iac_flag :: "char \<Rightarrow> nat" where
  "iac_flag c = (if c = IAC then 1 else 0)"

section \<open>getTermsize\<close>

text \<open>\<open>((uint16_t)hi<<8)+(uint8_t)lo\<close>, stored in 16 bits; the conversion of a \<open>char\<close> extends its sign.\<close>

definition size16 :: "char \<Rightarrow> char \<Rightarrow> u16" where
  "size16 hi lo = push_bit 8 (of_int (sc hi)) + of_nat (uc lo)"

definition report_size :: "u16 \<Rightarrow> u16 \<Rightarrow> unit uprog" where
  "report_size dCols dRows = bind (gets id) (\<lambda>u.
     let dflt = (termCols u = 0 \<or> termRows u = 0);
         cols = (if termCols u = 0 then dCols else termCols u);
         rows = (if termRows u = 0 then dRows else termRows u);
         text = [D (uint cols), Lit ''x'', D (uint rows)]
     in seq (modify (\<lambda>u. u\<lparr>termCols := cols, termRows := rows\<rparr>))
        (if level u = UserLevel_LOGIN then
           seq (if dflt
                then uPrintf (Lit ''Your terminal has been set to a default size of '' # text @ [Lit [NL]])
                else uPrintf (Lit ''Terminal size: '' # text @ [Lit [NL]]))
             (setFlag TelnetFlag_TERMSIZE)
         else uPrintf (Lit ''INFO: Terminal size now: '' # text @ [Lit [NL]])))"

text \<open>The result is the number of bytes the option takes, 0 when it is not complete.\<close>

definition getTermsize :: "nat uprog" where
  "getTermsize = bind (gets id) (\<lambda>u.
     if bpos u < 9 then ret 0 else
     let b = unat (bpos u); dCols = termCols u; dRows = termRows u in
     seq (modify (\<lambda>u. u\<lparr>termCols := 0, termRows := 0\<rparr>))
     (bind (rd 3) (\<lambda>c. let pos1 = 3 + iac_flag c in
      bind (rd (pos1 + 1)) (\<lambda>c. let pos2 = pos1 + 1 + iac_flag c in
      if b < pos2 then ret 0 else
      bind (rd pos1) (\<lambda>hi. bind (rd pos2) (\<lambda>lo.
      seq (modify (\<lambda>u. u\<lparr>termCols := size16 hi lo\<rparr>))
      (bind (rd (pos2 + 1)) (\<lambda>c. let pos1 = pos2 + 1 + iac_flag c in
      bind (rd (pos1 + 1)) (\<lambda>c. let pos2 = pos1 + 1 + iac_flag c in
      bind (rd pos1) (\<lambda>hi. bind (rd pos2) (\<lambda>lo.
      seq (modify (\<lambda>u. u\<lparr>termRows := size16 hi lo\<rparr>))
      (if b - 3 < pos2 then ret 0 else
      bind (rd (pos2 + 1)) (\<lambda>c1. bind (rd (pos2 + 2)) (\<lambda>c2.
      seq (if c1 \<noteq> IAC \<or> c2 \<noteq> SE then
             seq (uPrintf [Lit (''WARNING: Your client sent a corrupt terminal size option!'' @ [NL])])
               (modify (\<lambda>u. u\<lparr>termCols := 0, termRows := 0\<rparr>))
           else skip)
      (seq (report_size dCols dRows)
      (ret (pos2 + 3)))))))))))))))))"

section \<open>getTermtype\<close>

text \<open>The loop over \<open>i\<close>: the first IAC SE before \<open>bpos\<close>, or \<open>bpos\<close>; \<open>None\<close> for a read out of range.\<close>

function find_se :: "string \<Rightarrow> nat \<Rightarrow> nat \<Rightarrow> nat option" where
  "find_se s b i =
     (if b \<le> i then Some b
      else case str_at s i of
          None \<Rightarrow> None
        | Some c \<Rightarrow>
            if c = IAC \<and> i < b - 1 then
              (case str_at s (i + 1) of
                 None \<Rightarrow> None
               | Some d \<Rightarrow> if d = SE then Some i else find_se s b (i + 1))
            else find_se s b (i + 1))"
  by pat_completeness auto
termination
  by (relation "measure (\<lambda>(s, b, i). b - i)") auto

declare find_se.simps [simp del]

definition report_type :: "server \<Rightarrow> unit uprog" where
  "report_type E =
     seq (setFlag TelnetFlag_TERMTYPE)
     (seq (unsetFlag TelnetFlag_ANSI_TERM)
     (bind (gets id) (\<lambda>u.
      seq (whenb (opt_ansiTerms E \<noteq> [] \<and>
             (\<exists>term \<in> set (split_any E (opt_ansiTerms E) '',''). iequals E (termType u) term))
            (setFlag TelnetFlag_ANSI_TERM))
     (seq (uPrintf [Lit ''Terminal type: '', S (termType u), Lit [NL]])
     (bind (gets id) (\<lambda>u.
      whenb (\<not> bit_isSet (flagsTelnet u) TelnetFlag_ANSI_TERM)
        (uPrintf [Lit (''WARNING: Your terminal is not recognised as ANSI code compatible.'' @ [NL])])))))))"

definition unresolved :: string where
  "unresolved = ''<unresolved>''"

definition getTermtype :: "server \<Rightarrow> nat uprog" where
  "getTermtype E = bind (gets id) (\<lambda>u.
     if bpos u < 6 then ret 0 else
     bind (rd 3) (\<lambda>c.
     if uc c \<noteq> TELSUB_IS then
       seq (uPrintf [Lit (''WARNING: Your client sent a corrupt terminal type option!'' @ [NL])])
       (seq (modify (\<lambda>u. u\<lparr>termType := unresolved\<rparr>))
       (seq (report_type E) (ret 4)))
     else
       case find_se (buff u) (unat (bpos u)) 4 of
         None \<Rightarrow> undefined_behaviour
       | Some i \<Rightarrow>
           if i = unat (bpos u) then ret 0 else
           seq (if i = 4 then modify (\<lambda>u. u\<lparr>termType := unresolved\<rparr>)
                else modify (\<lambda>u. u\<lparr>buff := take i (buff u), termType := drop 4 (take i (buff u))\<rparr>))
           (seq (report_type E) (ret (i + 2)))))"

section \<open>parseTelopt\<close>

definition warn :: "piece list \<Rightarrow> unit uprog" where
  "warn ps = uPrintf (Lit ''WARNING: Your client '' # ps @ [Lit [NL]])"

text \<open>
  The switch over the command: the shift, or \<open>None\<close> where the function returns false. The
  answer to an escaped IAC passes a pointer where \<open>%c\<close> reads an \<open>int\<close>; \<open>pointer_byte\<close> is the
  character that comes out of it on the platform, if any does.
\<close>

definition telopt_will :: "char \<Rightarrow> unit uprog" where
  "telopt_will c =
     (if c = OPT_NAWS then skip
      else if c = OPT_TERM then
        uPrintf [C IAC, C SB, C OPT_TERM, C (char_of TELSUB_SEND), C IAC, C SE]
      else warn [Lit ''sent unexpected TELNET_WILL''])"

definition telopt_wont :: "char \<Rightarrow> unit uprog" where
  "telopt_wont c =
     (if c = OPT_NAWS then
        bind (gets id) (\<lambda>u.
        seq (uPrintf [Lit ''Unable to get your terminal size, defaulting to '', D (uint (termCols u)),
               Lit ''x'', D (uint (termRows u)), Lit (''.'' @ [NL])])
          (setFlag TelnetFlag_TERMSIZE))
      else if c = OPT_TERM then
        seq (uPrintf [Lit (''Unable to get your terminal type.'' @ [NL])])
        (seq (setFlag TelnetFlag_TERMTYPE) (modify (\<lambda>u. u\<lparr>termType := unresolved\<rparr>)))
      else warn [Lit ''sent unexpected TELNET_WILL''])"

definition telopt_do :: "char \<Rightarrow> unit uprog" where
  "telopt_do c =
     (if uc c = TELOPT_SGA then setFlag TelnetFlag_SGA
      else if uc c = TELOPT_ECHO then setFlag TelnetFlag_ECHO
      else warn [Lit ''sent unexpected option '', D (sc c), Lit '' for TELNET_DO''])"

definition telopt_dont :: "char \<Rightarrow> unit uprog" where
  "telopt_dont c =
     (if uc c = TELOPT_SGA then
        seq (uPrintf [Lit (''Your client does not support character mode. This will cause I/O'' @ [NL]
               @ ''         problems with your session.'' @ [NL])])
          (setFlag TelnetFlag_SGA)
      else if uc c = TELOPT_ECHO then
        seq (warn [Lit ''refused to switch off input echoing.'']) (setFlag TelnetFlag_ECHO)
      else warn [Lit ''sent unexpected option '', D (sc c), Lit '' for TELNET_DONT''])"

definition telopt_shift :: "server \<Rightarrow> char option \<Rightarrow> nat option uprog" where
  "telopt_shift E pointer_byte = bind (gets id) (\<lambda>u. bind (rd 1) (\<lambda>c1.
     let cmd = uc c1; complete = (3 \<le> bpos u); option = (\<lambda>f. bind (rd 2) (\<lambda>c. seq (f c) (ret (Some 3))))
     in if cmd = TELCMD_SB then
          bind (rd 2) (\<lambda>c.
            if c = OPT_NAWS then bind getTermsize (\<lambda>n. ret (if n = 0 then None else Some n))
            else if c = OPT_TERM then bind (getTermtype E) (\<lambda>n. ret (if n = 0 then None else Some n))
            else seq (warn [Lit ''sent unexpected sub option '', D (sc c)]) (ret (Some 0)))
        else if cmd = TELCMD_WILL then if complete then option telopt_will else ret None
        else if cmd = TELCMD_WONT then if complete then option telopt_wont else ret None
        else if cmd = TELCMD_DO then if complete then option telopt_do else ret None
        else if cmd = TELCMD_DONT then if complete then option telopt_dont else ret None
        else if cmd = TELCMD_AYT then seq (uPrintf [Lit (''[Lotos++ : yes]'' @ [NL])]) (ret (Some 2))
        else if cmd = TELCMD_IAC then
          (case pointer_byte of
             None \<Rightarrow> undefined_behaviour
           | Some c \<Rightarrow> seq (uPrintf [C c]) (ret (Some 2)))
        else ret (Some 2)))"

definition telopt_finish :: "server \<Rightarrow> bool uprog" where
  "telopt_finish E = bind (gets flagsTelnet) (\<lambda>f.
     if \<not> bit_isSet f TelnetFlag_GOT_TELOPT_INFO \<and> bit_isSet f TelnetFlag_ECHO
       \<and> bit_isSet f TelnetFlag_SGA \<and> bit_isSet f TelnetFlag_TERMTYPE \<and> bit_isSet f TelnetFlag_TERMSIZE
     then seq (setFlag TelnetFlag_GOT_TELOPT_INFO)
          (seq (modify (\<lambda>u. u\<lparr>stage := UserStage_LOGIN_ID\<rparr>))
          (seq (prompt E) (ret True)))
     else ret True)"

text \<open>The \<open>while\<close> loop, with the number of its rounds bounded by the first argument.\<close>

fun telopt_loop :: "nat \<Rightarrow> server \<Rightarrow> char option \<Rightarrow> bool uprog" where
  "telopt_loop 0 E pb = hang"
| "telopt_loop (Suc n) E pb = bind (gets bpos) (\<lambda>b.
     if b = 0 then telopt_finish E else
     bind (rd 0) (\<lambda>c.
     if c \<noteq> IAC then telopt_finish E else
     if b < 2 then ret False else
     bind (telopt_shift E pb) (\<lambda>r.
     case r of
       None \<Rightarrow> ret False
     | Some sh \<Rightarrow>
         seq (modify (\<lambda>u. u\<lparr>bpos := bpos u - of_nat sh, buff := drop sh (buff u)\<rparr>))
           (telopt_loop n E pb))))"

definition parseTelopt :: "server \<Rightarrow> char option \<Rightarrow> bool uprog" where
  "parseTelopt E pb = bind (gets bpos) (\<lambda>b. telopt_loop (Suc (unat b)) E pb)"

section \<open>Each option takes what it says\<close>

lemma wp_rd [wp_simps]:
  "wp (rd i) Q R = (\<lambda>u. case str_at (buff u) i of None \<Rightarrow> False | Some c \<Rightarrow> Q c u)"
  by (rule ext) (simp add: wp_def rd_def split: option.split)

lemma wp_setFlag [wp_simps]:
  "wp (setFlag f) Q R = (\<lambda>u. Q () (u\<lparr>flagsTelnet := bit_set (flagsTelnet u) f\<rparr>))"
  "wp (unsetFlag f) Q R = (\<lambda>u. Q () (u\<lparr>flagsTelnet := bit_unset (flagsTelnet u) f\<rparr>))"
  by (simp_all add: setFlag_def unsetFlag_def wp_simps)

text \<open>
  What the negotiation leaves alone: the line editor, the login and everything but the
  terminal data, the flags, the stage, the telnet buffer and the recorded calls.
\<close>

definition telopt_frame :: "user \<Rightarrow> user \<Rightarrow> bool" where
  "telopt_frame u v \<longleftrightarrow>
     com v = com u \<and> client v = client u \<and> u_name v = u_name u \<and> password v = password u
   \<and> level v = level u \<and> attempts v = attempts u \<and> buffnum v = buffnum u
   \<and> textBuffer v = textBuffer u \<and> tbpos v = tbpos u \<and> u_id v = u_id u \<and> auto_id v = auto_id u
   \<and> guid v = guid u \<and> m_refCount v = m_refCount u"

lemma telopt_frame_refl [simp]: "telopt_frame u u"
  by (simp add: telopt_frame_def)

lemma telopt_frame_trans: "telopt_frame u v \<Longrightarrow> telopt_frame v w \<Longrightarrow> telopt_frame u w"
  by (simp add: telopt_frame_def)

definition same_buff :: "user \<Rightarrow> user \<Rightarrow> bool" where
  "same_buff u v \<longleftrightarrow> telopt_frame u v \<and> bpos v = bpos u \<and> buff v = buff u"

lemmas frame_defs = same_buff_def telopt_frame_def

lemma str_at_some: "i \<le> length s \<Longrightarrow> \<exists>c. str_at s i = Some c \<and> (c \<noteq> NUL \<longrightarrow> i < length s)"
  by (auto simp: str_at_def)

lemma wp_rd_le:
  "i \<le> length (buff u) \<Longrightarrow> (\<And>c. (c \<noteq> NUL \<Longrightarrow> i < length (buff u)) \<Longrightarrow> Q c u) \<Longrightarrow> wp (rd i) Q R u"
  using str_at_some [of i "buff u"] by (auto simp: wp_simps)

lemma uc_IAC: "uc IAC = 255"
  by (simp add: IAC_def TELCMD_IAC_def)

lemma IAC_NUL [simp]: "IAC \<noteq> NUL" "NUL \<noteq> IAC"
  using uc_IAC by (metis uc_NUL zero_neq_numeral)+

lemma report_size_wp:
  "(\<And>v. same_buff u v \<Longrightarrow> Q () v) \<Longrightarrow> wp (report_size a b) Q R u"
  by (auto simp: report_size_def wp_simps Let_def frame_defs intro!: wp_uPrintf)

text \<open>Reading inside the buffer or at its end; an IAC is never the character at the end.\<close>

definition chr_at :: "string \<Rightarrow> nat \<Rightarrow> char" where
  "chr_at s i = (if i < length s then s ! i else NUL)"

lemma str_at_le: "i \<le> length s \<Longrightarrow> str_at s i = Some (chr_at s i)"
  by (simp add: str_at_def chr_at_def)

lemma chr_at_IAC: "chr_at s i = IAC \<Longrightarrow> i < length s"
  by (auto simp: chr_at_def split: if_splits)

lemma flag_step:
  "i \<le> length s \<Longrightarrow> i + iac_flag (chr_at s i) \<le> length s"
  using chr_at_IAC [of s i] by (auto simp: iac_flag_def)

definition flag_at :: "string \<Rightarrow> nat \<Rightarrow> nat" where
  "flag_at s i = iac_flag (chr_at s i)"

lemma flag_at_le: "flag_at s i \<le> 1"
  by (simp add: flag_at_def iac_flag_def)

lemma flag_at_inside: "i \<le> length s \<Longrightarrow> i + flag_at s i \<le> length s"
  using flag_step by (simp add: flag_at_def)

lemma getTermsize_wp:
  fixes u :: user
  defines "s \<equiv> buff u" and "b \<equiv> unat (bpos u)"
  defines "p1 \<equiv> 3 + flag_at s 3"
  defines "p2 \<equiv> p1 + 1 + flag_at s (p1 + 1)"
  defines "p3 \<equiv> p2 + 1 + flag_at s (p2 + 1)"
  defines "p4 \<equiv> p3 + 1 + flag_at s (p3 + 1)"
  defines "cols \<equiv> size16 (chr_at s p1) (chr_at s p2)" and "rows \<equiv> size16 (chr_at s p3) (chr_at s p4)"
  assumes len: "b \<le> length s"
    and short: "bpos u < 9 \<Longrightarrow> Q 0 u"
    and part: "9 \<le> b \<Longrightarrow> b < p4 + 3 \<Longrightarrow> Q 0 (u\<lparr>termCols := cols, termRows := rows\<rparr>)"
    and good: "p4 + 3 \<le> b \<Longrightarrow> chr_at s (p4 + 1) = IAC \<Longrightarrow> chr_at s (p4 + 2) = SE
      \<Longrightarrow> wp (report_size (termCols u) (termRows u)) (\<lambda>_. Q (p4 + 3)) R (u\<lparr>termCols := cols, termRows := rows\<rparr>)"
    and bad: "\<And>cs. p4 + 3 \<le> b \<Longrightarrow> \<not> (chr_at s (p4 + 1) = IAC \<and> chr_at s (p4 + 2) = SE)
      \<Longrightarrow> wp (report_size (termCols u) (termRows u)) (\<lambda>_. Q (p4 + 3)) R
            ((wrote_calls cs u)\<lparr>termCols := 0, termRows := 0\<rparr>)"
  shows "wp getTermsize Q R u"
proof (cases "bpos u < 9")
  case True
  then show ?thesis using short by (simp add: getTermsize_def wp_simps)
next
  case False
  then have nine: "9 \<le> b" by (simp add: b_def word_less_nat_alt)
  have p: "p1 \<le> 4" "p1 + 1 \<le> p2" "p2 \<le> 6" "p2 + 1 \<le> p3" "p3 \<le> 8" "p3 + 1 \<le> p4"
    using flag_at_le [of s 3] flag_at_le [of s "p1 + 1"] flag_at_le [of s "p2 + 1"]
    unfolding p1_def p2_def p3_def p4_def by linarith+
  have p4: "p4 \<le> length s"
    using flag_at_inside [of "p3 + 1" s] p nine len unfolding p4_def by linarith
  have at: "str_at s i = Some (chr_at s i)" if "i \<le> length s" for i
    using that by (rule str_at_le)
  have reads: "str_at s 3 = Some (chr_at s 3)" "str_at s (p1 + 1) = Some (chr_at s (p1 + 1))"
    "str_at s p1 = Some (chr_at s p1)" "str_at s p2 = Some (chr_at s p2)"
    "str_at s (p2 + 1) = Some (chr_at s (p2 + 1))" "str_at s (p3 + 1) = Some (chr_at s (p3 + 1))"
    "str_at s p3 = Some (chr_at s p3)" "str_at s p4 = Some (chr_at s p4)"
    using p p4 nine len by (auto intro!: at)
  have ends: "p4 + 3 \<le> b \<Longrightarrow> str_at s (p4 + 1) = Some (chr_at s (p4 + 1))"
    "p4 + 3 \<le> b \<Longrightarrow> str_at s (p4 + 2) = Some (chr_at s (p4 + 2))"
    using len by (auto intro!: at)
  have pos: "3 + iac_flag (chr_at s 3) = p1" "p1 + 1 + iac_flag (chr_at s (p1 + 1)) = p2"
    "p2 + 1 + iac_flag (chr_at s (p2 + 1)) = p3" "p3 + 1 + iac_flag (chr_at s (p3 + 1)) = p4"
    by (simp_all only: p1_def p2_def p3_def p4_def flag_at_def)
  have nb: "\<not> b < p2" using p nine by linarith
  have w: "wp (uPrintf ps) (\<lambda>_. wp (modify (\<lambda>u. u\<lparr>termCols := 0, termRows := 0\<rparr>))
       (\<lambda>_. wp (report_size (termCols u) (termRows u)) (\<lambda>_. Q (p4 + 3)) R) R) R
       (u\<lparr>termCols := cols, termRows := rows\<rparr>)"
    if "p4 + 3 \<le> b" "\<not> (chr_at s (p4 + 1) = IAC \<and> chr_at s (p4 + 2) = SE)" for ps
  proof (rule wp_uPrintf)
    fix cs
    have "(wrote_calls cs (u\<lparr>termCols := cols, termRows := rows\<rparr>))\<lparr>termCols := 0, termRows := 0\<rparr>
        = (wrote_calls cs u)\<lparr>termCols := 0, termRows := 0\<rparr>"
      by (simp add: wrote_calls_def split: option.split)
    then show "wp (modify (\<lambda>u. u\<lparr>termCols := 0, termRows := 0\<rparr>))
       (\<lambda>_. wp (report_size (termCols u) (termRows u)) (\<lambda>_. Q (p4 + 3)) R) R
       (wrote_calls cs (u\<lparr>termCols := cols, termRows := rows\<rparr>))"
      using bad [OF that] by (simp add: wp_simps)
  qed
  have b3: "b - 3 < p4 \<longleftrightarrow> b < p4 + 3" using nine by linarith
  have at_u: "buff u = s" "unat (bpos u) = b" by (simp_all add: s_def b_def)
  have "wp (if chr_at s (p4 + 1) \<noteq> IAC \<or> chr_at s (p4 + 2) \<noteq> SE then
             seq (uPrintf [Lit (''WARNING: Your client sent a corrupt terminal size option!'' @ [NL])])
               (modify (\<lambda>u. u\<lparr>termCols := 0, termRows := 0\<rparr>))
           else skip)
       (\<lambda>_. wp (report_size (termCols u) (termRows u)) (\<lambda>_. Q (p4 + 3)) R) R
       (u\<lparr>termCols := cols, termRows := rows\<rparr>)" if "p4 + 3 \<le> b"
    using w [OF that] good [OF that] by (simp add: wp_seq wp_unit)
  then have fin: "if b - 3 < p4 then Q 0 (u\<lparr>termCols := cols, termRows := rows\<rparr>) else
      case str_at s (p4 + 1) of None \<Rightarrow> False | Some c1 \<Rightarrow>
      (case str_at s (p4 + 2) of None \<Rightarrow> False | Some c2 \<Rightarrow>
       wp (if c1 \<noteq> IAC \<or> c2 \<noteq> SE then
             seq (uPrintf [Lit (''WARNING: Your client sent a corrupt terminal size option!'' @ [NL])])
               (modify (\<lambda>u. u\<lparr>termCols := 0, termRows := 0\<rparr>))
           else skip)
       (\<lambda>_. wp (report_size (termCols u) (termRows u)) (\<lambda>_. Q (p4 + 3)) R) R
       (u\<lparr>termCols := cols, termRows := rows\<rparr>))"
    using part nine b3 ends by simp
  have upd: "\<And>v f. buff (termCols_update f v) = buff v" "\<And>v f. buff (termRows_update f v) = buff v"
    "\<And>x. u\<lparr>termCols := 0, termRows := 0, termCols := x\<rparr> = u\<lparr>termCols := x, termRows := 0\<rparr>"
    "\<And>x y. u\<lparr>termCols := x, termRows := 0, termRows := y\<rparr> = u\<lparr>termCols := x, termRows := y\<rparr>"
    by simp_all
  have "wp getTermsize Q R u = (if b - 3 < p4 then Q 0 (u\<lparr>termCols := cols, termRows := rows\<rparr>) else
      case str_at s (p4 + 1) of None \<Rightarrow> False | Some c1 \<Rightarrow>
      (case str_at s (p4 + 2) of None \<Rightarrow> False | Some c2 \<Rightarrow>
       wp (if c1 \<noteq> IAC \<or> c2 \<noteq> SE then
             seq (uPrintf [Lit (''WARNING: Your client sent a corrupt terminal size option!'' @ [NL])])
               (modify (\<lambda>u. u\<lparr>termCols := 0, termRows := 0\<rparr>))
           else skip)
       (\<lambda>_. wp (report_size (termCols u) (termRows u)) (\<lambda>_. Q (p4 + 3)) R) R
       (u\<lparr>termCols := cols, termRows := rows\<rparr>)))"
    unfolding cols_def rows_def
    by (simp only: getTermsize_def wp_bind wp_seq wp_state wp_unit wp_basic wp_if wp_rd id_apply
        upd Let_def reads pos option.case False nb if_False at_u if_apply cong: if_cong option.case_cong)
  with fin show ?thesis by simp
qed

text \<open>In short: a complete option is inside the buffer, and nothing but the sizes and flags changes.\<close>

lemma getTermsize_frame:
  assumes "unat (bpos u) \<le> length (buff u)"
  shows "wp getTermsize (\<lambda>n v. same_buff u v \<and> n \<le> unat (bpos u) \<and> n \<noteq> 1) R u"
proof (rule getTermsize_wp)
  show "unat (bpos u) \<le> length (buff u)" by (rule assms)
qed (auto intro!: report_size_wp simp: frame_defs)

text \<open>How a client sends its size: a byte of value 255 is doubled.\<close>

definition iac_escape :: "nat \<Rightarrow> string" where
  "iac_escape n = (if n = 255 then [IAC, IAC] else [char_of n])"

definition naws_option :: "u16 \<Rightarrow> u16 \<Rightarrow> string" where
  "naws_option w h = [IAC, SB, OPT_NAWS] @ iac_escape (unat w div 256) @ iac_escape (unat w mod 256)
     @ iac_escape (unat h div 256) @ iac_escape (unat h mod 256) @ [IAC, SE]"

lemma size16_value:
  "size16 (char_of (unat w div 256)) (char_of (unat w mod 256)) = w"
proof -
  have "unat w < 65536" using unsigned_less [of w] by simp
  then have lt: "unat w div 256 < 256" by simp
  have eight: "push_bit 8 (of_int (k - 256) :: u16) = push_bit 8 (of_int k)" for k
  proof -
    have "(65536 :: u16) = 0" by code_simp
    then show ?thesis by (simp add: push_bit_eq_mult algebra_simps)
  qed
  have "push_bit 8 (of_int (sc (char_of (unat w div 256))) :: u16) = push_bit 8 (of_nat (unat w div 256))"
    using lt eight [of "int (unat w div 256)"] by (auto simp: sc_def)
  then have "size16 (char_of (unat w div 256)) (char_of (unat w mod 256))
      = of_nat (unat w div 256) * 256 + of_nat (unat w mod 256)"
    by (simp add: size16_def push_bit_eq_mult) (simp add: uc_def)
  also have "\<dots> = of_nat (unat w div 256 * 256 + unat w mod 256)"
    by (simp only: of_nat_add of_nat_mult of_nat_numeral)
  also have "\<dots> = w" unfolding div_mult_mod_eq by simp
  finally show ?thesis .
qed

lemma chr_at_simps [simp]:
  "chr_at (c # s) 0 = c" "chr_at (c # s) (Suc n) = chr_at s n"
  by (simp_all add: chr_at_def)

lemma chr_at_numeral [simp]: "chr_at (c # s) (numeral n) = chr_at s (numeral n - 1)"
  by (simp add: chr_at_def)

lemma flag_at_chr: "chr_at s i = c \<Longrightarrow> flag_at s i = (if c = IAC then 1 else 0)"
  by (simp add: flag_at_def iac_flag_def)

lemma SE_neq [simp]: "SE \<noteq> IAC" "IAC \<noteq> SE"
  unfolding SE_def IAC_def TELCMD_SE_def TELCMD_IAC_def by code_simp+

lemma char_of_IAC: "(n :: nat) < 256 \<Longrightarrow> char_of n = IAC \<longleftrightarrow> n = 255"
  using uc_IAC by (metis uc_char_of uc_eq_iff)

text \<open>
  Where the four pieces of an option stand: the flags tell whether a byte is doubled, and the
  bytes the code takes are the bytes sent.
\<close>

lemma escape_read:
  assumes "n < 256" "drop k s = iac_escape n @ t"
  shows "chr_at s (k + flag_at s k) = char_of n" "drop (k + 1 + flag_at s k) s = t"
proof -
  have k: "chr_at s (k + i) = chr_at (drop k s) i" "drop (k + i) s = drop i (drop k s)" for i
    by (auto simp: chr_at_def add.commute)
  have f: "flag_at s k = (if n = 255 then 1 else 0)"
    using k [of 0] assms by (auto simp: flag_at_def iac_flag_def iac_escape_def char_of_IAC)
  show "chr_at s (k + flag_at s k) = char_of n"
    using k(1) [of "flag_at s k"] f assms char_of_IAC [of n] by (auto simp: iac_escape_def)
  show "drop (k + 1 + flag_at s k) s = t"
    using k(2) [of "1 + flag_at s k"] f assms by (auto simp: iac_escape_def)
qed

text \<open>
  Claim C15: window size negotiation. For a complete size option of nonzero width and height,
  in the form a client sends it (bytes of value 255 doubled), at the front of the buffer and
  whatever follows it, \<open>getTermsize\<close> returns the length of the option and leaves exactly these
  two sizes in the user.
\<close>

theorem termsize_roundtrip:
  assumes "buff u = naws_option w h @ rest" and "unat (bpos u) = length (buff u)"
    and "w \<noteq> 0" and "h \<noteq> 0"
  shows "\<exists>v. getTermsize u = Ret (length (naws_option w h)) v \<and> termCols v = w \<and> termRows v = h"
proof -
  let ?s = "buff u"
  define p1 where "p1 = 3 + flag_at ?s 3"
  define p2 where "p2 = p1 + 1 + flag_at ?s (p1 + 1)"
  define p3 where "p3 = p2 + 1 + flag_at ?s (p2 + 1)"
  define p4 where "p4 = p3 + 1 + flag_at ?s (p3 + 1)"
  have byte: "unat x div 256 < 256" "unat x mod 256 < 256" for x :: u16
  proof -
    have "unat x < 65536" using unsigned_less [of x] by simp
    then show "unat x div 256 < 256" by simp
  qed simp
  have d3: "drop 3 ?s = iac_escape (unat w div 256) @ iac_escape (unat w mod 256)
     @ iac_escape (unat h div 256) @ iac_escape (unat h mod 256) @ [IAC, SE] @ rest"
    using assms(1) by (simp add: naws_option_def)
  note r1 = escape_read [OF byte(1) d3, folded p1_def]
  have d4: "drop (p1 + 1) ?s = iac_escape (unat w mod 256)
     @ iac_escape (unat h div 256) @ iac_escape (unat h mod 256) @ [IAC, SE] @ rest"
    using r1(2) by (simp add: p1_def add.commute add.left_commute)
  note r2 = escape_read [OF byte(2) d4, folded p2_def]
  have d5: "drop (p2 + 1) ?s = iac_escape (unat h div 256) @ iac_escape (unat h mod 256) @ [IAC, SE] @ rest"
    using r2(2) by (simp add: p2_def add.commute add.left_commute)
  note r3 = escape_read [OF byte(1) d5, folded p3_def]
  have d6: "drop (p3 + 1) ?s = iac_escape (unat h mod 256) @ [IAC, SE] @ rest"
    using r3(2) by (simp add: p3_def add.commute add.left_commute)
  note r4 = escape_read [OF byte(2) d6, folded p4_def]
  have d7: "drop (p4 + 1) ?s = IAC # SE # rest"
    using r4(2) by (simp add: p4_def add.commute add.left_commute)
  have ends: "chr_at ?s (p4 + 1) = IAC" "chr_at ?s (p4 + 2) = SE"
  proof -
    have "chr_at ?s (k + i) = chr_at (drop k ?s) i" for k i by (auto simp: chr_at_def add.commute)
    from this [of "p4 + 1" 0] this [of "p4 + 1" 1] d7
    show "chr_at ?s (p4 + 1) = IAC" "chr_at ?s (p4 + 2) = SE" by simp_all
  qed
  have len: "length ?s = p4 + 3 + length rest"
    using arg_cong [OF d7, of length] by simp
  have six: "6 \<le> p4" by (simp add: p1_def p2_def p3_def p4_def)
  have total: "length (naws_option w h) = p4 + 3" using len assms(1) by simp
  have cols: "size16 (chr_at ?s p1) (chr_at ?s p2) = w"
    using r1(1) r2(1) size16_value [of w] by (simp add: p1_def p2_def add.commute add.left_commute)
  have rows: "size16 (chr_at ?s p3) (chr_at ?s p4) = h"
    using r3(1) r4(1) size16_value [of h] by (simp add: p3_def p4_def add.commute add.left_commute)
  have "wp getTermsize (\<lambda>n v. n = p4 + 3 \<and> termCols v = w \<and> termRows v = h) (\<lambda>_ _. False) u"
  proof (rule getTermsize_wp, unfold p4_def [symmetric] p3_def [symmetric] p2_def [symmetric]
      p1_def [symmetric] cols rows)
    show "wp (report_size (termCols u) (termRows u)) (\<lambda>_ v. p4 + 3 = p4 + 3 \<and> termCols v = w \<and> termRows v = h)
        (\<lambda>_ _. False) (u\<lparr>termCols := w, termRows := h\<rparr>)"
      using assms(3,4) by (auto simp: report_size_def wp_simps Let_def intro!: wp_uPrintf)
  qed (use assms(2) len ends six in \<open>auto simp: word_less_nat_alt\<close>)
  then show ?thesis unfolding wp_Ret total by blast
qed

theorem termsize_roundtrip_witness:
  "\<exists>v. getTermsize ((User_new 1000 (Some 1))\<lparr>buff := naws_option 255 40 @ ''xy'', bpos := 12\<rparr>)
       = Ret (length (naws_option 255 40)) v \<and> termCols v = 255 \<and> termRows v = 40"
  by (rule termsize_roundtrip [where rest = "''xy''"]) (simp_all add: naws_option_def iac_escape_def)

section \<open>The terminal type\<close>

lemma find_se_inside:
  "b \<le> length s \<Longrightarrow> i \<le> b \<Longrightarrow>
     \<exists>j. find_se s b i = Some j \<and> i \<le> j \<and> j \<le> b \<and> (j < b \<longrightarrow> j + 1 < b)"
proof (induction s b i rule: find_se.induct)
  case (1 s b i)
  note inside = 1(3) and le = 1(4)
  show ?case
  proof (cases "b \<le> i")
    case True
    then show ?thesis using le by (subst find_se.simps) simp
  next
    case False
    then obtain c where c: "str_at s i = Some c" using inside by (auto simp: str_at_def)
    show ?thesis
    proof (cases "c = IAC \<and> i < b - 1")
      case True
      then have "i + 1 \<le> length s" using inside by linarith
      then obtain d where d: "str_at s (i + 1) = Some d" using str_at_le by blast
      show ?thesis
      proof (cases "d = SE")
        case se: True
        then show ?thesis using c d True False by (subst find_se.simps) auto
      next
        case se: False
        have "find_se s b i = find_se s b (i + 1)"
          using c d True False se by (subst find_se.simps) simp
        then show ?thesis using 1(1) [OF False c True d se inside] False by force
      qed
    next
      case inner: False
      have "find_se s b i = find_se s b (i + 1)"
        using c False inner by (subst find_se.simps) auto
      then show ?thesis using 1(2) [OF False c inner inside] False by force
    qed
  qed
qed

lemma report_type_wp:
  "(\<And>v. same_buff u v \<Longrightarrow> Q () v) \<Longrightarrow> wp (report_type E) Q R u"
  by (auto simp: report_type_def wp_simps frame_defs intro!: wp_uPrintf)

text \<open>
  A complete terminal type takes at least four bytes and lies inside the buffer; the buffer
  may come back cut off behind the name.
\<close>

lemma getTermtype_frame:
  assumes "unat (bpos u) \<le> length (buff u)"
  shows "wp (getTermtype E) (\<lambda>n v. telopt_frame u v \<and> bpos v = bpos u \<and> n \<le> unat (bpos u)
     \<and> (n = 0 \<and> buff v = buff u \<or> 4 \<le> n \<and> (buff v = buff u \<or> buff v = take (n - 2) (buff u)))) R u"
proof (cases "bpos u < 6")
  case True
  then show ?thesis by (simp add: getTermtype_def wp_simps)
next
  case False
  then have six: "6 \<le> unat (bpos u)" by (simp add: word_less_nat_alt)
  obtain c where c: "str_at (buff u) 3 = Some c" using six assms by (auto simp: str_at_def)
  obtain j where j: "find_se (buff u) (unat (bpos u)) 4 = Some j" "4 \<le> j" "j \<le> unat (bpos u)"
      "j < unat (bpos u) \<Longrightarrow> j + 1 < unat (bpos u)"
    using find_se_inside [OF assms, of 4] six by auto
  show ?thesis
    using False six c j
    by (auto simp: getTermtype_def wp_simps frame_defs intro!: wp_uPrintf report_type_wp)
qed

section \<open>The negotiation ends\<close>

text \<open>Every suboption in the buffer is one of the two the program knows.\<close>

definition sub_ok :: "string \<Rightarrow> bool" where
  "sub_ok s = list_all (\<lambda>i. \<not> (chr_at s i = IAC \<and> chr_at s (i + 1) = SB)
     \<or> chr_at s (i + 2) = OPT_NAWS \<or> chr_at s (i + 2) = OPT_TERM) [0..<length s]"

text \<open>No escaped IAC; its answer needs the character that comes out of a pointer.\<close>

definition no_escape :: "string \<Rightarrow> bool" where
  "no_escape s = list_all (\<lambda>i. \<not> (chr_at s i = IAC \<and> chr_at s (i + 1) = IAC)) [0..<length s]"

lemma chr_at_drop: "chr_at (drop n s) i = chr_at s (n + i)"
  by (auto simp: chr_at_def)

lemma sub_ok_drop: "sub_ok s \<Longrightarrow> sub_ok (drop n s)"
  unfolding sub_ok_def list_all_iff by (auto simp: chr_at_drop add.assoc)

lemma no_escape_drop: "no_escape s \<Longrightarrow> no_escape (drop n s)"
  unfolding no_escape_def list_all_iff by (auto simp: chr_at_drop add.assoc)

lemma uc_eq_char: "uc c = n \<Longrightarrow> n < 256 \<Longrightarrow> c = char_of n"
  by (metis uc_char_of uc_eq_iff)

lemma str_at_chr: "str_at s i = Some c \<Longrightarrow> c = chr_at s i"
  by (auto simp: str_at_def chr_at_def split: if_splits)

lemmas telcmd_values = TELCMD_SB_def TELCMD_WILL_def TELCMD_WONT_def TELCMD_DO_def TELCMD_DONT_def
  TELCMD_AYT_def TELCMD_IAC_def

text \<open>What one round consumes: nothing was complete, or at least two bytes that are there.\<close>

lemma telopt_shift_wp:
  assumes inv: "unat (bpos u) \<le> length (buff u)" and two: "2 \<le> unat (bpos u)"
    and sub: "sub_ok (buff u)" and first: "chr_at (buff u) 0 = IAC"
    and esc: "pb \<noteq> None \<or> no_escape (buff u)"
  shows "wp (telopt_shift E pb) (\<lambda>r v. telopt_frame u v \<and> bpos v = bpos u \<and>
     (case r of None \<Rightarrow> buff v = buff u
      | Some n \<Rightarrow> 2 \<le> n \<and> n \<le> unat (bpos u) \<and> (buff v = buff u \<or> buff v = take (n - 2) (buff u)))) R u"
    (is "wp _ ?Q R u")
proof -
  have len: "1 \<le> length (buff u)" "2 \<le> length (buff u)" using inv two by linarith+
  obtain c1 where c1: "str_at (buff u) 1 = Some c1" using str_at_le [OF len(1)] by blast
  obtain c2 where c2: "str_at (buff u) 2 = Some c2" using str_at_le [OF len(2)] by blast
  have three: "3 \<le> bpos u \<longleftrightarrow> 3 \<le> unat (bpos u)" by (simp add: word_le_nat_alt)
  have size: "wp getTermsize (\<lambda>n. ?Q (if n = 0 then None else Some n)) R u"
    by (rule wp_mono [OF getTermsize_frame [OF inv]]) (auto simp: same_buff_def)
  have type: "wp (getTermtype E) (\<lambda>n. ?Q (if n = 0 then None else Some n)) R u"
    by (rule wp_mono [OF getTermtype_frame [OF inv]]) auto
  have opt: "wp (f c2) (\<lambda>_. ?Q (Some 3)) R u"
    if "3 \<le> unat (bpos u)" "f \<in> {telopt_will, telopt_wont, telopt_do, telopt_dont}" for f
    using that
    by (auto simp: telopt_will_def telopt_wont_def telopt_do_def telopt_dont_def warn_def wp_simps
        frame_defs intro!: wp_uPrintf)
  have known: "c2 = OPT_NAWS \<or> c2 = OPT_TERM" if "uc c1 = TELCMD_SB"
  proof -
    have "c1 = SB" using uc_eq_char [OF that] by (simp add: SB_def TELCMD_SB_def)
    moreover have "0 < length (buff u)" using inv two by linarith
    ultimately show ?thesis
      using sub first str_at_chr [OF c1] str_at_chr [OF c2]
      by (auto simp: sub_ok_def list_all_length numeral_2_eq_2)
  qed
  note evals = telopt_shift_def wp_simps Let_def c1 [unfolded One_nat_def] c2 telcmd_values three
  have option: "wp (bind (rd 2) (\<lambda>c. seq (f c) (ret (Some 3)))) ?Q R u"
    if "3 \<le> unat (bpos u)" "f \<in> {telopt_will, telopt_wont, telopt_do, telopt_dont}" for f
    using opt [OF that] by (simp add: wp_simps c2)
  consider "uc c1 = 250" | "uc c1 = 251" | "uc c1 = 252" | "uc c1 = 253" | "uc c1 = 254"
    | "uc c1 = 246" | "uc c1 = 255" | "uc c1 \<notin> {250, 251, 252, 253, 254, 246, 255}"
    by blast
  then show ?thesis
  proof cases
    case 1
    then show ?thesis
      using known size type by (auto simp: evals)
  next
    case 2
    then show ?thesis using option [of telopt_will] by (simp add: evals)
  next
    case 3
    then show ?thesis using option [of telopt_wont] by (simp add: evals)
  next
    case 4
    then show ?thesis using option [of telopt_do] by (simp add: evals)
  next
    case 5
    then show ?thesis using option [of telopt_dont] by (simp add: evals)
  next
    case 6
    then show ?thesis using two by (auto simp: evals frame_defs intro!: wp_uPrintf)
  next
    case 7
    then have "c1 = IAC" using uc_IAC by (simp add: uc_eq_iff [symmetric])
    then have "chr_at (buff u) 1 = IAC" using str_at_chr [OF c1] by simp
    moreover have "0 < length (buff u)" using inv two by linarith
    ultimately have "\<not> no_escape (buff u)" using first by (auto simp: no_escape_def list_all_length)
    then obtain c where "pb = Some c" using esc by blast
    then show ?thesis using 7 two by (auto simp: evals frame_defs intro!: wp_uPrintf)
  next
    case 8
    then show ?thesis using two by (simp add: evals)
  qed
qed

lemma telopt_finish_wp:
  "(\<And>v. same_buff u v \<Longrightarrow> Q True v) \<Longrightarrow> wp (telopt_finish E) Q R u"
  by (auto simp: telopt_finish_def wp_simps frame_defs intro!: wp_prompt)

definition telopt_inv :: "user \<Rightarrow> bool" where
  "telopt_inv u \<longleftrightarrow> unat (bpos u) \<le> length (buff u)"

text \<open>What the loop leaves: the buffer covers \<open>bpos\<close>, or it was cut off and is empty.\<close>

definition telopt_post :: "user \<Rightarrow> bool \<Rightarrow> user \<Rightarrow> bool" where
  "telopt_post u r v \<longleftrightarrow> telopt_frame u v \<and> unat (bpos v) \<le> unat (bpos u)
     \<and> (telopt_inv v \<or> r \<and> buff v = [])"

lemma telopt_loop_empty: "buff u = [] \<Longrightarrow> wp (telopt_loop (Suc n) E pb) (telopt_post u) R u"
  using IAC_NUL
  by (auto simp: wp_simps str_at_def telopt_post_def same_buff_def intro!: telopt_finish_wp)

lemma telopt_loop_wp:
  "telopt_inv u \<Longrightarrow> sub_ok (buff u) \<Longrightarrow> pb \<noteq> None \<or> no_escape (buff u) \<Longrightarrow> unat (bpos u) < n \<Longrightarrow>
     wp (telopt_loop n E pb) (telopt_post u) R u"
proof (induction n arbitrary: u)
  case (Suc n)
  show ?case
  proof (cases "2 \<le> unat (bpos u) \<and> chr_at (buff u) 0 = IAC")
    case False
    have "0 \<le> length (buff u)" by simp
    then have c: "str_at (buff u) 0 = Some (chr_at (buff u) 0)" by (rule str_at_le)
    have two: "bpos u < 2 \<longleftrightarrow> unat (bpos u) < 2" by (simp add: word_less_nat_alt)
    show ?thesis
      using False Suc.prems c two
      by (auto simp: wp_simps telopt_post_def same_buff_def telopt_inv_def intro!: telopt_finish_wp)
  next
    case True
    then have nz: "bpos u \<noteq> 0" "\<not> bpos u < 2" by (auto simp: word_less_nat_alt)
    have c: "str_at (buff u) 0 = Some IAC" using True by (auto simp: str_at_def chr_at_def split: if_splits)
    have step: "wp (case r of None \<Rightarrow> ret False
        | Some sh \<Rightarrow> seq (modify (\<lambda>u. u\<lparr>bpos := bpos u - of_nat sh, buff := drop sh (buff u)\<rparr>))
            (telopt_loop n E pb)) (telopt_post u) R v"
      if v: "telopt_frame u v \<and> bpos v = bpos u \<and>
         (case r of None \<Rightarrow> buff v = buff u
          | Some k \<Rightarrow> 2 \<le> k \<and> k \<le> unat (bpos u) \<and> (buff v = buff u \<or> buff v = take (k - 2) (buff u)))"
      for r v
    proof (cases r)
      case None
      then show ?thesis using v Suc.prems(1) by (auto simp: wp_simps telopt_post_def telopt_inv_def)
    next
      case (Some k)
      let ?v = "v\<lparr>bpos := bpos v - of_nat k, buff := drop k (buff v)\<rparr>"
      have k: "2 \<le> k" "k \<le> unat (bpos u)" using v Some by auto
      have pos: "unat (bpos ?v) = unat (bpos u) - k"
        using k v unat_sub_of_nat [of k "bpos u"] by simp
      have frame: "telopt_frame u ?v" using v by (simp add: telopt_frame_def)
      have "wp (telopt_loop n E pb) (telopt_post ?v) R ?v"
      proof (cases "buff v = buff u")
        case True
        then have "telopt_inv ?v" "sub_ok (buff ?v)" "pb \<noteq> None \<or> no_escape (buff ?v)" "unat (bpos ?v) < n"
          using Suc.prems k pos by (auto simp: telopt_inv_def sub_ok_drop no_escape_drop)
        then show ?thesis by (rule Suc.IH)
      next
        case False
        then have "buff ?v = []" using v Some by auto
        moreover obtain m where "n = Suc m" using k Suc.prems(4) by (cases n) auto
        ultimately show ?thesis using telopt_loop_empty by blast
      qed
      then have "wp (telopt_loop n E pb) (telopt_post u) R ?v"
        by (rule wp_mono) (use frame pos in \<open>auto simp: telopt_post_def intro: telopt_frame_trans\<close>)
      then show ?thesis using Some by (simp add: wp_simps)
    qed
    have "wp (telopt_shift E pb) (\<lambda>r. wp (case r of None \<Rightarrow> ret False
        | Some sh \<Rightarrow> seq (modify (\<lambda>u. u\<lparr>bpos := bpos u - of_nat sh, buff := drop sh (buff u)\<rparr>))
            (telopt_loop n E pb)) (telopt_post u) R) R u"
      using Suc.prems True
      by (intro wp_mono [OF telopt_shift_wp step]) (auto simp: telopt_inv_def)
    then show ?thesis using nz c by (simp add: wp_simps)
  qed
qed simp

lemma parseTelopt_wp:
  assumes "telopt_inv u" and "sub_ok (buff u)" and "pb \<noteq> None \<or> no_escape (buff u)"
  shows "wp (parseTelopt E pb) (telopt_post u) R u"
  unfolding parseTelopt_def wp_simps by (rule telopt_loop_wp [OF assms]) simp

section \<open>Where it goes wrong\<close>

lemma telopt_hang_round:
  assumes "chr_at (buff u) 0 = IAC" "chr_at (buff u) 1 = SB"
    and "chr_at (buff u) 2 \<noteq> OPT_NAWS" "chr_at (buff u) 2 \<noteq> OPT_TERM"
    and "2 \<le> unat (bpos u)" "unat (bpos u) \<le> length (buff u)"
  shows "telopt_loop n E pb u = Hang"
  using assms
proof (induction n arbitrary: u)
  case (Suc n)
  have len: "0 \<le> length (buff u)" "Suc 0 \<le> length (buff u)" "2 \<le> length (buff u)"
    using Suc.prems by linarith+
  note at = str_at_le [OF len(1)] str_at_le [OF len(2)] str_at_le [OF len(3)]
  have nz: "bpos u \<noteq> 0" "\<not> bpos u < 2" using Suc.prems(5) by (auto simp: word_less_nat_alt)
  have cmd: "uc SB = TELCMD_SB" by (simp add: SB_def TELCMD_SB_def)
  let ?w = "warn [Lit ''sent unexpected sub option '', D (sc (chr_at (buff u) 2))] u"
  obtain cs where w: "?w = Ret () (wrote_calls cs u)"
    unfolding warn_def using uPrintf_some by blast
  have "telopt_shift E pb u = Ret (Some 0) (wrote_calls cs u)"
    using Suc.prems(1-4) at cmd w
    by (simp add: telopt_shift_def bind_def seq_def out_simps rd_def Let_def)
  moreover have "(wrote_calls cs u)\<lparr>bpos := bpos u, buff := buff u\<rparr> = wrote_calls cs u"
    by (simp add: wrote_calls_def split: option.split)
  moreover have "telopt_loop n E pb (wrote_calls cs u) = Hang"
    by (rule Suc.IH) (use Suc.prems in simp_all)
  ultimately show ?case
    using Suc.prems(1) nz at(1)
    by (simp add: bind_def seq_def out_simps rd_def)
qed (simp add: out_simps)

text \<open>
  Claim C17: a suboption the program does not know stops the server. When the buffer starts with IAC SB and the
  byte behind them is neither that of a window size nor that of a terminal type, the shift stays at zero, and
  the loop of \<open>parseTelopt\<close> starts again on the same bytes: it has not ended after
  any number of rounds. The byte is looked at even where it has not come yet, so that the two bytes IAC SB alone,
  with nothing kept behind them, do the same.
\<close>

theorem unknown_suboption_hangs:
  assumes "chr_at (buff u) 0 = IAC" and "chr_at (buff u) 1 = SB" and "chr_at (buff u) 2 \<notin> {OPT_NAWS, OPT_TERM}"
    and "2 \<le> unat (bpos u)" and "telopt_inv u"
  shows "parseTelopt E pb u = Hang \<and> telopt_loop n E pb u = Hang"
proof -
  have "telopt_loop m E pb u = Hang" for m
    by (rule telopt_hang_round) (use assms in \<open>auto simp: telopt_inv_def\<close>)
  then show ?thesis by (simp add: parseTelopt_def bind_def prog_eval del: telopt_loop.simps)
qed

theorem unknown_suboption_hangs_witness:
  "\<forall>E pb n. parseTelopt E pb ((User_new 1000 None)\<lparr>buff := [IAC, SB, CHR 0x22, IAC, SE], bpos := 5\<rparr>) = Hang
   \<and> telopt_loop n E pb ((User_new 1000 None)\<lparr>buff := [IAC, SB], bpos := 2\<rparr>) = Hang"
proof (intro allI)
  fix E pb n
  have neq: "NUL \<noteq> OPT_NAWS" "NUL \<noteq> OPT_TERM" "CHR 0x22 \<noteq> OPT_NAWS" "CHR 0x22 \<noteq> OPT_TERM"
    by code_simp+
  show "parseTelopt E pb ((User_new 1000 None)\<lparr>buff := [IAC, SB, CHR 0x22, IAC, SE], bpos := 5\<rparr>) = Hang
   \<and> telopt_loop n E pb ((User_new 1000 None)\<lparr>buff := [IAC, SB], bpos := 2\<rparr>) = Hang"
    using unknown_suboption_hangs [of "(User_new 1000 None)\<lparr>buff := [IAC, SB, CHR 0x22, IAC, SE], bpos := 5\<rparr>" E pb n]
      unknown_suboption_hangs [of "(User_new 1000 None)\<lparr>buff := [IAC, SB], bpos := 2\<rparr>" E pb n] neq
    by (simp add: chr_at_def telopt_inv_def)
qed

text \<open>
  A terminal type with input behind it loses that input: \<open>getTermtype\<close> cuts the
  buffer off behind the name, but returns the length of the whole option, so \<open>bpos\<close> counts
  bytes the buffer no longer has.
\<close>

theorem termtype_cuts_input:
  "case parseTelopt E pb ((User_new aid p)\<lparr>buff := [IAC, SB, OPT_TERM, CHR 0x00] @ ''vt'' @ [IAC, SE] @ ''who'',
       bpos := 11\<rparr>) of
     Ret r v \<Rightarrow> r \<and> termType v = ''vt'' \<and> buff v = [] \<and> bpos v = 3
   | _ \<Rightarrow> False"
proof -
  let ?b = "[IAC, SB, OPT_TERM, CHR 0x00] @ ''vt'' @ [IAC, SE] @ ''who''"
  let ?u = "(User_new aid p)\<lparr>buff := ?b, bpos := 11\<rparr>"
  have se: "find_se ?b 11 4 = Some 6" and is': "str_at ?b 3 = Some NUL" by code_simp+
  have at: "str_at ?b 0 = Some IAC" "str_at ?b (Suc 0) = Some SB" "str_at ?b 2 = Some OPT_TERM"
    by (simp_all add: str_at_def)
  have opt: "OPT_TERM \<noteq> OPT_NAWS" "uc SB = TELCMD_SB" by code_simp+
  have type: "wp (getTermtype E) (\<lambda>n v. n = 8 \<and> bpos v = 11 \<and> buff v = take 6 ?b \<and> termType v = ''vt'') R ?u" for R
  proof -
    have "wp (report_type E) (\<lambda>_ v. bpos v = 11 \<and> buff v = take 6 ?b \<and> termType v = ''vt'') R
        (?u\<lparr>buff := take 6 ?b, termType := drop 4 (take 6 ?b)\<rparr>)"
      by (auto simp: report_type_def wp_simps intro!: wp_uPrintf)
    then show ?thesis
      using se is' by (simp add: getTermtype_def wp_simps TELSUB_IS_def del: append_Cons append_Nil)
  qed
  have fin: "wp (telopt_loop (Suc k) E pb) (\<lambda>r v. r \<and> buff v = [] \<and> bpos v = 3 \<and> termType v = ''vt'') R v"
    if "buff v = []" "bpos v = 3" "termType v = ''vt''" for k v R
    using that by (auto simp: wp_simps str_at_def telopt_finish_def intro!: wp_prompt)
  have shift: "wp (telopt_shift E pb) (\<lambda>r v. r = Some 8 \<and> bpos v = 11 \<and> buff v = take 6 ?b \<and> termType v = ''vt'') R ?u" for R
    unfolding telopt_shift_def
    using at opt by (simp add: wp_simps Let_def del: append_Cons append_Nil)
      (rule wp_mono [OF type], auto)
  have "wp (telopt_loop (Suc 11) E pb) (\<lambda>r v. r \<and> buff v = [] \<and> bpos v = 3 \<and> termType v = ''vt'') R ?u" for R
  proof -
    have "wp (telopt_shift E pb) (\<lambda>r. wp (case r of None \<Rightarrow> ret False
        | Some sh \<Rightarrow> seq (modify (\<lambda>u. u\<lparr>bpos := bpos u - of_nat sh, buff := drop sh (buff u)\<rparr>))
            (telopt_loop 11 E pb)) (\<lambda>r v. r \<and> buff v = [] \<and> bpos v = 3 \<and> termType v = ''vt'') R) R ?u"
    proof (rule wp_mono [OF shift], elim conjE)
      fix r :: "nat option" and v :: user
      assume v: "r = Some 8" "bpos v = 11" "buff v = take 6 ?b" "termType v = ''vt''"
      have "wp (telopt_loop (Suc 10) E pb) (\<lambda>r v. r \<and> buff v = [] \<and> bpos v = 3 \<and> termType v = ''vt'') R
          (v\<lparr>bpos := bpos v - of_nat 8, buff := drop 8 (buff v)\<rparr>)"
        by (rule fin) (use v in simp_all)
      moreover have "Suc 10 = (11 :: nat)" by simp
      ultimately show "wp (case r of None \<Rightarrow> ret False
        | Some sh \<Rightarrow> seq (modify (\<lambda>u. u\<lparr>bpos := bpos u - of_nat sh, buff := drop sh (buff u)\<rparr>))
            (telopt_loop 11 E pb)) (\<lambda>r v. r \<and> buff v = [] \<and> bpos v = 3 \<and> termType v = ''vt'') R v"
        unfolding v(1) option.case wp_seq wp_unit by (simp only:)
    qed
    then show ?thesis
      using at(1) by (subst telopt_loop.simps(2)) (simp add: wp_simps del: append_Cons append_Nil)
  qed
  then have "wp (parseTelopt E pb) (\<lambda>r v. r \<and> buff v = [] \<and> bpos v = 3 \<and> termType v = ''vt'') (\<lambda>_ _. False) ?u"
    by (simp add: parseTelopt_def wp_simps del: telopt_loop.simps append_Cons append_Nil)
  then show ?thesis unfolding wp_Ret by auto
qed

end
