(* ===== verification/Registry.thy ===== *)
theory Registry
  imports StdMap
begin

text \<open>
  Identity and registration of the server's objects: \<open>AutoID\<close>, \<open>AutoList\<close>, the id of a
  \<open>Creature\<close>, the reference count of a \<open>Thing\<close> and the look-ups of \<open>Talker\<close>
  (\<open>src/Common/AutoID.h\<close>, \<open>AutoList.h\<close>, \<open>Creature.cpp\<close>, \<open>Thing.cpp\<close>, \<open>Talker.cpp\<close>). The
  static counter and set of \<open>AutoID\<close> are the record \<open>auto_ids\<close>.
\<close>

unbundle bit_operations_syntax

section \<open>AutoID\<close>

definition ID_FIRST :: nat where "ID_FIRST = 1000"
definition ID_LAST :: nat where "ID_LAST = 0xFFFFFF"

record auto_ids =
  id_count :: nat
  id_list :: "nat set"

definition auto_ids_new :: auto_ids where
  "auto_ids_new = \<lparr>id_count = 1000, id_list = {}\<rparr>"

text \<open>
  The loop of the constructor: step the counter until it is free. It has no other way out, so
  with every id taken it never ends; \<open>None\<close> is a run of \<open>n\<close> steps that found none.
\<close>

fun next_free :: "nat \<Rightarrow> nat set \<Rightarrow> nat \<Rightarrow> nat option" where
  "next_free 0 taken c = None"
| "next_free (Suc n) taken c =
     (if c \<in> taken then next_free n taken (if ID_LAST \<le> c then ID_FIRST else c + 1) else Some c)"

definition id_steps :: nat where
  "id_steps = Suc ID_LAST"

definition first_try :: "nat \<Rightarrow> nat" where
  "first_try c = (if ID_LAST \<le> c + 1 then ID_FIRST else c + 1)"

definition AutoID_new :: "auto_ids \<Rightarrow> (nat \<times> auto_ids) option" where
  "AutoID_new s =
     (case next_free id_steps (id_list s) (first_try (id_count s)) of
        None \<Rightarrow> None
      | Some c \<Rightarrow> Some (c, s\<lparr>id_count := c, id_list := insert c (id_list s)\<rparr>))"

definition AutoID_delete :: "nat \<Rightarrow> auto_ids \<Rightarrow> auto_ids" where
  "AutoID_delete i s = s\<lparr>id_list := id_list s - {i}\<rparr>"

section \<open>AutoList\<close>

definition addList :: "u32 \<Rightarrow> nat \<Rightarrow> (u32, nat) smap \<Rightarrow> (u32, nat) smap" where
  "addList i t m = map_put i t m"

definition removeList :: "u32 \<Rightarrow> (u32, nat) smap \<Rightarrow> (u32, nat) smap" where
  "removeList i m = map_erase i m"

interpretation auto_list: registry map_find addList removeList map_ok
  by unfold_locales
    (simp_all add: addList_def removeList_def std_map.look_add std_map.look_del std_map.ok_add std_map.ok_del)

section \<open>Creature, Thing and Talker\<close>

definition user_idRange :: u32 where
  "user_idRange = 0x10000000"

definition setID :: "nat \<Rightarrow> u32" where
  "setID auto_id = of_nat auto_id OR user_idRange"

text \<open>The count is a signed 32-bit integer; \<open>unRef\<close> deletes the object at zero and below.\<close>

definition addRef :: "u32 \<Rightarrow> u32" where
  "addRef r = r + 1"

definition unRef :: "u32 \<Rightarrow> u32 \<times> bool" where
  "unRef r = (r - 1, sint (r - 1) \<le> 0)"

definition getByID :: "u32 \<Rightarrow> (u32, nat) smap \<Rightarrow> nat option" where
  "getByID i m = (if i = 0 then None else map_find m i)"

definition getUsersOnline :: "(u32, nat) smap \<Rightarrow> u32" where
  "getUsersOnline m = of_nat (length m)"

section \<open>The loop finds a free id\<close>

definition ids_ok :: "auto_ids \<Rightarrow> bool" where
  "ids_ok s \<longleftrightarrow> ID_FIRST \<le> id_count s \<and> id_count s \<le> ID_LAST"

lemma next_free_Some:
  "next_free n taken c = Some d \<Longrightarrow> ID_FIRST \<le> c \<Longrightarrow> c \<le> ID_LAST
     \<Longrightarrow> d \<notin> taken \<and> ID_FIRST \<le> d \<and> d \<le> ID_LAST"
  by (induction n taken c rule: next_free.induct) (auto simp: ID_FIRST_def ID_LAST_def split: if_splits)

text \<open>Going up from \<open>c\<close> the loop meets each id up to the last one; then it starts again.\<close>

lemma next_free_up:
  "c \<le> d \<Longrightarrow> d \<le> ID_LAST \<Longrightarrow> d \<notin> taken \<Longrightarrow> d - c < n \<Longrightarrow> next_free n taken c \<noteq> None"
proof (induction n taken c rule: next_free.induct)
  case (2 n taken c)
  show ?case
  proof (cases "c \<in> taken")
    case True
    with 2(4) have "c \<noteq> d" by blast
    with 2(2,3) have c: "c < d" "\<not> ID_LAST \<le> c" by simp_all
    then have "next_free n taken (c + 1) \<noteq> None" using 2 True by simp
    with True c show ?thesis by simp
  qed simp
qed simp

lemma next_free_wrap:
  "c \<le> ID_LAST \<Longrightarrow> ID_FIRST \<le> d \<Longrightarrow> d < c \<Longrightarrow> d \<notin> taken
     \<Longrightarrow> (ID_LAST - c) + 1 + (d - ID_FIRST) < n \<Longrightarrow> next_free n taken c \<noteq> None"
proof (induction n taken c rule: next_free.induct)
  case (2 n taken c)
  show ?case
  proof (cases "c < ID_LAST")
    case True
    with 2 show ?thesis by simp
  next
    case False
    with 2 have "c = ID_LAST" "d - ID_FIRST < n" by simp_all
    then show ?thesis using next_free_up [of ID_FIRST d taken n] 2 by simp
  qed
qed simp

lemma next_free_finds:
  assumes "ID_FIRST \<le> c" "c \<le> ID_LAST" "ID_FIRST \<le> d" "d \<le> ID_LAST" "d \<notin> taken"
  shows "next_free id_steps taken c \<noteq> None"
proof (cases "c \<le> d")
  case True
  then show ?thesis using assms by (intro next_free_up) (auto simp: id_steps_def)
next
  case False
  then show ?thesis using assms
    by (intro next_free_wrap [where d = d]) (auto simp: id_steps_def ID_FIRST_def ID_LAST_def)
qed

lemma first_try_range: "ids_ok s \<Longrightarrow> ID_FIRST \<le> first_try (id_count s) \<and> first_try (id_count s) \<le> ID_LAST"
  by (auto simp: ids_ok_def first_try_def ID_FIRST_def ID_LAST_def)

lemma never_free:
  "{ID_FIRST..ID_LAST} \<subseteq> taken \<Longrightarrow> ID_FIRST \<le> c \<Longrightarrow> c \<le> ID_LAST \<Longrightarrow> next_free n taken c = None"
proof (induction n taken c rule: next_free.induct)
  case (2 n taken c)
  then have "c \<in> taken" by auto
  with 2 show ?case by (auto simp: ID_FIRST_def ID_LAST_def)
qed simp

text \<open>
  Claim C18: as long as some id between 1000 and 0xFFFFFF is free the constructor of \<open>AutoID\<close>
  ends with one: an id in that range that no live object has, which it then records. When
  none is free its loop never ends.
\<close>

theorem AutoID_fresh:
  assumes "ids_ok s"
  shows "(if {ID_FIRST..ID_LAST} \<subseteq> id_list s
          then (\<forall>n. next_free n (id_list s) (first_try (id_count s)) = None)
          else (\<exists>i s'. AutoID_new s = Some (i, s') \<and> i \<notin> id_list s \<and> ID_FIRST \<le> i \<and> i \<le> ID_LAST
            \<and> id_list s' = insert i (id_list s) \<and> ids_ok s'))"
proof (cases "{ID_FIRST..ID_LAST} \<subseteq> id_list s")
  case True
  then show ?thesis using never_free first_try_range [OF assms] by simp
next
  case False
  then obtain d where "d \<in> {ID_FIRST..ID_LAST}" "d \<notin> id_list s" by blast
  then have "d \<notin> id_list s" "ID_FIRST \<le> d" "d \<le> ID_LAST" by simp_all
  then obtain i where i: "next_free id_steps (id_list s) (first_try (id_count s)) = Some i"
    using next_free_finds first_try_range [OF assms] by blast
  then show ?thesis
    using False next_free_Some [OF i] first_try_range [OF assms] by (auto simp: AutoID_new_def ids_ok_def)
qed

theorem AutoID_fresh_witness:
  "ids_ok auto_ids_new \<and>
   (\<exists>i s'. AutoID_new auto_ids_new = Some (i, s') \<and> ID_FIRST \<le> i \<and> i \<le> ID_LAST)"
proof -
  have ok: "ids_ok auto_ids_new" by (simp add: ids_ok_def auto_ids_new_def ID_FIRST_def ID_LAST_def)
  moreover have "\<not> {ID_FIRST..ID_LAST} \<subseteq> id_list auto_ids_new"
    by (simp add: auto_ids_new_def ID_FIRST_def ID_LAST_def)
  ultimately show ?thesis using AutoID_fresh [OF ok] by auto
qed

text \<open>Ids of live objects differ, and so do the ids of the users made from them.\<close>

lemma setID_low: "i \<le> ID_LAST \<Longrightarrow> unat (setID i) = i + 0x10000000"
proof -
  assume i: "i \<le> ID_LAST"
  have bits: "\<not> bit (of_nat i :: u32) n" if "24 \<le> n" for n
  proof -
    have "i < 2 ^ 24" using i by (simp add: ID_LAST_def)
    also have "(2 :: nat) ^ 24 \<le> 2 ^ n" using that by (intro power_increasing) simp_all
    finally have "i < 2 ^ n" .
    then have "\<not> bit i n" by (simp add: bit_iff_odd)
    then show ?thesis by (simp add: bit_simps)
  qed
  have "of_nat i AND (2 ^ 28 :: u32) = 0"
    using bits [of 28] by (simp only: and_exp_eq_0_iff_not_bit) simp
  moreover have "(2 :: u32) ^ 28 = user_idRange" by (simp add: user_idRange_def)
  ultimately have "of_nat i AND user_idRange = (0 :: u32)" by (simp only:)
  then have "setID i = of_nat i + user_idRange"
    unfolding setID_def by (simp only: disjunctive_add_eq_or)
  moreover have "unat (of_nat i + user_idRange) = i + 0x10000000"
    using i by (simp add: user_idRange_def ID_LAST_def unat_word_ariths unat_of_nat)
  ultimately show ?thesis by simp
qed

lemma setID_inj: "i \<le> ID_LAST \<Longrightarrow> j \<le> ID_LAST \<Longrightarrow> setID i = setID j \<Longrightarrow> i = j"
  by (metis add_right_cancel setID_low)

end
