(* ===== verification/Database.thy ===== *)
theory Database
  imports StdMap
begin

text \<open>
  The database layer: \<open>Driver\<close> (\<open>src/Database/Driver.cpp\<close>), its MySQL implementation
  (\<open>src/Database/Drivers/MySQL.cpp\<close>), \<open>Insert\<close> and \<open>Transaction\<close>. The MySQL client library is
  a parameter: it answers each call as a function of all calls made so far, which the state
  records in order. Nothing more is assumed of it.
\<close>

section \<open>The client library\<close>

datatype db_call = Real_query string | Store_result | Db_commit | Db_rollback

text \<open>
  \<open>real_query\<close> gives 0 or the error number; \<open>store_result\<close> the error number or the field
  names and the rows; \<open>escape\<close> is the C string \<open>mysql_real_escape_string\<close> leaves.
\<close>

record mysql =
  real_query :: "db_call list \<Rightarrow> nat"
  store_result :: "db_call list \<Rightarrow> nat + string list \<times> string option list list"
  commit_fails :: "db_call list \<Rightarrow> bool"
  rollback_fails :: "db_call list \<Rightarrow> bool"
  insert_id :: "db_call list \<Rightarrow> u64"
  escape :: "string \<Rightarrow> string"

record db =
  m_connected :: bool
  db_calls :: "db_call list"

definition CR_SERVER_GONE_ERROR :: nat where "CR_SERVER_GONE_ERROR = 2006"
definition CR_SERVER_LOST :: nat where "CR_SERVER_LOST = 2013"

definition call :: "db_call \<Rightarrow> db \<Rightarrow> db" where
  "call c d = d\<lparr>db_calls := db_calls d @ [c]\<rparr>"

text \<open>An error number that means the server is gone ends the connection for good.\<close>

definition note_error :: "nat \<Rightarrow> db \<Rightarrow> db" where
  "note_error e d =
     (if e = CR_SERVER_LOST \<or> e = CR_SERVER_GONE_ERROR then d\<lparr>m_connected := False\<rparr> else d)"

section \<open>Results\<close>

text \<open>A result: the column of each field name, the rows not yet fetched and the current row.\<close>

record db_result =
  m_listNames :: "(string, nat) smap"
  m_rest :: "string option list list"
  m_row :: "string option list"

fun list_names :: "nat \<Rightarrow> string list \<Rightarrow> (string, nat) smap \<Rightarrow> (string, nat) smap" where
  "list_names i [] m = m"
| "list_names i (f # fs) m = list_names (i + 1) fs (map_put f i m)"

definition MySQLResult_new :: "string list \<times> string option list list \<Rightarrow> db_result" where
  "MySQLResult_new r = \<lparr>m_listNames = list_names 0 (fst r) [], m_rest = snd r, m_row = []\<rparr>"

text \<open>\<open>advance\<close> fetches the next row; no row is the null result.\<close>

definition advance :: "db_result \<Rightarrow> db_result option" where
  "advance r = (case m_rest r of [] \<Rightarrow> None | row # rows \<Rightarrow> Some (r\<lparr>m_rest := rows, m_row := row\<rparr>))"

definition verifyResult :: "db_result \<Rightarrow> db_result option" where
  "verifyResult r = advance r"

text \<open>The value of a field: \<open>None\<close> for an unknown name or a NULL.\<close>

definition field_value :: "db_result \<Rightarrow> string \<Rightarrow> string option" where
  "field_value r s =
     (case map_find (m_listNames r) s of
        None \<Rightarrow> None
      | Some i \<Rightarrow> if i < length (m_row r) then m_row r ! i else None)"

text \<open>
  The number at the start of a C string, behind blanks and a sign. \<open>atoi\<close> saturates at 64
  bits and truncates; extraction into an unsigned type negates in it, saturates at its
  maximum, and gives 0 without digits.
\<close>

definition is_space :: "char \<Rightarrow> bool" where
  "is_space c \<longleftrightarrow> uc c = 32 \<or> (9 \<le> uc c \<and> uc c \<le> 13)"

definition is_decimal :: "char \<Rightarrow> bool" where
  "is_decimal c \<longleftrightarrow> 48 \<le> uc c \<and> uc c \<le> 57"

definition number_at :: "string \<Rightarrow> bool \<times> nat" where
  "number_at s =
     (let t = dropWhile is_space s;
          (neg, u) = (case t of [] \<Rightarrow> (False, t)
             | c # cs \<Rightarrow> if c = CHR ''-'' then (True, cs) else if c = CHR ''+'' then (False, cs) else (False, t))
      in (neg, foldl (\<lambda>n c. 10 * n + (uc c - 48)) 0 (takeWhile is_decimal u)))"

definition c_atoi :: "string \<Rightarrow> u32" where
  "c_atoi s = (case number_at s of (neg, n) \<Rightarrow>
     of_int (if neg then max (- (2 ^ 63)) (- int n) else min (2 ^ 63 - 1) (int n)))"

definition read_u32 :: "string \<Rightarrow> u32" where
  "read_u32 s = (case number_at s of (neg, n) \<Rightarrow>
     if 2 ^ 32 \<le> n then - 1 else if neg then - of_nat n else of_nat n)"

definition getDataInt :: "db_result \<Rightarrow> string \<Rightarrow> u32" where
  "getDataInt r s = (case field_value r s of None \<Rightarrow> 0 | Some v \<Rightarrow> c_atoi v)"

definition c_atoll :: "string \<Rightarrow> u64" where
  "c_atoll s = (case number_at s of (neg, n) \<Rightarrow>
     of_int (if neg then max (- (2 ^ 63)) (- int n) else min (2 ^ 63 - 1) (int n)))"

definition getDataLong :: "db_result \<Rightarrow> string \<Rightarrow> u64" where
  "getDataLong r s = (case field_value r s of None \<Rightarrow> 0 | Some v \<Rightarrow> c_atoll v)"

text \<open>The bytes of a field and their number, zeros included.\<close>

definition getDataStream :: "db_result \<Rightarrow> string \<Rightarrow> string option \<times> nat" where
  "getDataStream r s = (case field_value r s of None \<Rightarrow> (None, 0) | Some v \<Rightarrow> (Some v, length v))"

definition getDataUInt :: "db_result \<Rightarrow> string \<Rightarrow> u32" where
  "getDataUInt r s = (case field_value r s of None \<Rightarrow> 0 | Some v \<Rightarrow> read_u32 v)"

definition getDataString :: "db_result \<Rightarrow> string \<Rightarrow> string" where
  "getDataString r s = (case field_value r s of None \<Rightarrow> [] | Some v \<Rightarrow> c_str v)"

section \<open>The driver\<close>

definition internalQuery :: "mysql \<Rightarrow> string \<Rightarrow> (std_exn, db, bool) prog" where
  "internalQuery env query d =
     (if \<not> m_connected d then Ret False d
      else
        let d1 = call (Real_query query) d;
            e = real_query env (db_calls d1);
            d2 = (if e \<noteq> 0 then note_error e d1 else d1)
        in Ret (e = 0) (call Store_result d2))"

definition internalSelectQuery :: "mysql \<Rightarrow> string \<Rightarrow> (std_exn, db, db_result option) prog" where
  "internalSelectQuery env query d =
     (if \<not> m_connected d then Ret None d
      else
        let d1 = call (Real_query query) d;
            e = real_query env (db_calls d1);
            d2 = (if e \<noteq> 0 then note_error e d1 else d1);
            d3 = call Store_result d2
        in case store_result env (db_calls d3) of
             Inl e' \<Rightarrow> Ret None (note_error e' d3)
           | Inr r \<Rightarrow> Ret (verifyResult (MySQLResult_new r)) d3)"

definition executeQuery :: "mysql \<Rightarrow> string \<Rightarrow> (std_exn, db, bool) prog" where
  "executeQuery env query = internalQuery env query"

definition storeQuery :: "mysql \<Rightarrow> string \<Rightarrow> (std_exn, db, db_result option) prog" where
  "storeQuery env query = internalSelectQuery env query"

definition beginTransaction :: "mysql \<Rightarrow> (std_exn, db, bool) prog" where
  "beginTransaction env = executeQuery env ''BEGIN''"

definition rollback :: "mysql \<Rightarrow> (std_exn, db, bool) prog" where
  "rollback env d =
     (if \<not> m_connected d then Ret False d
      else let d1 = call Db_rollback d in Ret (\<not> rollback_fails env (db_calls d1)) d1)"

definition commit :: "mysql \<Rightarrow> (std_exn, db, bool) prog" where
  "commit env d =
     (if \<not> m_connected d then Ret False d
      else let d1 = call Db_commit d in Ret (\<not> commit_fails env (db_calls d1)) d1)"

definition getLastInsertedRowID :: "mysql \<Rightarrow> (std_exn, db, u64) prog" where
  "getLastInsertedRowID env = gets (\<lambda>d. insert_id env (db_calls d))"

text \<open>
  The constructor: whether the handle is initialised and the server reached; for binary maps it asks
  for the packet limit and warns (the result) when that is below 16 MB. \<open>getDataInt\<close> is signed.
\<close>

definition MySQL_new :: "mysql \<Rightarrow> bool \<Rightarrow> bool \<Rightarrow> bool \<Rightarrow> (std_exn, db, bool) prog" where
  "MySQL_new env initialised reached binary =
     (if \<not> initialised \<or> \<not> reached then ret False
      else seq (modify (\<lambda>d. d\<lparr>m_connected := True\<rparr>))
        (if \<not> binary then ret False
         else bind (storeQuery env ''SHOW variables LIKE 'max_allowed_packet';'')
           (\<lambda>result. ret (case result of None \<Rightarrow> False | Some r \<Rightarrow> sint (getDataInt r ''Value'') < 16777216))))"

text \<open>\<open>escapeBlob\<close> of a \<open>std::string\<close>: the pointer is never null.\<close>

definition escapeString :: "mysql \<Rightarrow> string \<Rightarrow> string" where
  "escapeString env s = CHR 0x27 # c_str (escape env s) @ [CHR 0x27]"

definition getParam_multiinsert :: bool where
  "getParam_multiinsert = True"

section \<open>Insert\<close>

record insert_stmt =
  m_multiLine :: bool
  m_rows :: u32
  m_query :: string
  m_buf :: string

definition Insert_new :: insert_stmt where
  "Insert_new = \<lparr>m_multiLine = getParam_multiinsert, m_rows = 0, m_query = [], m_buf = []\<rparr>"

definition setQuery :: "string \<Rightarrow> insert_stmt \<Rightarrow> insert_stmt" where
  "setQuery query i = i\<lparr>m_query := query, m_buf := [], m_rows := 0\<rparr>"

definition Insert_execute :: "mysql \<Rightarrow> insert_stmt \<Rightarrow> (std_exn, db, bool \<times> insert_stmt) prog" where
  "Insert_execute env i =
     (if m_multiLine i \<and> m_buf i \<noteq> [] then
        (if m_rows i = 0 then ret (True, i)
         else bind (executeQuery env (m_query i @ m_buf i))
           (\<lambda>res. ret (res, i\<lparr>m_rows := 0, m_buf := []\<rparr>)))
      else ret (True, i))"

definition parenthesised :: "string \<Rightarrow> string" where
  "parenthesised row = ''('' @ row @ '')''"

definition addRow :: "mysql \<Rightarrow> string \<Rightarrow> insert_stmt \<Rightarrow> (std_exn, db, bool \<times> insert_stmt) prog" where
  "addRow env row i =
     (if m_multiLine i then
        let i1 = i\<lparr>m_rows := m_rows i + 1\<rparr>; sz = length (m_buf i1) in
        if sz = 0 then ret (True, i1\<lparr>m_buf := parenthesised row\<rparr>)
        else if 8192 < sz then
          bind (Insert_execute env i1) (\<lambda>(ok, i2).
            if \<not> ok then ret (False, i2)
            else ret (True, i2\<lparr>m_buf := m_buf i2 @ parenthesised row\<rparr>))
        else ret (True, i1\<lparr>m_buf := m_buf i1 @ '','' @ parenthesised row\<rparr>)
      else bind (executeQuery env (m_query i @ parenthesised row)) (\<lambda>ok. ret (ok, i)))"

section \<open>Transaction\<close>

datatype tx_state = STATE_NO_START | STATE_START | STATE_COMMIT

definition tx_begin :: "mysql \<Rightarrow> (std_exn, db, bool \<times> tx_state) prog" where
  "tx_begin env = bind (beginTransaction env) (\<lambda>ok. ret (ok, STATE_START))"

definition tx_commit :: "mysql \<Rightarrow> tx_state \<Rightarrow> (std_exn, db, bool \<times> tx_state) prog" where
  "tx_commit env st =
     (if st = STATE_START then bind (commit env) (\<lambda>ok. ret (ok, STATE_COMMIT)) else ret (False, st))"

text \<open>The destructor.\<close>

definition tx_end :: "mysql \<Rightarrow> tx_state \<Rightarrow> (std_exn, db, unit) prog" where
  "tx_end env st = (if st = STATE_START then bind (rollback env) (\<lambda>_. skip) else skip)"

section \<open>Rows of an Insert\<close>

text \<open>Adding rows one by one, stopping at the first failure.\<close>

fun addRows :: "mysql \<Rightarrow> string list \<Rightarrow> insert_stmt \<Rightarrow> (std_exn, db, bool \<times> insert_stmt) prog" where
  "addRows env [] i = ret (True, i)"
| "addRows env (r # rs) i =
     bind (addRow env r i) (\<lambda>(ok, i'). if ok then addRows env rs i' else ret (False, i'))"

definition insert_all :: "mysql \<Rightarrow> string \<Rightarrow> string list \<Rightarrow> (std_exn, db, bool) prog" where
  "insert_all env q rows =
     bind (addRows env rows (setQuery q Insert_new)) (\<lambda>(ok, i).
     if ok then bind (Insert_execute env i) (\<lambda>(ok, _). ret ok) else ret False)"

fun join_rows :: "string list \<Rightarrow> string" where
  "join_rows [] = []"
| "join_rows [r] = parenthesised r"
| "join_rows (r # rs) = parenthesised r @ '','' @ join_rows rs"

lemma join_rows_Cons: "rs \<noteq> [] \<Longrightarrow> join_rows (r # rs) = parenthesised r @ '','' @ join_rows rs"
  by (cases rs) simp_all

lemma parenthesised_nonempty [simp]: "parenthesised r \<noteq> []"
  by (simp add: parenthesised_def)

lemma join_rows_nonempty [simp]: "join_rows (r # rs) \<noteq> []"
  by (cases rs) (simp_all add: parenthesised_def)

lemma addRows_batch:
  assumes "m_multiLine i" "m_buf i \<noteq> []"
    and "length (m_buf i) + length (join_rows rs) \<le> 8192"
  shows "addRows env rs i d = Ret (True, i\<lparr>m_rows := m_rows i + of_nat (length rs),
     m_buf := m_buf i @ concat (map (\<lambda>r. '','' @ parenthesised r) rs)\<rparr>) d"
  using assms
proof (induction rs arbitrary: i)
  case (Cons r rs)
  let ?i = "i\<lparr>m_rows := m_rows i + 1, m_buf := m_buf i @ '','' @ parenthesised r\<rparr>"
  have len: "length (parenthesised r) \<le> length (join_rows (r # rs))"
    by (cases rs) simp_all
  then have "addRow env r i d = Ret (True, ?i) d"
    using Cons.prems by (auto simp: addRow_def Let_def out_simps)
  moreover have "addRows env rs ?i d = Ret (True, ?i\<lparr>m_rows := m_rows ?i + of_nat (length rs),
     m_buf := m_buf ?i @ concat (map (\<lambda>r. '','' @ parenthesised r) rs)\<rparr>) d"
  proof (cases "rs = []")
    case False
    then have "length (join_rows (r # rs)) = length (parenthesised r) + 1 + length (join_rows rs)"
      by (simp add: join_rows_Cons)
    then show ?thesis using Cons.prems by (intro Cons.IH) simp_all
  qed (simp add: out_simps)
  ultimately show ?case by (simp add: bind_def add.assoc)
qed (simp add: out_simps)

lemma concat_join: "rs \<noteq> [] \<Longrightarrow> concat (map (\<lambda>r. CHR '','' # parenthesised r) rs) = CHR '','' # join_rows rs"
proof (induction rs rule: join_rows.induct)
  case (3 r s rs)
  then show ?case by simp
qed simp_all

text \<open>
  Claim C14: as long as the rows fit the buffer of 8192 bytes, \<open>addRow\<close> for each of them and one
  \<open>execute\<close> send exactly one statement, which holds all rows in order; the result is that of
  the statement.
\<close>

theorem insert_rows_batched:
  assumes "length (join_rows (r # rs)) \<le> 8192" and "length rs < 2 ^ 32 - 1"
  shows "insert_all env q (r # rs) d
     = internalQuery env (q @ join_rows (r # rs)) d"
proof -
  let ?i = "(setQuery q Insert_new)\<lparr>m_rows := 1, m_buf := parenthesised r\<rparr>"
  let ?j = "?i\<lparr>m_rows := m_rows ?i + of_nat (length rs),
     m_buf := m_buf ?i @ concat (map (\<lambda>r. '','' @ parenthesised r) rs)\<rparr>"
  have first: "addRow env r (setQuery q Insert_new) d = Ret (True, ?i) d"
    by (simp add: addRow_def setQuery_def Insert_new_def getParam_multiinsert_def Let_def out_simps)
  have "addRows env rs ?i d = Ret (True, ?j) d"
  proof (cases "rs = []")
    case False
    then show ?thesis
      using assms(1) by (intro addRows_batch)
        (simp_all add: join_rows_Cons setQuery_def Insert_new_def getParam_multiinsert_def)
  qed (simp add: out_simps)
  then have rows: "addRows env (r # rs) (setQuery q Insert_new) d = Ret (True, ?j) d"
    using first by (simp add: bind_def)
  have "unat (1 + of_nat (length rs) :: u32) = 1 + length rs"
    using assms(2) by (simp add: unat_word_ariths unat_of_nat)
  then have nz: "1 + of_nat (length rs) \<noteq> (0 :: u32)" by (metis Suc_not_Zero plus_1_eq_Suc unat_0)
  have "m_buf ?j = join_rows (r # rs)"
    by (cases "rs = []") (simp_all add: concat_join join_rows_Cons)
  then have "Insert_execute env ?j d = bind (executeQuery env (q @ join_rows (r # rs)))
      (\<lambda>res. ret (res, ?j\<lparr>m_rows := 0, m_buf := []\<rparr>)) d"
    using nz by (simp add: Insert_execute_def setQuery_def Insert_new_def getParam_multiinsert_def)
  then show ?thesis
    using rows by (simp add: insert_all_def bind_def executeQuery_def ret_def split: out.split)
qed

theorem insert_rows_batched_witness:
  "\<forall>env d. insert_all env ''INSERT INTO t VALUES '' [''1'', ''2''] d
     = internalQuery env (''INSERT INTO t VALUES '' @ join_rows [''1'', ''2'']) d"
  by (intro allI insert_rows_batched) (simp_all add: parenthesised_def)

text \<open>
  A row added to a buffer that is over 8192 bytes is lost. \<open>addRow\<close> counts the row
  before it flushes the buffer, and the flush sets the count to zero; the final \<open>execute\<close> then
  finds rows in the buffer but a count of zero, sends nothing and reports success.
\<close>

theorem insert_loses_row:
  assumes "8191 \<le> length r" and "m_connected d"
    and "real_query env (db_calls d @ [Real_query (q @ parenthesised r)]) = 0"
  shows "\<exists>d'. insert_all env q [r, s] d = Ret True d'
     \<and> db_calls d' = db_calls d @ [Real_query (q @ parenthesised r), Store_result]"
  using assms
  by (simp add: insert_all_def addRow_def Insert_execute_def setQuery_def Insert_new_def
      getParam_multiinsert_def executeQuery_def internalQuery_def call_def Let_def bind_def ret_def
      parenthesised_def)

theorem insert_loses_row_witness:
  "\<exists>d'. insert_all \<lparr>real_query = \<lambda>_. 0, store_result = \<lambda>_. Inl 0, commit_fails = \<lambda>_. False,
        rollback_fails = \<lambda>_. False, insert_id = \<lambda>_. 1, escape = id\<rparr> ''Q''
        [replicate 8191 CHR ''x'', ''y''] \<lparr>m_connected = True, db_calls = []\<rparr> = Ret True d'
     \<and> db_calls d' = [] @ [Real_query (''Q'' @ parenthesised (replicate 8191 CHR ''x'')), Store_result]"
  using insert_loses_row [of "replicate 8191 CHR ''x''" "\<lparr>m_connected = True, db_calls = []\<rparr>"
      "\<lparr>real_query = \<lambda>_. 0, store_result = \<lambda>_. Inl 0, commit_fails = \<lambda>_. False,
        rollback_fails = \<lambda>_. False, insert_id = \<lambda>_. 1, escape = id\<rparr>" "''Q''" "''y''"]
  by (simp only: length_replicate db.simps mysql.simps order_refl simp_thms)

end
