(* ===== verification/BlowfishCodec.thy ===== *)
theory BlowfishCodec
  imports Prelude
begin

text \<open>
  The radix-64 codec of \<open>src/Security/Blowfish.cpp\<close>: \<open>BF_decode\<close> and \<open>BF_encode\<close>, and the
  byte swap \<open>BF_swap\<close>. A C string is the list of its characters; reading it one past the end
  gives the NUL, which the decoder always rejects, so it never reads further.
\<close>

unbundle bit_operations_syntax

section \<open>The two tables\<close>

definition BF_itoa64 :: string where
  "BF_itoa64 = ''./ABCDEFGHIJKLMNOPQRSTUVWXYZabcdefghijklmnopqrstuvwxyz0123456789''"

definition BF_atoi64 :: "nat list" where
  "BF_atoi64 = [
     64, 64, 64, 64, 64, 64, 64, 64, 64, 64, 64, 64, 64, 64, 0, 1,
     54, 55, 56, 57, 58, 59, 60, 61, 62, 63, 64, 64, 64, 64, 64, 64,
     64, 2, 3, 4, 5, 6, 7, 8, 9, 10, 11, 12, 13, 14, 15, 16,
     17, 18, 19, 20, 21, 22, 23, 24, 25, 26, 27, 64, 64, 64, 64, 64,
     64, 28, 29, 30, 31, 32, 33, 34, 35, 36, 37, 38, 39, 40, 41, 42,
     43, 44, 45, 46, 47, 48, 49, 50, 51, 52, 53, 64, 64, 64, 64, 64]"

text \<open>
  The macro \<open>BF_safe_atoi64\<close>: it stores a value of 6 bits, leaves the loop at a dollar sign,
  or returns -1 from the function. The subtraction wraps in an \<open>unsigned int\<close>.
\<close>

datatype atoi64 = Digit u32 | Dollar | Invalid

definition safe_atoi64 :: "char \<Rightarrow> atoi64" where
  "safe_atoi64 src =
     (let tmp = uc src in
      if src = CHR ''$'' then Dollar
      else if tmp < 0x20 \<or> 0x60 \<le> tmp - 0x20 then Invalid
      else let v = BF_atoi64 ! (tmp - 0x20) in if 63 < v then Invalid else Digit (of_nat v))"

definition itoa64 :: "u32 \<Rightarrow> char" where
  "itoa64 w = BF_itoa64 ! unat w"

definition next_char :: "string \<Rightarrow> char" where
  "next_char src = (case src of [] \<Rightarrow> NUL | c # _ \<Rightarrow> c)"

section \<open>BF_decode and BF_encode\<close>

text \<open>The three bytes of a group of four digits: an \<open>unsigned int\<close> stored in a byte.\<close>

definition byte1 :: "u32 \<Rightarrow> u32 \<Rightarrow> u8" where
  "byte1 c1 c2 = ucast (push_bit 2 c1 OR drop_bit 4 (c2 AND 0x30))"
definition byte2 :: "u32 \<Rightarrow> u32 \<Rightarrow> u8" where
  "byte2 c2 c3 = ucast (push_bit 4 (c2 AND 0x0F) OR drop_bit 2 (c3 AND 0x3C))"
definition byte3 :: "u32 \<Rightarrow> u32 \<Rightarrow> u8" where
  "byte3 c3 c4 = ucast (push_bit 6 (c3 AND 0x03) OR c4)"

text \<open>
  The bytes the loop of \<open>BF_decode\<close> stores for a destination of \<open>sz\<close> bytes (at least one),
  or \<open>None\<close> where it returns -1.
\<close>

function decode_loop :: "nat \<Rightarrow> string \<Rightarrow> u8 list option" where
  "decode_loop sz src =
     (case safe_atoi64 (next_char src) of
        Invalid \<Rightarrow> None | Dollar \<Rightarrow> Some []
      | Digit c1 \<Rightarrow>
     (case safe_atoi64 (next_char (drop 1 src)) of
        Invalid \<Rightarrow> None | Dollar \<Rightarrow> Some []
      | Digit c2 \<Rightarrow>
        let b1 = byte1 c1 c2 in
        if sz \<le> 1 then Some [b1] else
     (case safe_atoi64 (next_char (drop 2 src)) of
        Invalid \<Rightarrow> None | Dollar \<Rightarrow> Some [b1]
      | Digit c3 \<Rightarrow>
        let b2 = byte2 c2 c3 in
        if sz \<le> 2 then Some [b1, b2] else
     (case safe_atoi64 (next_char (drop 3 src)) of
        Invalid \<Rightarrow> None | Dollar \<Rightarrow> Some [b1, b2]
      | Digit c4 \<Rightarrow>
        let b3 = byte3 c3 c4 in
        if sz \<le> 3 then Some [b1, b2, b3]
        else map_option (\<lambda>bs. b1 # b2 # b3 # bs) (decode_loop (sz - 3) (drop 4 src))))))"
  by pat_completeness auto
termination
  by (relation "measure fst") auto

declare decode_loop.simps [simp del]

text \<open>The second loop fills up with zero bytes what a dollar sign left open.\<close>

definition BF_decode :: "nat \<Rightarrow> string \<Rightarrow> u8 list option" where
  "BF_decode sz src = map_option (\<lambda>bs. bs @ replicate (sz - length bs) 0) (decode_loop sz src)"

fun BF_encode :: "u8 list \<Rightarrow> string" where
  "BF_encode [] = []"
| "BF_encode [a] =
     (let c1 = (ucast a :: u32) in
      [itoa64 (drop_bit 2 c1), itoa64 (push_bit 4 (c1 AND 0x03))])"
| "BF_encode [a, b] =
     (let c1 = (ucast a :: u32); c2 = (ucast b :: u32) in
      [itoa64 (drop_bit 2 c1), itoa64 (push_bit 4 (c1 AND 0x03) OR drop_bit 4 c2),
       itoa64 (push_bit 2 (c2 AND 0x0F))])"
| "BF_encode (a # b # c # src) =
     (let c1 = (ucast a :: u32); c2 = (ucast b :: u32); c3 = (ucast c :: u32) in
      [itoa64 (drop_bit 2 c1), itoa64 (push_bit 4 (c1 AND 0x03) OR drop_bit 4 c2),
       itoa64 (push_bit 2 (c2 AND 0x0F) OR drop_bit 6 c3), itoa64 (c3 AND 0x3F)] @ BF_encode src)"

section \<open>The digits are inverse to each other\<close>

lemma length_itoa64 [simp]: "length BF_itoa64 = 64"
  by (simp add: BF_itoa64_def)

lemma digits_table: "map (\<lambda>c. BF_atoi64 ! (uc c - 0x20)) BF_itoa64 = [0..<64]"
  by code_simp

lemma digits_range: "list_all (\<lambda>c. c \<noteq> CHR ''$'' \<and> 0x20 \<le> uc c \<and> uc c < 0x80) BF_itoa64"
  by code_simp

lemma atoi_nth:
  assumes "n < 64"
  shows "safe_atoi64 (BF_itoa64 ! n) = Digit (of_nat n)"
proof -
  let ?c = "BF_itoa64 ! n"
  have "?c \<noteq> CHR ''$''" "0x20 \<le> uc ?c" "uc ?c < 0x80"
    using digits_range assms by (simp_all add: list_all_length)
  moreover have "BF_atoi64 ! (uc ?c - 0x20) = n"
    using arg_cong [OF digits_table, of "\<lambda>xs. xs ! n"] assms by simp
  ultimately show ?thesis using assms by (auto simp: safe_atoi64_def Let_def)
qed

lemma atoi_itoa: "unat w < 64 \<Longrightarrow> safe_atoi64 (itoa64 w) = Digit w"
  by (simp add: itoa64_def atoi_nth)

text \<open>A value whose bits from the sixth on are clear is a digit.\<close>

lemma digit_bound: "(\<And>n. bit w n \<Longrightarrow> n < 6) \<Longrightarrow> unat (w :: u32) < 64"
proof -
  assume b: "\<And>n. bit w n \<Longrightarrow> n < 6"
  have "take_bit 6 w = w" by (rule bit_eqI) (auto simp: bit_simps dest: b)
  then have "unat w = unat (take_bit 6 w)" by simp
  also have "\<dots> = take_bit 6 (unat w)" by (rule unsigned_take_bit_eq)
  also have "\<dots> < 64" by (simp add: take_bit_eq_mod)
  finally show ?thesis .
qed

lemma byte_bit: "bit (a :: u8) n \<Longrightarrow> n < 8"
  using bit_imp_le_length [of a n] by simp

lemma below8: "n < 8 \<Longrightarrow> n = 0 \<or> n = 1 \<or> n = 2 \<or> n = 3 \<or> n = 4 \<or> n = 5 \<or> n = 6 \<or> n = (7 :: nat)"
  by linarith

lemma mask_bits:
  "bit (0x03 :: u32) n \<longleftrightarrow> n < 2" "bit (0x0F :: u32) n \<longleftrightarrow> n < 4" "bit (0x3F :: u32) n \<longleftrightarrow> n < 6"
  "bit (0x30 :: u32) n \<longleftrightarrow> n = 4 \<or> n = 5" "bit (0x3C :: u32) n \<longleftrightarrow> 2 \<le> n \<and> n < 6"
proof -
  have m: "(0x03 :: u32) = mask 2" "(0x0F :: u32) = mask 4" "(0x3F :: u32) = mask 6"
    "(0x30 :: u32) = push_bit 4 (mask 2)" "(0x3C :: u32) = push_bit 2 (mask 4)"
    by (simp_all add: mask_eq_exp_minus_1)
  show "bit (0x03 :: u32) n \<longleftrightarrow> n < 2" "bit (0x0F :: u32) n \<longleftrightarrow> n < 4" "bit (0x3F :: u32) n \<longleftrightarrow> n < 6"
    "bit (0x30 :: u32) n \<longleftrightarrow> n = 4 \<or> n = 5" "bit (0x3C :: u32) n \<longleftrightarrow> 2 \<le> n \<and> n < 6"
    unfolding m by (auto simp: bit_simps)
qed

section \<open>Three bytes are four digits\<close>

text \<open>The digits of a group; a missing byte counts as zero.\<close>

definition d1 :: "u8 \<Rightarrow> u32" where "d1 a = drop_bit 2 (ucast a)"
definition d2 :: "u8 \<Rightarrow> u8 \<Rightarrow> u32" where
  "d2 a b = push_bit 4 (ucast a AND 0x03) OR drop_bit 4 (ucast b)"
definition d3 :: "u8 \<Rightarrow> u8 \<Rightarrow> u32" where
  "d3 b c = push_bit 2 (ucast b AND 0x0F) OR drop_bit 6 (ucast c)"
definition d4 :: "u8 \<Rightarrow> u32" where "d4 c = ucast c AND 0x3F"

lemmas digit_defs = d1_def d2_def d3_def d4_def

lemma bit_digits:
  "bit (d1 a) n \<longleftrightarrow> bit a (2 + n)"
  "bit (d2 a b) n \<longleftrightarrow> 4 \<le> n \<and> n < 6 \<and> bit a (n - 4) \<or> bit b (4 + n)"
  "bit (d3 b c) n \<longleftrightarrow> 2 \<le> n \<and> n < 6 \<and> bit b (n - 2) \<or> bit c (6 + n)"
  "bit (d4 c) n \<longleftrightarrow> n < 6 \<and> bit c n"
  unfolding digit_defs bit_or_iff bit_and_iff bit_push_bit_iff bit_drop_bit_eq bit_ucast_iff comp_def mask_bits
  by (auto dest: byte_bit)

lemma digit_bounds:
  "unat (d1 a) < 64" "unat (d2 a b) < 64" "unat (d3 b c) < 64" "unat (d4 c) < 64"
  by (rule digit_bound, auto simp: bit_digits dest: byte_bit)+

lemma eight_bits: "(\<And>n. n < 8 \<Longrightarrow> bit v n \<longleftrightarrow> bit w n) \<Longrightarrow> v = (w :: u8)"
  by (rule bit_word_eqI) simp

lemmas bit_unfold = bit_or_iff bit_and_iff bit_push_bit_iff bit_drop_bit_eq bit_ucast_iff comp_def
  mask_bits bit_digits

lemma digits_back:
  "byte1 (d1 a) (d2 a b) = a" (is ?A) "byte2 (d2 a b) (d3 b c) = b" (is ?B)
  "byte3 (d3 b c) (d4 c) = c" (is ?C)
proof -
  show ?A
    by (rule eight_bits, drule below8, unfold byte1_def bit_unfold)
      (auto dest: byte_bit simp: eval_nat_numeral)
  show ?B
    by (rule eight_bits, drule below8, unfold byte2_def bit_unfold)
      (auto dest: byte_bit simp: numeral_2_eq_2 numeral_3_eq_3)
  show ?C
    by (rule eight_bits, drule below8, unfold byte3_def bit_unfold)
      (auto dest: byte_bit simp: numeral_2_eq_2 numeral_3_eq_3)
qed

section \<open>Decoding takes encoding back\<close>

lemma encode_digits:
  "BF_encode [a] = [itoa64 (d1 a), itoa64 (d2 a 0)]"
  "BF_encode [a, b] = [itoa64 (d1 a), itoa64 (d2 a b), itoa64 (d3 b 0)]"
  "BF_encode (a # b # c # bs)
     = [itoa64 (d1 a), itoa64 (d2 a b), itoa64 (d3 b c), itoa64 (d4 c)] @ BF_encode bs"
  by (simp_all add: digit_defs Let_def)

lemmas atoi_digits = digit_bounds [THEN atoi_itoa]

lemma next_char_simps [simp]: "next_char [] = NUL" "next_char (c # s) = c"
  by (simp_all add: next_char_def)

lemma decode_group:
  "decode_loop 1 (itoa64 (d1 a) # itoa64 (d2 a b) # s) = Some [a]"
  "decode_loop 2 (itoa64 (d1 a) # itoa64 (d2 a b) # itoa64 (d3 b c) # s) = Some [a, b]"
  "3 \<le> sz \<Longrightarrow> decode_loop sz (itoa64 (d1 a) # itoa64 (d2 a b) # itoa64 (d3 b c) # itoa64 (d4 c) # s)
     = (if sz = 3 then Some [a, b, c] else map_option (\<lambda>bs. a # b # c # bs) (decode_loop (sz - 3) s))"
  by (subst decode_loop.simps, simp add: atoi_digits digits_back Let_def drop_Cons')+

lemma decode_encode_loop:
  "bs \<noteq> [] \<Longrightarrow> decode_loop (length bs) (BF_encode bs @ s) = Some bs"
proof (induction bs rule: BF_encode.induct)
  case (2 a)
  then show ?case using decode_group(1) [of a 0 s] by (simp only: encode_digits) simp
next
  case (3 a b)
  then show ?case using decode_group(2) [of a b 0 s] by (simp only: encode_digits) (simp add: numeral_2_eq_2)
next
  case (4 a b c bs)
  have len: "length (a # b # c # bs) - 3 = length bs" by simp
  show ?case
    using 4 decode_group(3) [of "length (a # b # c # bs)" a b c "BF_encode bs @ s"]
    unfolding encode_digits len by (cases "bs = []") auto
qed simp

text \<open>
  Claim C9: radix-64 round trip. What \<open>BF_encode\<close> writes for a nonempty block of bytes,
  whatever follows it, \<open>BF_decode\<close> of the same size reads back as those bytes.
\<close>

theorem decode_encode:
  "BF_decode (Suc (length bs)) (BF_encode (b # bs) @ s) = Some (b # bs)"
  using decode_encode_loop [of "b # bs" s] by (simp add: BF_decode_def)

section \<open>BF_swap\<close>

definition BF_swap :: "u32 list \<Rightarrow> u32 list" where
  "BF_swap = map (\<lambda>x. let tmp = push_bit 16 x OR drop_bit 16 x in
     push_bit 8 (tmp AND 0x00FF00FF) OR (drop_bit 8 tmp AND 0x00FF00FF))"

text \<open>The words of a block of bytes in memory, and the bytes of a word, little endian.\<close>

fun load_words :: "u8 list \<Rightarrow> u32 list" where
  "load_words (a # b # c # d # bs) =
     (ucast a OR push_bit 8 (ucast b) OR push_bit 16 (ucast c) OR push_bit 24 (ucast d)) # load_words bs"
| "load_words _ = []"

definition word_bytes :: "u32 \<Rightarrow> u8 list" where
  "word_bytes w = [ucast w, ucast (drop_bit 8 w), ucast (drop_bit 16 w), ucast (drop_bit 24 w)]"

end
