(* ===== verification/Blowfish.thy ===== *)
theory Blowfish
  imports BlowfishCodec BlowfishTables
begin

text \<open>
  The password hash of \<open>src/Security/Blowfish.cpp\<close>: the block cipher macros, the key schedule
  \<open>BF_set_key\<close>, \<open>BF_crypt\<close> with its checks of the setting, the magic failure output, the
  self-test of \<open>crypt_blowfish_rn\<close> and the entry point \<open>crypt\<close>. The random indices of the
  salt are a parameter. The key and the setting of the inner functions are C strings.
\<close>

section \<open>The block cipher\<close>

record bf_ctx =
  bf_P :: "u32 list"
  bf_S :: "u32 list"

definition BF_ROUNDS :: nat where
  "BF_ROUNDS = 16"

text \<open>The macro \<open>BF_ROUND(L, R, N)\<close>: the new value of \<open>R\<close>.\<close>

definition BF_ROUND :: "bf_ctx \<Rightarrow> u32 \<Rightarrow> u32 \<Rightarrow> nat \<Rightarrow> u32" where
  "BF_ROUND ctx L R N =
     (let tmp1 = unat (L AND 0xFF);
          tmp2 = unat (drop_bit 8 L AND 0xFF);
          tmp3 = unat (drop_bit 16 L AND 0xFF);
          tmp4 = unat (drop_bit 24 L);
          s1 = bf_S ctx ! (0x300 + tmp1);
          s2 = bf_S ctx ! (0x200 + tmp2);
          s3 = ((bf_S ctx ! (0x100 + tmp3) + bf_S ctx ! tmp4) XOR s2) + s1
      in (R XOR bf_P ctx ! (N + 1)) XOR s3)"

text \<open>The rounds of \<open>BF_ENCRYPT_1B\<close>: the even ones change \<open>R\<close>, the odd ones \<open>L\<close>.\<close>

fun bf_rounds :: "bf_ctx \<Rightarrow> nat list \<Rightarrow> u32 \<times> u32 \<Rightarrow> u32 \<times> u32" where
  "bf_rounds ctx [] LR = LR"
| "bf_rounds ctx (N # Ns) (L, R) =
     bf_rounds ctx Ns (if even N then (L, BF_ROUND ctx L R N) else (BF_ROUND ctx R L N, R))"

definition BF_ENCRYPT_1B :: "bf_ctx \<Rightarrow> u32 \<times> u32 \<Rightarrow> u32 \<times> u32" where
  "BF_ENCRYPT_1B ctx LR =
     (let (L, R) = bf_rounds ctx [0..<BF_ROUNDS] (fst LR XOR bf_P ctx ! 0, snd LR)
      in (R XOR bf_P ctx ! (BF_ROUNDS + 1), L))"

section \<open>The key schedule\<close>

text \<open>
  The characters the pointer of \<open>BF_set_key\<close> reads: it runs through the key with its NUL and
  goes back to the start behind it.
\<close>

fun key_reads :: "string \<Rightarrow> nat \<Rightarrow> nat \<Rightarrow> char list" where
  "key_reads key ptr 0 = []"
| "key_reads key ptr (Suc n) =
     (let c = (if ptr < length key then key ! ptr else NUL)
      in c # key_reads key (if c = NUL then 0 else ptr + 1) n)"

text \<open>The inner loop over \<open>j\<close>: the correct word, the word with the sign extension, and the flag.\<close>

fun key_word :: "char list \<Rightarrow> nat \<Rightarrow> u32 \<Rightarrow> u32 \<Rightarrow> u32 \<Rightarrow> u32 \<times> u32 \<times> u32" where
  "key_word [] j tmp0 tmp1 sign = (tmp0, tmp1, sign)"
| "key_word (c # cs) j tmp0 tmp1 sign =
     (let tmp0' = push_bit 8 tmp0 OR of_nat (uc c);
          tmp1' = push_bit 8 tmp1 OR of_int (sc c)
      in key_word cs (j + 1) tmp0' tmp1' (if j \<noteq> 0 then sign OR (tmp1' AND 0x80) else sign))"

text \<open>The loop over \<open>i\<close>, one word of \<open>bf_init.P\<close> each: expanded and initial key, sign and diff.\<close>

fun key_loop :: "bool \<Rightarrow> u32 list \<Rightarrow> char list \<Rightarrow> u32 \<Rightarrow> u32 \<Rightarrow> u32 list \<times> u32 list \<times> u32 \<times> u32" where
  "key_loop bug [] cs sign diff = ([], [], sign, diff)"
| "key_loop bug (p # ps) cs sign diff =
     (let (tmp0, tmp1, sign') = key_word (take 4 cs) 0 0 0 sign;
          w = (if bug then tmp1 else tmp0);
          (expanded, initial, sign'', diff'') = key_loop bug ps (drop 4 cs) sign' (diff OR (tmp0 XOR tmp1))
      in (w # expanded, (p XOR w) # initial, sign'', diff''))"

definition BF_set_key :: "string \<Rightarrow> u8 \<Rightarrow> u32 list \<times> u32 list" where
  "BF_set_key key flags =
     (let bug = (flags AND 1 \<noteq> 0);
          safety = push_bit 15 (ucast flags AND 2) :: u32;
          (expanded, initial, sign, diff) =
             key_loop bug bf_init_P (key_reads key 0 (4 * (BF_ROUNDS + 2))) 0 0;
          diff1 = diff OR drop_bit 16 diff;
          diff2 = diff1 AND 0xFFFF;
          diff3 = diff2 + 0xFFFF;
          sign1 = push_bit 9 sign;
          sign2 = sign1 AND (NOT diff3 AND safety)
      in (expanded, initial[0 := initial ! 0 XOR sign2]))"

section \<open>BF_crypt\<close>

text \<open>
  Encrypt the running block and store it in two neighbouring words of \<open>P\<close> or of \<open>S\<close>. The
  index lists are those of the loops: 9 steps over \<open>P\<close>, 512 over \<open>S\<close>.
\<close>

definition store_P :: "bf_ctx \<times> u32 \<times> u32 \<Rightarrow> nat \<Rightarrow> bf_ctx \<times> u32 \<times> u32" where
  "store_P st i =
     (case st of (ctx, L, R) \<Rightarrow>
        let (L', R') = BF_ENCRYPT_1B ctx (L, R)
        in (ctx\<lparr>bf_P := (bf_P ctx)[i := L', i + 1 := R']\<rparr>, L', R'))"

definition store_S :: "bf_ctx \<times> u32 \<times> u32 \<Rightarrow> nat \<Rightarrow> bf_ctx \<times> u32 \<times> u32" where
  "store_S st i =
     (case st of (ctx, L, R) \<Rightarrow>
        let (L', R') = BF_ENCRYPT_1B ctx (L, R)
        in (ctx\<lparr>bf_S := (bf_S ctx)[i := L', i + 1 := R']\<rparr>, L', R'))"

definition evens :: "nat \<Rightarrow> nat list" where
  "evens n = map (\<lambda>k. 2 * k) [0..<n]"

definition BF_body :: "bf_ctx \<Rightarrow> bf_ctx" where
  "BF_body ctx = fst (foldl store_S (foldl store_P (ctx, 0, 0) (evens 9)) (evens 512))"

text \<open>The first schedule mixes the salt in: \<open>salt[i&2]\<close> for \<open>P\<close>, and 2, 3, 0, 1 in turn for \<open>S\<close>.\<close>

definition mix :: "u32 list \<Rightarrow> nat \<Rightarrow> bf_ctx \<times> u32 \<times> u32 \<Rightarrow> bf_ctx \<times> u32 \<times> u32" where
  "mix salt k st = (case st of (ctx, L, R) \<Rightarrow> (ctx, L XOR salt ! k, R XOR salt ! (k + 1)))"

definition salted_P :: "u32 list \<Rightarrow> bf_ctx \<times> u32 \<times> u32 \<Rightarrow> nat \<Rightarrow> bf_ctx \<times> u32 \<times> u32" where
  "salted_P salt st i = store_P (mix salt (i mod 4) st) i"

definition salted_S :: "u32 list \<Rightarrow> bf_ctx \<times> u32 \<times> u32 \<Rightarrow> nat \<Rightarrow> bf_ctx \<times> u32 \<times> u32" where
  "salted_S salt st i = store_S (mix salt ((i + 2) mod 4) st) i"

definition salted_body :: "u32 list \<Rightarrow> bf_ctx \<Rightarrow> bf_ctx" where
  "salted_body salt ctx =
     fst (foldl (salted_S salt) (foldl (salted_P salt) (ctx, 0, 0) (evens 9)) (evens 512))"

definition xor_key :: "u32 list \<Rightarrow> bf_ctx \<Rightarrow> bf_ctx" where
  "xor_key expanded ctx = ctx\<lparr>bf_P := map2 (XOR) (bf_P ctx) expanded\<rparr>"

definition xor_salt :: "u32 list \<Rightarrow> bf_ctx \<Rightarrow> bf_ctx" where
  "xor_salt salt ctx =
     ctx\<lparr>bf_P := map (\<lambda>i. bf_P ctx ! i XOR salt ! (i mod 4)) [0..<BF_ROUNDS + 2]\<rparr>"

text \<open>The main loop: \<open>count\<close> times the key, the body, the salt, the body.\<close>

fun cost_loop :: "u32 list \<Rightarrow> u32 list \<Rightarrow> nat \<Rightarrow> bf_ctx \<Rightarrow> bf_ctx" where
  "cost_loop expanded salt 0 ctx = ctx"
| "cost_loop expanded salt (Suc n) ctx =
     cost_loop expanded salt n (BF_body (xor_salt salt (BF_body (xor_key expanded ctx))))"

definition BF_magic_w :: "u32 list" where
  "BF_magic_w = [0x4F727068, 0x65616E42, 0x65686F6C, 0x64657253, 0x63727944, 0x6F756274]"

definition magic_block :: "bf_ctx \<Rightarrow> nat \<Rightarrow> u32 list" where
  "magic_block ctx i =
     (let (L, R) = ((BF_ENCRYPT_1B ctx) ^^ 64) (BF_magic_w ! i, BF_magic_w ! (i + 1)) in [L, R])"

definition bf_hash :: "string \<Rightarrow> u8 \<Rightarrow> nat \<Rightarrow> u32 list \<Rightarrow> u32 list" where
  "bf_hash key flags count salt =
     (let (expanded, initial) = BF_set_key key flags;
          ctx = cost_loop expanded salt count (salted_body salt \<lparr>bf_P = initial, bf_S = bf_init_S\<rparr>)
      in concat (map (magic_block ctx) [0, 2, 4]))"

definition flags_by_subtype :: "nat list" where
  "flags_by_subtype = [2, 4, 0, 0, 0, 0, 0, 0, 0, 0, 0, 0, 0, 0, 0, 0, 0, 0, 0, 0, 0, 0, 0, 1, 4, 0]"

text \<open>
  The test of the first seven characters of the setting. The tests run from left to right and
  the NUL fails each of them, so nothing is read behind it.
\<close>

definition setting_char :: "string \<Rightarrow> nat \<Rightarrow> char" where
  "setting_char setting i = (if i < length setting then setting ! i else NUL)"

definition setting_ok :: "string \<Rightarrow> bool" where
  "setting_ok setting =
     (let s = (\<lambda>i. uc (setting_char setting i)) in
      setting_char setting 0 = CHR ''$'' \<and> setting_char setting 1 = CHR ''2''
    \<and> (97 \<le> s 2 \<and> s 2 \<le> 122 \<and> flags_by_subtype ! (s 2 - 97) \<noteq> 0)
    \<and> setting_char setting 3 = CHR ''$''
    \<and> (48 \<le> s 4 \<and> s 4 \<le> 51) \<and> (48 \<le> s 5 \<and> s 5 \<le> 57) \<and> \<not> (s 4 = 51 \<and> 49 < s 5)
    \<and> setting_char setting 6 = CHR ''$'')"

definition setting_flags :: "string \<Rightarrow> u8" where
  "setting_flags setting = of_nat (flags_by_subtype ! (uc (setting_char setting 2) - 97))"

definition setting_count :: "string \<Rightarrow> nat" where
  "setting_count setting =
     2 ^ ((uc (setting_char setting 4) - 48) * 10 + (uc (setting_char setting 5) - 48))"

text \<open>
  The result: a hash, the null pointer with \<open>errno\<close> set, or undefined behaviour, which the
  copy of the setting runs into when a dollar sign has ended the salt early: \<open>memcpy\<close> then
  reads behind the setting, or the last character of the salt is no index of \<open>BF_atoi64\<close>.
\<close>

datatype bf_result = Hash string | Null | Bf_undefined

definition last_salt_char :: "char \<Rightarrow> char option" where
  "last_salt_char c =
     (if 0x20 \<le> uc c \<and> uc c < 0x80
      then Some (itoa64 (of_nat (BF_atoi64 ! (uc c - 0x20)) AND 0x30)) else None)"

definition BF_crypt :: "string \<Rightarrow> string \<Rightarrow> nat \<Rightarrow> nat \<Rightarrow> bf_result" where
  "BF_crypt key setting sz min_count =
     (if sz < 7 + 22 + 31 + 1 then Null
      else if \<not> setting_ok setting then Null
      else if setting_count setting < min_count then Null
      else case BF_decode 16 (drop 7 setting) of
          None \<Rightarrow> Null
        | Some bytes \<Rightarrow>
            if length setting < 28 then Bf_undefined
            else case last_salt_char (setting_char setting 28) of
                None \<Rightarrow> Bf_undefined
              | Some c \<Rightarrow>
                  let salt = BF_swap (load_words bytes);
                      words = bf_hash key (setting_flags setting) (setting_count setting) salt
                  in Hash (take 28 setting @ [c]
                       @ BF_encode (take 23 (concat (map word_bytes (BF_swap words))))))"

section \<open>The entry points\<close>

definition crypt_output_magic :: "string \<Rightarrow> string" where
  "crypt_output_magic setting =
     (if setting_char setting 0 = CHR ''*'' \<and> setting_char setting 1 = CHR ''0''
      then ''*1'' else ''*0'')"

definition test_key :: string where
  "test_key = ''8b '' @ [CHR 0xD0, CHR 0xC1, CHR 0xD2, CHR 0xCF, CHR 0xCC, CHR 0xD8]"

definition test_setting :: string where
  "test_setting = ''$2a$00$abcdefghijklmnopqrstuu''"

definition test_hashes :: "string list" where
  "test_hashes = [''i1D709vfamulimlGcq0qq3UvuUasvEa'', ''VUrPmXD6q/nVSSp7pNDhCR9071IfIRe'']"

definition test_key2 :: string where
  "test_key2 = [CHR 0xFF, CHR 0xA3, CHR ''3'', CHR ''4'', CHR 0xFF, CHR 0xFF, CHR 0xFF, CHR 0xA3,
     CHR ''3'', CHR ''4'', CHR ''5'']"

text \<open>The second part of the self-test compares two runs of the key schedule.\<close>

definition selftest_keys :: bool where
  "selftest_keys =
     (let (ae, ai) = BF_set_key test_key2 2;
          (ye, yi) = BF_set_key test_key2 4;
          ai' = ai[0 := ai ! 0 XOR 0x10000]
      in ai' ! 0 = 0xdb9c59bc \<and> ye ! 17 = 0x33343500 \<and> ae = ye \<and> ai' = yi)"

definition selftest_hash :: "string \<Rightarrow> nat \<Rightarrow> bool" where
  "selftest_hash s k =
     (case BF_crypt test_key s 61 1 of
        Hash h \<Rightarrow> take 29 h = take 29 s \<and> drop 29 h = test_hashes ! k
      | _ \<Rightarrow> False)"

text \<open>
  What \<open>crypt_blowfish_rn\<close> leaves in \<open>output\<close>; \<open>None\<close> for undefined behaviour. When the hash
  fails the magic written before stays there.
\<close>

definition crypt_blowfish_rn :: "string \<Rightarrow> string \<Rightarrow> nat \<Rightarrow> string option" where
  "crypt_blowfish_rn key setting sz =
     (let retval = BF_crypt key setting sz 16;
          subtype = (if retval \<noteq> Null then setting_char setting 2 else CHR ''a'');
          k = (if retval \<noteq> Null then flags_by_subtype ! (uc (setting_char setting 2) - 97) mod 2 else 0);
          ok = selftest_hash (test_setting[2 := subtype]) k \<and> selftest_keys
      in case retval of
           Bf_undefined \<Rightarrow> None
         | Null \<Rightarrow> Some (crypt_output_magic setting)
         | Hash h \<Rightarrow> Some (if ok then h else crypt_output_magic setting))"

definition salt_chars :: string where
  "salt_chars = ''abcdefghijklmnopqrstuvwxyzABCDEFGHIJKLMNOPQRSTUVWXYZ1234567890./''"

text \<open>\<open>crypt\<close>; \<open>index_dist i\<close> is the \<open>i\<close>th value of the random distribution over 0 to 63.\<close>

definition blowfish_crypt :: "(nat \<Rightarrow> nat) \<Rightarrow> string \<Rightarrow> string \<Rightarrow> string option" where
  "blowfish_crypt index_dist password algo =
     (let setting = (if algo = [] then ''$2y$10$'' @ map (\<lambda>i. salt_chars ! index_dist i) [0..<22]
                     else algo)
      in crypt_blowfish_rn (c_str password) (c_str setting) 61)"

section \<open>The cipher is a permutation\<close>

text \<open>
  A Feistel network in general: each round adds to one half a value computed from the other
  half alone, so doing it twice changes nothing, and the rounds in the reverse order undo them.
\<close>

locale feistel =
  fixes add :: "u32 \<Rightarrow> u32 \<Rightarrow> nat \<Rightarrow> u32"
    and rounds :: "nat list \<Rightarrow> u32 \<times> u32 \<Rightarrow> u32 \<times> u32"
  assumes add_twice: "add x (add x y n) n = y"
    and rounds_Nil: "rounds [] p = p"
    and rounds_Cons: "rounds (n # ns) (l, r) = rounds ns (if even n then (l, add l r n) else (add r l n, r))"
begin

lemma rounds_append: "rounds (ns @ ms) p = rounds ms (rounds ns p)"
proof (induction ns arbitrary: p)
  case (Cons n ns)
  then show ?case by (cases p) (simp add: rounds_Cons)
qed (simp add: rounds_Nil)

lemma round_twice: "rounds [n] (rounds [n] p) = p"
  by (cases p) (simp add: rounds_Cons rounds_Nil add_twice)

lemma rounds_rev: "rounds (rev ns) (rounds ns p) = p"
proof (induction ns arbitrary: p)
  case (Cons n ns)
  have "rounds (n # ns) p = rounds ns (rounds [n] p)" using rounds_append [of "[n]" ns p] by simp
  then show ?case using Cons by (simp add: rounds_append round_twice)
qed (simp add: rounds_Nil)

lemma rev_rounds: "rounds ns (rounds (rev ns) p) = p"
  using rounds_rev [of "rev ns" p] by simp

end

lemma BF_ROUND_twice: "BF_ROUND ctx L (BF_ROUND ctx L R N) N = R"
  by (simp add: BF_ROUND_def Let_def xor.assoc xor.left_commute)

interpretation bf: feistel "BF_ROUND ctx" "bf_rounds ctx" for ctx
  by unfold_locales (simp_all add: BF_ROUND_twice)

text \<open>Decryption, which the program does not need: the rounds backwards.\<close>

definition bf_decrypt :: "bf_ctx \<Rightarrow> u32 \<times> u32 \<Rightarrow> u32 \<times> u32" where
  "bf_decrypt ctx LR =
     (let (L, R) = bf_rounds ctx (rev [0..<BF_ROUNDS]) (snd LR, fst LR XOR bf_P ctx ! (BF_ROUNDS + 1))
      in (L XOR bf_P ctx ! 0, R))"

text \<open>
  Claim C7: for every content of the tables, one block encryption is a permutation of the
  64-bit blocks: running the rounds backwards undoes it and it undoes that.
\<close>

theorem cipher_permutation:
  "bf_decrypt ctx (BF_ENCRYPT_1B ctx LR) = LR \<and> BF_ENCRYPT_1B ctx (bf_decrypt ctx LR) = LR"
proof
  obtain L R where e: "bf_rounds ctx [0..<BF_ROUNDS] (fst LR XOR bf_P ctx ! 0, snd LR) = (L, R)"
    by fastforce
  then have "bf_rounds ctx (rev [0..<BF_ROUNDS]) (L, R) = (fst LR XOR bf_P ctx ! 0, snd LR)"
    by (metis bf.rounds_rev)
  then show "bf_decrypt ctx (BF_ENCRYPT_1B ctx LR) = LR"
    using e by (simp add: bf_decrypt_def BF_ENCRYPT_1B_def xor.assoc)
  obtain L' R' where d: "bf_rounds ctx (rev [0..<BF_ROUNDS])
      (snd LR, fst LR XOR bf_P ctx ! (BF_ROUNDS + 1)) = (L', R')"
    by fastforce
  then have "bf_rounds ctx [0..<BF_ROUNDS] (L', R') = (snd LR, fst LR XOR bf_P ctx ! (BF_ROUNDS + 1))"
    by (metis bf.rev_rounds)
  then show "BF_ENCRYPT_1B ctx (bf_decrypt ctx LR) = LR"
    using d by (simp add: bf_decrypt_def BF_ENCRYPT_1B_def xor.assoc)
qed

section \<open>Which part of a password counts\<close>

lemma key_reads_inside:
  "NUL \<notin> set key \<Longrightarrow> ptr + n \<le> length key \<Longrightarrow> key_reads key ptr n = take n (drop ptr key)"
proof (induction key ptr n rule: key_reads.induct)
  case (2 key ptr n)
  then have "key ! ptr \<noteq> NUL" "ptr < length key" by (auto simp: in_set_conv_nth)
  with 2 show ?case by (simp add: Let_def Cons_nth_drop_Suc [symmetric])
qed simp

lemma set_key_72:
  assumes "NUL \<notin> set key"
  shows "BF_set_key (take 72 key) flags = BF_set_key key flags"
proof (cases "length key \<le> 72")
  case False
  moreover have "NUL \<notin> set (take 72 key)" using assms in_set_takeD by metis
  ultimately have "key_reads (take 72 key) 0 72 = key_reads key 0 72"
    using assms by (simp add: key_reads_inside)
  then show ?thesis by (simp add: BF_set_key_def BF_ROUNDS_def)
qed simp

lemma BF_crypt_72: "NUL \<notin> set key \<Longrightarrow> BF_crypt (take 72 key) setting sz m = BF_crypt key setting sz m"
  by (simp add: BF_crypt_def bf_hash_def set_key_72 Let_def split: option.split)

lemma c_str_take: "c_str (take n s) = take n (c_str s)"
  by (induction s arbitrary: n) (auto simp: c_str_def take_Cons' split: nat.split)

lemma NUL_c_str: "NUL \<notin> set (c_str s)"
  by (auto simp: c_str_def dest: set_takeWhileD)

text \<open>
  Only the first 72 characters of a password count: for every setting and every
  salt, \<open>crypt\<close> gives two passwords with the same first 72 characters the same result.
\<close>

theorem crypt_first_72:
  "blowfish_crypt index_dist (take 72 password) algo = blowfish_crypt index_dist password algo"
  by (simp add: blowfish_crypt_def crypt_blowfish_rn_def c_str_take BF_crypt_72 NUL_c_str)

section \<open>The sign extension bug of old hashes\<close>

lemma sc_ascii: "uc c < 128 \<Longrightarrow> sc c = int (uc c)"
  by (simp add: sc_def)

lemma no_sign_bit: "n < 128 \<Longrightarrow> (push_bit 8 t OR of_nat n) AND 0x80 = (0 :: u32)"
proof -
  assume n: "n < 128"
  have "\<not> bit n 7" using n by (simp add: bit_iff_odd)
  then have "\<not> bit (push_bit 8 t OR of_nat n :: u32) 7"
    by (simp add: bit_simps)
  then have "(push_bit 8 t OR of_nat n :: u32) AND 2 ^ 7 = 0"
    by (simp only: and_exp_eq_0_iff_not_bit not_False_eq_True)
  moreover have "(2 :: u32) ^ 7 = 0x80" by simp
  ultimately show ?thesis by (simp only:)
qed

lemma key_word_ascii:
  "list_all (\<lambda>c. uc c < 128) cs \<Longrightarrow> \<exists>w. key_word cs j t t sign = (w, w, sign)"
proof (induction cs arbitrary: j t)
  case (Cons c cs)
  then have c: "uc c < 128" "(of_int (sc c) :: u32) = of_nat (uc c)" by (simp_all add: sc_ascii)
  then show ?case
    using Cons no_sign_bit [OF c(1), of t] by (simp add: Let_def)
qed simp

lemma key_loop_ascii:
  "list_all (\<lambda>c. uc c < 128) cs \<Longrightarrow>
     \<exists>e i. \<forall>bug. key_loop bug ps cs sign diff = (e, i, sign, diff)"
proof (induction ps arbitrary: cs)
  case (Cons p ps)
  obtain w where w: "key_word (take 4 cs) 0 0 0 sign = (w, w, sign)"
    using key_word_ascii [of "take 4 cs"] Cons.prems by (metis append_take_drop_id list_all_append)
  obtain e i where "\<forall>bug. key_loop bug ps (drop 4 cs) sign diff = (e, i, sign, diff)"
    using Cons by (metis append_take_drop_id list_all_append)
  with w show ?case by simp
qed simp

lemma key_reads_ascii:
  "list_all (\<lambda>c. uc c < 128) key \<Longrightarrow> list_all (\<lambda>c. uc c < 128) (key_reads key ptr n)"
  by (induction key ptr n rule: key_reads.induct) (auto simp: Let_def list_all_iff)

text \<open>
  Claim C8: for a password with no byte from 128 on, the three variants of the key schedule,
  for the subtypes \<open>a\<close> (with the collision safety), \<open>x\<close> (with the sign extension bug) and
  \<open>y\<close>, compute the same keys: the compatibility code concerns other passwords only.
\<close>

theorem set_key_ascii_agree:
  assumes "list_all (\<lambda>c. uc c < 128) key"
  shows "BF_set_key key 2 = BF_set_key key 4 \<and> BF_set_key key 1 = BF_set_key key 4"
proof -
  obtain e i where "\<forall>bug. key_loop bug bf_init_P (key_reads key 0 (4 * (BF_ROUNDS + 2))) 0 0 = (e, i, 0, 0)"
    using key_loop_ascii [OF key_reads_ascii [OF assms]] by blast
  then show ?thesis by (simp add: BF_set_key_def Let_def)
qed

theorem set_key_ascii_agree_witness:
  "BF_set_key ''secret'' 2 = BF_set_key ''secret'' 4 \<and> BF_set_key ''secret'' 1 = BF_set_key ''secret'' 4"
  by (rule set_key_ascii_agree) (simp add: uc_def)

section \<open>A hash verifies the password it was made from\<close>

text \<open>
  The last character of the salt keeps two of its six bits; \<open>decode\<close> looks at no others.
\<close>

definition same_tail :: "char \<Rightarrow> char \<Rightarrow> bool" where
  "same_tail x y \<longleftrightarrow> (\<forall>v. safe_atoi64 x = Digit v \<longrightarrow>
     (\<exists>w. safe_atoi64 y = Digit w \<and> w AND 0x30 = v AND 0x30))"

lemma byte1_same: "w AND 0x30 = v AND 0x30 \<Longrightarrow> byte1 c w = byte1 c v"
  by (simp only: byte1_def)

lemma low_digit: "unat ((v :: u32) AND 0x30) < 64"
  by (rule digit_bound, unfold bit_and_iff mask_bits) auto

lemma decode_four:
  "3 < sz \<Longrightarrow> decode_loop sz (a # b # c # d # s) =
     (case safe_atoi64 a of Invalid \<Rightarrow> None | Dollar \<Rightarrow> Some []
      | Digit c1 \<Rightarrow> (case safe_atoi64 b of Invalid \<Rightarrow> None | Dollar \<Rightarrow> Some []
      | Digit c2 \<Rightarrow> (case safe_atoi64 c of Invalid \<Rightarrow> None | Dollar \<Rightarrow> Some [byte1 c1 c2]
      | Digit c3 \<Rightarrow> (case safe_atoi64 d of Invalid \<Rightarrow> None | Dollar \<Rightarrow> Some [byte1 c1 c2, byte2 c2 c3]
      | Digit c4 \<Rightarrow> map_option (\<lambda>bs. byte1 c1 c2 # byte2 c2 c3 # byte3 c3 c4 # bs)
                      (decode_loop (sz - 3) s)))))"
  by (subst decode_loop.simps) (simp add: drop_Cons' Let_def split: atoi64.split)

lemma list4: "length xs = 4 + n \<Longrightarrow> \<exists>a b c d ys. xs = a # b # c # d # ys \<and> length ys = n"
  by (auto simp: length_Suc_conv eval_nat_numeral)

lemma decode_tail:
  assumes "length pre = 4 * k + 1" "safe_atoi64 x \<noteq> Dollar" "same_tail x y"
    and "decode_loop (3 * k + 1) (pre @ x # s) = Some bs"
  shows "decode_loop (3 * k + 1) (pre @ y # t) = Some bs"
  using assms
proof (induction k arbitrary: pre bs)
  case 0
  then obtain c where "pre = [c]" by (auto simp: length_Suc_conv)
  with 0 show ?case
    by (subst decode_loop.simps, subst (asm) decode_loop.simps)
      (auto simp: Let_def same_tail_def intro: byte1_same split: atoi64.splits)
next
  case (Suc k)
  then obtain a b c d pre' where pre: "pre = a # b # c # d # pre'" "length pre' = 4 * k + 1"
    using that list4 [of pre "4 * k + 1"] by auto
  have step: "3 * Suc k + 1 - 3 = 3 * k + 1" by simp
  have IH: "decode_loop (3 * k + 1) (pre' @ y # t) = Some cs"
    if "decode_loop (3 * k + 1) (pre' @ x # s) = Some cs" for cs
    using Suc.IH [OF pre(2) Suc.prems(2,3) that] .
  have four: "decode_loop (3 * Suc k + 1) (a # b # c # d # u)
     = (case safe_atoi64 a of Invalid \<Rightarrow> None | Dollar \<Rightarrow> Some []
      | Digit c1 \<Rightarrow> (case safe_atoi64 b of Invalid \<Rightarrow> None | Dollar \<Rightarrow> Some []
      | Digit c2 \<Rightarrow> (case safe_atoi64 c of Invalid \<Rightarrow> None | Dollar \<Rightarrow> Some [byte1 c1 c2]
      | Digit c3 \<Rightarrow> (case safe_atoi64 d of Invalid \<Rightarrow> None | Dollar \<Rightarrow> Some [byte1 c1 c2, byte2 c2 c3]
      | Digit c4 \<Rightarrow> map_option (\<lambda>bs. byte1 c1 c2 # byte2 c2 c3 # byte3 c3 c4 # bs)
                      (decode_loop (3 * k + 1) u)))))" for u
    unfolding step [symmetric] by (rule decode_four) simp
  show ?case
    using Suc.prems(4) IH unfolding pre(1) append_Cons four
    by (cases "safe_atoi64 a"; cases "safe_atoi64 b"; cases "safe_atoi64 c"; cases "safe_atoi64 d")
      (simp_all del: mult_Suc_right, auto)
qed

lemma last_salt_same_tail: "last_salt_char x = Some y \<Longrightarrow> same_tail x y"
proof -
  assume y: "last_salt_char x = Some y"
  have "\<exists>w. safe_atoi64 y = Digit w \<and> w AND 0x30 = v AND 0x30" if "safe_atoi64 x = Digit v" for v
  proof -
    have v: "v = of_nat (BF_atoi64 ! (uc x - 0x20))"
      using that by (auto simp: safe_atoi64_def Let_def split: if_splits)
    have "unat (v AND 0x30) < 64" by (rule low_digit)
    then have "safe_atoi64 y = Digit (v AND 0x30)"
      using y v by (auto simp: last_salt_char_def atoi_itoa split: if_splits)
    then show ?thesis by (simp add: and.assoc)
  qed
  then show ?thesis by (simp add: same_tail_def)
qed

lemma last_salt_idem:
  assumes "last_salt_char x = Some y"
  shows "last_salt_char y = Some y \<and> y \<in> set BF_itoa64"
proof -
  let ?v = "of_nat (BF_atoi64 ! (uc x - 0x20)) AND 0x30 :: u32"
  have y: "y = itoa64 ?v" using assms by (auto simp: last_salt_char_def split: if_splits)
  have lt: "unat ?v < 64" by (rule low_digit)
  have mem: "y \<in> set BF_itoa64" using lt by (simp add: y itoa64_def)
  have "safe_atoi64 y = Digit ?v" using y atoi_itoa [OF lt] by simp
  then have "of_nat (BF_atoi64 ! (uc y - 0x20)) = ?v"
    by (auto simp: safe_atoi64_def Let_def split: if_splits)
  moreover have "0x20 \<le> uc y" "uc y < 0x80"
    using mem digits_range by (auto simp: list_all_iff)
  ultimately have "last_salt_char y = Some (itoa64 (?v AND 0x30))"
    by (simp add: last_salt_char_def)
  then show ?thesis using y mem by (simp add: and.assoc)
qed

lemma BF_crypt_Hash_iff:
  "BF_crypt key setting sz m = Hash h \<longleftrightarrow>
     61 \<le> sz \<and> setting_ok setting \<and> m \<le> setting_count setting \<and> 28 \<le> length setting
     \<and> (\<exists>bytes c. BF_decode 16 (drop 7 setting) = Some bytes
          \<and> last_salt_char (setting_char setting 28) = Some c
          \<and> h = take 28 setting @ [c] @ BF_encode (take 23 (concat (map word_bytes (BF_swap
               (bf_hash key (setting_flags setting) (setting_count setting) (BF_swap (load_words bytes))))))))"
  by (auto simp: BF_crypt_def Let_def split: option.splits)

lemma setting_agree:
  "take 28 s = take 28 t \<Longrightarrow> 28 \<le> length s \<Longrightarrow> 28 \<le> length t \<Longrightarrow> i < 28
     \<Longrightarrow> setting_char s i = setting_char t i"
  unfolding setting_char_def by (metis nth_take order.strict_trans2)

lemma BF_crypt_own:
  assumes "BF_crypt key setting sz m = Hash h" and "setting_char setting 28 \<noteq> CHR ''$''"
  shows "BF_crypt key h sz m = Hash h"
proof -
  obtain bytes c where d: "BF_decode 16 (drop 7 setting) = Some bytes"
    and c: "last_salt_char (setting_char setting 28) = Some c"
    and h: "h = take 28 setting @ [c] @ BF_encode (take 23 (concat (map word_bytes (BF_swap
               (bf_hash key (setting_flags setting) (setting_count setting) (BF_swap (load_words bytes)))))))"
    and ok: "61 \<le> sz" "setting_ok setting" "m \<le> setting_count setting" "28 \<le> length setting"
    using assms(1) unfolding BF_crypt_Hash_iff by blast
  have len: "28 < length setting"
  proof (rule ccontr)
    assume "\<not> 28 < length setting"
    then have "setting_char setting 28 = NUL" by (simp add: setting_char_def)
    then show False using c by (simp add: last_salt_char_def)
  qed
  have hlen: "28 < length h" and htake: "take 28 h = take 28 setting" and h28: "setting_char h 28 = c"
    using h ok(4) by (simp_all add: setting_char_def nth_append)
  have agree: "setting_char h i = setting_char setting i" if "i < 28" for i
    using setting_agree [OF htake] hlen ok(4) that by simp
  have same: "setting_ok h" "setting_count h = setting_count setting" "setting_flags h = setting_flags setting"
    using ok(2) by (simp_all add: setting_ok_def setting_count_def setting_flags_def agree)
  let ?pre = "drop 7 (take 28 setting)" and ?x = "setting_char setting 28"
  have split: "drop 7 setting = ?pre @ ?x # drop 29 setting"
  proof -
    have "setting = take 28 setting @ setting ! 28 # drop 29 setting"
      using len id_take_nth_drop [of 28 setting] by simp
    then have "drop 7 setting = drop 7 (take 28 setting @ setting ! 28 # drop 29 setting)" by simp
    also have "\<dots> = ?pre @ setting ! 28 # drop 29 setting" using ok(4) by simp
    finally show ?thesis using len by (simp add: setting_char_def)
  qed
  have splith: "drop 7 h = ?pre @ c # drop 29 h"
  proof -
    have "h = take 28 setting @ c # drop 29 h"
      using hlen htake h28 id_take_nth_drop [of 28 h] by (simp add: setting_char_def)
    then have "drop 7 h = drop 7 (take 28 setting @ c # drop 29 h)" by simp
    also have "\<dots> = ?pre @ c # drop 29 h" using ok(4) by simp
    finally show ?thesis .
  qed
  have nd: "safe_atoi64 ?x \<noteq> Dollar"
    using assms(2) by (auto simp: safe_atoi64_def Let_def split: if_splits)
  have pre: "length ?pre = 4 * 5 + 1" using ok(4) by simp
  obtain bs where bs: "decode_loop 16 (drop 7 setting) = Some bs"
      "bytes = bs @ replicate (16 - length bs) 0"
    using d by (auto simp: BF_decode_def)
  then have "decode_loop (3 * 5 + 1) (?pre @ ?x # drop 29 setting) = Some bs" using split by simp
  then have "decode_loop (3 * 5 + 1) (?pre @ c # drop 29 h) = Some bs"
    by (rule decode_tail [OF pre nd last_salt_same_tail [OF c]])
  then have "BF_decode 16 (drop 7 h) = Some bytes" using splith bs(2) by (simp add: BF_decode_def)
  moreover have "last_salt_char (setting_char h 28) = Some c" using last_salt_idem [OF c] h28 by simp
  ultimately show ?thesis
    unfolding BF_crypt_Hash_iff using ok same h hlen htake by auto
qed

section \<open>The salts and hashes of crypt\<close>

lemma length_encode: "length (BF_encode bs) = (4 * length bs + 2) div 3"
proof (induction bs rule: BF_encode.induct)
  case (4 a b c bs)
  then show ?case unfolding encode_digits by simp
qed (simp_all add: Let_def)

lemma set_encode: "set (BF_encode bs) \<subseteq> set BF_itoa64"
proof (induction bs rule: BF_encode.induct)
  case (4 a b c bs)
  then show ?case unfolding encode_digits by (auto simp: itoa64_def digit_bounds)
qed (auto simp only: encode_digits; auto simp: itoa64_def digit_bounds)+

lemma length_hash_words: "length (bf_hash key flags n salt) = 6"
  by (simp add: bf_hash_def magic_block_def Let_def split: prod.split)

lemma length_words: "length (concat (map word_bytes ws)) = 4 * length ws"
  by (induction ws) (simp_all add: word_bytes_def)

lemma length_swap: "length (BF_swap ws) = length ws"
  by (simp add: BF_swap_def)

lemma length_output:
  "length (BF_encode (take 23 (concat (map word_bytes (BF_swap (bf_hash key f n salt)))))) = 31"
  by (simp add: length_encode length_words length_swap length_hash_words)

definition is_digit :: "char \<Rightarrow> bool" where
  "is_digit c \<longleftrightarrow> (case safe_atoi64 c of Digit _ \<Rightarrow> True | _ \<Rightarrow> False)"

lemma decode_digits:
  "list_all is_digit src \<Longrightarrow> (4 * sz + 2) div 3 \<le> length src \<Longrightarrow> 1 \<le> sz \<Longrightarrow> decode_loop sz src \<noteq> None"
proof (induction sz src rule: decode_loop.induct)
  case (1 sz src)
  have digit: "\<exists>v. safe_atoi64 (next_char (drop i src)) = Digit v" if "i < length src" for i
  proof -
    have "is_digit (src ! i)" using 1(2) that by (simp add: list_all_length)
    moreover have "next_char (drop i src) = src ! i"
      using that by (simp add: next_char_def Cons_nth_drop_Suc [symmetric])
    ultimately show ?thesis by (auto simp: is_digit_def split: atoi64.splits)
  qed
  have "2 \<le> length src" using 1(3,4) by linarith
  then have len: "0 < length src" "1 < length src" by linarith+
  obtain c1 c2 where c: "safe_atoi64 (next_char src) = Digit c1"
      "safe_atoi64 (next_char (drop 1 src)) = Digit c2"
    using digit [OF len(1)] digit [OF len(2)] unfolding drop_0 by blast
  have c3: "\<exists>c3. safe_atoi64 (next_char (drop 2 src)) = Digit c3" if "2 \<le> sz"
    using digit [of 2] 1(3) that by simp
  have c4: "\<exists>c4. safe_atoi64 (next_char (drop 3 src)) = Digit c4" if "3 \<le> sz"
    using digit [of 3] 1(3) that by simp
  have rest: "decode_loop (sz - 3) (drop 4 src) \<noteq> None" if "3 < sz"
  proof -
    have big: "2 \<le> sz" "3 \<le> sz" using that by simp_all
    obtain v3 v4 where v: "safe_atoi64 (next_char (drop 2 src)) = Digit v3"
        "safe_atoi64 (next_char (drop 3 src)) = Digit v4"
      using c3 c4 big by auto
    have "list_all is_digit (drop 4 src)"
      using 1(2) by (metis append_take_drop_id list_all_append)
    moreover have "(4 * (sz - 3) + 2) div 3 \<le> length (drop 4 src)" using 1(3) that by simp
    moreover have "1 \<le> sz - 3" using that by simp
    ultimately show ?thesis
      using 1(1) [OF c refl _ v(1) refl _ v(2) refl] that by simp
  qed
  show ?case
    using c c3 c4 rest by (subst decode_loop.simps) (auto simp: Let_def not_le)
qed

lemma salt_chars_in: "list_all (\<lambda>c. c \<in> set BF_itoa64) salt_chars"
  by code_simp

lemma is_digit_in: "c \<in> set BF_itoa64 \<Longrightarrow> is_digit c"
  by (auto simp: in_set_conv_nth is_digit_def atoi_nth)

lemma salt_chars_ok: "list_all (\<lambda>c. is_digit c \<and> c \<noteq> NUL \<and> c \<noteq> CHR ''$'') salt_chars"
proof (unfold list_all_iff, intro ballI)
  fix c assume "c \<in> set salt_chars"
  then have c: "c \<in> set BF_itoa64" using salt_chars_in by (simp only: list_all_iff)
  have all: "\<forall>c \<in> set BF_itoa64. c \<noteq> CHR ''$'' \<and> 0x20 \<le> uc c \<and> uc c < 0x80"
    using digits_range by (simp only: list_all_iff)
  have "c \<noteq> CHR ''$''" "0x20 \<le> uc c" using bspec [OF all c] by blast+
  moreover from this(2) have "c \<noteq> NUL" using uc_NUL by force
  ultimately show "is_digit c \<and> c \<noteq> NUL \<and> c \<noteq> CHR ''$''" using is_digit_in [OF c] by simp
qed

lemma digit_range: "is_digit c \<Longrightarrow> \<exists>d. last_salt_char c = Some d"
  by (auto simp: is_digit_def safe_atoi64_def last_salt_char_def Let_def split: if_splits)

lemma no_NUL_digit: "NUL \<notin> set BF_itoa64"
proof
  assume "NUL \<in> set BF_itoa64"
  moreover have "\<forall>c \<in> set BF_itoa64. 0x20 \<le> uc c" using digits_range unfolding list_all_iff by blast
  ultimately have "0x20 \<le> uc NUL" by blast
  then show False by simp
qed

lemma generated_setting:
  assumes "list_all (\<lambda>i. d i < 64) [0..<22]"
  defines "s \<equiv> ''$2y$10$'' @ map (\<lambda>i. salt_chars ! d i) [0..<22]"
  shows "length s = 29" "NUL \<notin> set s" "setting_char s 28 \<noteq> CHR ''$''" "setting_char s 2 = CHR ''y''"
    "\<exists>h. BF_crypt key s 61 16 = Hash h"
proof -
  have len: "length salt_chars = 64" by (simp add: salt_chars_def)
  have good: "is_digit (salt_chars ! d i)" "salt_chars ! d i \<noteq> NUL" "salt_chars ! d i \<noteq> CHR ''$''"
    if "i < 22" for i
    using salt_chars_ok assms(1) that len by (simp_all add: list_all_length)
  show len29: "length s = 29" by (simp add: s_def)
  show "NUL \<notin> set s" using good(2) by (force simp: s_def NUL_def)
  have s28: "setting_char s 28 = salt_chars ! d 21"
    by (simp add: setting_char_def len29) (simp add: s_def nth_append)
  then show "setting_char s 28 \<noteq> CHR ''$''" using good(3) by simp
  have seven: "setting_char s i = ''$2y$10$'' ! i" if "i < 7" for i
    using that len29 unfolding setting_char_def s_def by (subst nth_append) simp
  show "setting_char s 2 = CHR ''y''" using seven [of 2] by simp
  have ok: "setting_ok s"
    using seven [of 0] seven [of 1] seven [of 2] seven [of 3] seven [of 4] seven [of 5] seven [of 6]
    by (simp add: setting_ok_def uc_def flags_by_subtype_def)
  have count: "setting_count s = 1024"
    using seven [of 4] seven [of 5] by (simp add: setting_count_def uc_def)
  have "drop 7 s = map (\<lambda>i. salt_chars ! d i) [0..<22]" by (simp add: s_def)
  then have "decode_loop 16 (drop 7 s) \<noteq> None"
    using good(1) by (intro decode_digits) (simp_all add: list_all_length)
  then obtain bytes where "BF_decode 16 (drop 7 s) = Some bytes" by (auto simp: BF_decode_def)
  moreover obtain c where "last_salt_char (setting_char s 28) = Some c"
    using digit_range [OF good(1)] s28 by fastforce
  ultimately show "\<exists>h. BF_crypt key s 61 16 = Hash h"
    using ok count len29 by (simp add: BF_crypt_def Let_def)
qed

lemma Hash_shape:
  assumes "BF_crypt key s sz m = Hash h" "NUL \<notin> set s"
  shows "length h = 60" "NUL \<notin> set h" "setting_char h 2 = setting_char s 2"
proof -
  obtain c bs where h: "h = take 28 s @ [c] @ BF_encode bs" "length (BF_encode bs) = 31"
      "28 \<le> length s" "c \<in> set BF_itoa64"
    using assms(1) unfolding BF_crypt_Hash_iff
    by (elim conjE exE) (rule that, assumption, rule length_output, assumption, auto dest: last_salt_idem)
  then show "length h = 60" by simp
  show "NUL \<notin> set h"
    using h assms(2) set_encode no_NUL_digit by (auto dest: in_set_takeD)
  show "setting_char h 2 = setting_char s 2" using h by (simp add: setting_char_def nth_append)
qed

text \<open>
  Claim C4: the server's use of \<open>crypt\<close>: a new password is hashed with a random salt (22
  characters of the alphabet) and a login compares the stored hash with \<open>crypt\<close> of the typed
  password under the stored hash. Hashing never runs into undefined behaviour; when the
  program's self-test for this subtype passes it gives 60 characters, and the same password
  verifies against them; when it fails the result is the magic string.
\<close>

theorem own_password_verifies:
  assumes "list_all (\<lambda>i. d i < 64) [0..<22]"
  shows "\<exists>h. blowfish_crypt d password [] = Some h
     \<and> (if selftest_hash (test_setting[2 := CHR ''y'']) 0 \<and> selftest_keys
        then length h = 60 \<and> blowfish_crypt d password h = Some h
        else h = ''*0'')"
proof -
  let ?s = "''$2y$10$'' @ map (\<lambda>i. salt_chars ! d i) [0..<22]"
  note gen = generated_setting [OF assms]
  obtain h where h: "BF_crypt (c_str password) ?s 61 16 = Hash h" using gen(5) by blast
  note shape = Hash_shape [OF h gen(2)]
  have cs: "c_str ?s = ?s" using gen(2) by (rule c_str_id)
  have own: "BF_crypt (c_str password) h 61 16 = Hash h" by (rule BF_crypt_own [OF h gen(3)])
  have sub: "flags_by_subtype ! (uc (CHR ''y'') - 97) mod 2 = 0"
    by (simp add: uc_def flags_by_subtype_def)
  have c2: "setting_char ?s 2 = CHR ''y''" by (rule gen(4))
  have magic: "crypt_output_magic ?s = ''*0''" by (simp add: crypt_output_magic_def setting_char_def)
  have ch: "c_str h = h" using shape(2) by (rule c_str_id)
  have "h \<noteq> []" using shape(1) by auto
  then have "blowfish_crypt d password h
      = (if selftest_hash (test_setting[2 := CHR ''y'']) 0 \<and> selftest_keys then Some h
         else Some (crypt_output_magic h))"
    using own sub shape(3) c2 unfolding blowfish_crypt_def crypt_blowfish_rn_def
    by (simp add: ch)
  moreover have "blowfish_crypt d password []
      = (if selftest_hash (test_setting[2 := CHR ''y'']) 0 \<and> selftest_keys then Some h
         else Some ''*0'')"
    unfolding blowfish_crypt_def crypt_blowfish_rn_def Let_def if_P [OF refl] cs h c2 sub magic by simp
  ultimately show ?thesis using shape(1) by auto
qed

theorem own_password_verifies_witness:
  "\<exists>h. blowfish_crypt (\<lambda>i. i) ''secret'' [] = Some h
     \<and> (if selftest_hash (test_setting[2 := CHR ''y'']) 0 \<and> selftest_keys
        then length h = 60 \<and> blowfish_crypt (\<lambda>i. i) ''secret'' h = Some h
        else h = ''*0'')"
  by (rule own_password_verifies) (simp add: list_all_iff)

text \<open>The form of a stored hash: 60 characters, the version, the cost in two digits.\<close>

definition hash_form :: "string \<Rightarrow> bool" where
  "hash_form h \<longleftrightarrow> length h = 60 \<and> take 2 h = ''$2'' \<and> h ! 2 \<in> set ''abxy'' \<and> h ! 3 = CHR ''$''
     \<and> h ! 4 \<in> set ''0123'' \<and> h ! 5 \<in> set ''0123456789'' \<and> h ! 6 = CHR ''$''"

lemma version_char:
  assumes "97 \<le> uc c" "uc c \<le> 122" "flags_by_subtype ! (uc c - 97) \<noteq> 0"
  shows "c \<in> set ''abxy''"
proof (rule uc_among)
  have "\<forall>n \<in> set [97..<123]. flags_by_subtype ! (n - 97) \<noteq> 0 \<longrightarrow> n \<in> {97, 98, 120, 121}" by code_simp
  moreover have "uc c \<in> set [97..<123]" unfolding set_upt atLeastLessThan_iff using assms(1,2) by linarith
  ultimately have "uc c \<in> {97, 98, 120, 121}" using assms(3) by blast
  then show "uc c \<in> uc ` set ''abxy''" by (simp add: uc_def of_char_def)
qed

lemma digit_char:
  assumes "48 \<le> uc c" "uc c \<le> 57"
  shows "c \<in> set ''0123456789''"
proof (rule uc_among)
  have "uc c \<in> {48, 49, 50, 51, 52, 53, 54, 55, 56, 57}" using assms by (simp; arith)
  then show "uc c \<in> uc ` set ''0123456789''" by (simp add: uc_def of_char_def)
qed

lemma cost_char: "48 \<le> uc c \<Longrightarrow> uc c \<le> 51 \<Longrightarrow> c \<in> set ''0123''"
  by (frule digit_char) (auto simp: uc_def)

lemma setting_ok_form:
  assumes "length h = 60" and "setting_ok h"
  shows "hash_form h"
proof -
  have c: "setting_char h i = h ! i" if "i < 7" for i using that assms(1) by (simp add: setting_char_def)
  note ok = assms(2) [unfolded setting_ok_def Let_def]
  have "take 2 h = [h ! 0, h ! 1]" using assms(1) by (cases h; cases "tl h") auto
  moreover have "h ! 2 \<in> set ''abxy''" using ok by (intro version_char) (simp_all add: c)
  moreover have "h ! 4 \<in> set ''0123''" "h ! 5 \<in> set ''0123456789''"
    using ok by (auto intro!: cost_char digit_char simp only: c)
  ultimately show ?thesis using ok assms(1) by (simp add: hash_form_def c)
qed

text \<open>
  Without a dollar sign in the salt the decoder reads all its digits: they are there.
\<close>

lemma safe_digit: "c \<noteq> CHR ''$'' \<Longrightarrow> safe_atoi64 c \<noteq> Invalid \<Longrightarrow> is_digit c"
  by (cases "safe_atoi64 c") (auto simp: is_digit_def safe_atoi64_def Let_def split: if_splits)

lemma decode_all_digits:
  "decode_loop sz src = Some bs \<Longrightarrow> 1 \<le> sz \<Longrightarrow> i < (4 * sz + 2) div 3
     \<Longrightarrow> \<forall>j < (4 * sz + 2) div 3. next_char (drop j src) \<noteq> CHR ''$'' \<Longrightarrow> is_digit (next_char (drop i src))"
proof (induction sz src arbitrary: bs i rule: decode_loop.induct)
  case (1 sz src)
  let ?n = "(4 * sz + 2) div 3"
  have dig: "is_digit (next_char (drop j src))" if "j < ?n" "safe_atoi64 (next_char (drop j src)) \<noteq> Invalid" for j
    using safe_digit 1(5) that by blast
  have nd: "safe_atoi64 (next_char (drop j src)) \<noteq> Dollar" if "j < ?n" for j
    using 1(5) that by (auto simp: safe_atoi64_def Let_def split: if_splits)
  have n: "2 \<le> ?n" "2 \<le> sz \<Longrightarrow> 3 \<le> ?n" "3 \<le> sz \<Longrightarrow> 4 \<le> ?n" "3 < sz \<Longrightarrow> ?n = 4 + (4 * (sz - 3) + 2) div 3"
    "sz \<le> 1 \<Longrightarrow> ?n = 2" "sz = 2 \<Longrightarrow> ?n = 3" "sz = 3 \<Longrightarrow> ?n = 4"
    using 1(3) by auto
  note run = 1(2) [unfolded decode_loop.simps [of sz src]]
  obtain c1 where c1: "safe_atoi64 (next_char (drop 0 src)) = Digit c1"
    using run nd [of 0] n(1) by (cases "safe_atoi64 (next_char src)") auto
  obtain c2 where c2: "safe_atoi64 (next_char (drop 1 src)) = Digit c2"
    using run c1 nd [of 1] n(1) by (cases "safe_atoi64 (next_char (drop 1 src))") auto
  have c3: "\<exists>c3. safe_atoi64 (next_char (drop 2 src)) = Digit c3" if "2 \<le> sz"
    using run c1 c2 nd [of 2] n(2) that by (cases "safe_atoi64 (next_char (drop 2 src))") (auto simp: Let_def)
  have c4: "\<exists>c4. safe_atoi64 (next_char (drop 3 src)) = Digit c4" if "3 \<le> sz"
    using run c1 c2 c3 nd [of 3] n(3) that by (cases "safe_atoi64 (next_char (drop 3 src))") (auto simp: Let_def)
  show ?case
  proof (cases "i < 4 \<or> sz \<le> 3")
    case True
    then have "i = 0 \<or> i = 1 \<or> i = 2 \<and> 2 \<le> sz \<or> i = 3 \<and> 3 \<le> sz" using 1(3,4) n(5-7) by linarith
    then show ?thesis using dig [OF 1(4)] c1 c2 c3 c4 by fastforce
  next
    case False
    then have big: "3 < sz" "4 \<le> i" by auto
    then obtain v3 v4 where v: "safe_atoi64 (next_char (drop 2 src)) = Digit v3"
        "safe_atoi64 (next_char (drop 3 src)) = Digit v4"
      using c3 c4 by auto
    obtain cs where cs: "decode_loop (sz - 3) (drop 4 src) = Some cs"
      using run c1 c2 v big by (auto simp: Let_def)
    have drops: "drop j (drop 4 src) = drop (4 + j) src" for j by (simp add: add.commute)
    have "is_digit (next_char (drop (i - 4) (drop 4 src)))"
    proof (rule 1(1) [OF _ _ refl _ v(1) refl _ v(2) refl _ cs])
      show "safe_atoi64 (next_char src) = Digit c1" "safe_atoi64 (next_char (drop 1 src)) = Digit c2" using c1 c2 by simp_all
      show "\<forall>j<(4 * (sz - 3) + 2) div 3. next_char (drop j (drop 4 src)) \<noteq> CHR ''$''"
        using 1(5) n(4) [OF big(1)] unfolding drops by simp
    qed (use big 1(4) n(4) in auto)
    then show ?thesis using big(2) by simp
  qed
qed

lemma decode_whole_salt:
  assumes "BF_decode 16 (drop 7 s) = Some bytes" and "CHR ''$'' \<notin> set (take 22 (drop 7 s))"
  shows "28 < length s" "is_digit (setting_char s 28)"
proof -
  have at: "next_char (drop j (drop 7 s)) = setting_char s (7 + j)" for j
    by (auto simp: next_char_def setting_char_def Cons_nth_drop_Suc [symmetric] add.commute)
  have "setting_char s (7 + j) \<noteq> CHR ''$''" if "j < 22" for j
  proof (cases "7 + j < length s")
    case True
    then have "s ! (7 + j) \<in> set (take 22 (drop 7 s))"
      using that by (auto simp: in_set_conv_nth intro!: exI [of _ j])
    then show ?thesis using True assms(2) by (auto simp: setting_char_def)
  qed (simp add: setting_char_def NUL_def)
  then have "\<forall>j<22. next_char (drop j (drop 7 s)) \<noteq> CHR ''$''" unfolding at by blast
  moreover obtain bs where "decode_loop 16 (drop 7 s) = Some bs" using assms(1) by (auto simp: BF_decode_def)
  ultimately have "is_digit (next_char (drop 21 (drop 7 s)))"
    using decode_all_digits [of 16 "drop 7 s" bs 21] by simp
  then show dig: "is_digit (setting_char s 28)" unfolding at by simp
  have "\<not> is_digit NUL" by code_simp
  then show "28 < length s" using dig by (auto simp: setting_char_def split: if_splits)
qed

text \<open>Undefined behaviour has one cause: a dollar sign among the 22 characters of the salt.\<close>

lemma crypt_undefined:
  assumes "crypt_blowfish_rn key s sz = None"
  shows "setting_ok s \<and> CHR ''$'' \<in> set (take 22 (drop 7 s))"
proof (rule ccontr)
  assume not: "\<not> ?thesis"
  have undef: "BF_crypt key s sz 16 = Bf_undefined"
    using assms by (auto simp: crypt_blowfish_rn_def Let_def split: bf_result.splits)
  then have ok: "setting_ok s" by (auto simp: BF_crypt_def split: if_splits)
  then have free: "CHR ''$'' \<notin> set (take 22 (drop 7 s))" using not by blast
  obtain bytes where bytes: "BF_decode 16 (drop 7 s) = Some bytes"
    using undef by (auto simp: BF_crypt_def split: if_splits option.splits)
  obtain c where "last_salt_char (setting_char s 28) = Some c"
    using digit_range [OF decode_whole_salt(2) [OF bytes free]] by blast
  then show False using undef bytes decode_whole_salt(1) [OF bytes free]
    by (simp add: BF_crypt_def Let_def split: if_splits)
qed

lemma malformed_differs:
  assumes "\<not> hash_form h"
  shows "blowfish_crypt d password h \<noteq> Some h"
proof
  assume eq: "blowfish_crypt d password h = Some h"
  show False
  proof (cases "h = []")
    case True
    with eq show False
      by (auto simp: blowfish_crypt_def crypt_blowfish_rn_def crypt_output_magic_def Let_def
          dest: Hash_shape(1) [OF _ NUL_c_str] split: bf_result.splits if_splits)
  next
    case False
    with eq have rn: "crypt_blowfish_rn (c_str password) (c_str h) 61 = Some h"
      by (simp add: blowfish_crypt_def)
    have not_magic: "crypt_output_magic (c_str h) \<noteq> h"
    proof
      assume m: "crypt_output_magic (c_str h) = h"
      then have "c_str h = h" by (auto simp: crypt_output_magic_def c_str_def NUL_def split: if_splits)
      with m show False by (auto simp: crypt_output_magic_def setting_char_def split: if_splits)
    qed
    then obtain h' where "BF_crypt (c_str password) (c_str h) 61 16 = Hash h'" "h' = h"
      using rn by (auto simp: crypt_blowfish_rn_def Let_def split: bf_result.splits if_splits)
    then have hash: "BF_crypt (c_str password) (c_str h) 61 16 = Hash h" by simp
    note shape = Hash_shape [OF hash NUL_c_str]
    have "c_str h = h" using shape(2) by (rule c_str_id)
    then have "setting_ok h" using hash unfolding BF_crypt_Hash_iff by simp
    with shape(1) assms setting_ok_form show False by blast
  qed
qed

text \<open>
  Claim C5: a stored string that has not the form of a hash, a version, a cost and 60 characters
  in all, does not verify: no password hashes to it under itself, and the failure output differs from a
  stored failure output. One hole is left, and the theorem names it: where a dollar sign ends the salt of an
  otherwise good setting early, hashing can run into undefined behaviour (the copy of the setting reads behind
  a short one); for every other malformed string it gives a result.
\<close>

theorem malformed_never_verifies:
  assumes "\<not> hash_form h" and "list_all (\<lambda>i. d i < 64) [0..<22]"
  shows "case blowfish_crypt d password h of
      Some h' \<Rightarrow> h' \<noteq> h
    | None \<Rightarrow> setting_ok (c_str h) \<and> CHR ''$'' \<in> set (take 22 (drop 7 (c_str h)))"
proof (cases "blowfish_crypt d password h")
  case None
  show ?thesis
  proof (cases "h = []")
    case True
    then show ?thesis using None generated_setting(5) [OF assms(2), of "c_str password"]
        c_str_id [OF generated_setting(2) [OF assms(2)]]
      by (auto simp: blowfish_crypt_def crypt_blowfish_rn_def Let_def)
  next
    case False
    then show ?thesis using None by (simp add: blowfish_crypt_def crypt_undefined)
  qed
next
  case (Some g)
  then show ?thesis using malformed_differs [OF assms(1)] by auto
qed

text \<open>A failure output does not verify; a short salt with a dollar sign in it is the hole.\<close>

theorem malformed_never_verifies_witness:
  "(\<exists>h'. blowfish_crypt (\<lambda>i. i) ''secret'' ''*0'' = Some h' \<and> h' \<noteq> ''*0'')
   \<and> blowfish_crypt (\<lambda>i. i) ''secret'' ''$2y$10$aaa$'' = None"
proof
  have "\<not> setting_ok (c_str ''*0'')" by code_simp
  then show "\<exists>h'. blowfish_crypt (\<lambda>i. i) ''secret'' ''*0'' = Some h' \<and> h' \<noteq> ''*0''"
    using malformed_never_verifies [of "''*0''" "\<lambda>i. i" "''secret''"]
    by (auto simp: hash_form_def list_all_iff split: option.splits)
  have s: "c_str ''$2y$10$aaa$'' = ''$2y$10$aaa$''" "setting_ok ''$2y$10$aaa$''" "setting_count ''$2y$10$aaa$'' = 1024"
    "BF_decode 16 (drop 7 ''$2y$10$aaa$'') \<noteq> None"
    by code_simp+
  have "BF_crypt key ''$2y$10$aaa$'' 61 16 = Bf_undefined" for key
    using s(2-4) by (auto simp: BF_crypt_def)
  then show "blowfish_crypt (\<lambda>i. i) ''secret'' ''$2y$10$aaa$'' = None"
    by (simp add: blowfish_crypt_def crypt_blowfish_rn_def Let_def s(1))
qed

lemma setting_ok_prefix:
  assumes "take 28 h = take 28 s" "28 \<le> length s" "setting_ok s"
  shows "setting_ok h"
proof -
  have "28 \<le> length h" using assms(1,2) by (metis length_take min.absorb2 min.cobounded1)
  moreover have "h ! i = s ! i" if "i < 7" for i
    using arg_cong [OF assms(1), of "\<lambda>x. x ! i"] that by simp
  ultimately have "setting_char h i = setting_char s i" if "i < 7" for i
    using that assms(2) by (simp add: setting_char_def)
  then show ?thesis using assms(3) by (simp add: setting_ok_def)
qed

lemma BF_crypt_form:
  assumes "BF_crypt key s sz m = Hash h" "NUL \<notin> set s"
  shows "hash_form h \<and> take 28 h = take 28 s"
proof -
  have s: "setting_ok s" "28 \<le> length s" and h: "\<exists>t. h = take 28 s @ t" using assms(1) unfolding BF_crypt_Hash_iff by auto
  then have t: "take 28 h = take 28 s" by auto
  from setting_ok_form [OF Hash_shape(1) [OF assms] setting_ok_prefix [OF t s(2,1)]] t show ?thesis by simp
qed

lemma crypt_rn_form:
  assumes "crypt_blowfish_rn key s sz = Some h" "NUL \<notin> set s"
  shows "h = ''*0'' \<or> h = ''*1'' \<or> (hash_form h \<and> take 28 h = take 28 s)"
proof (cases "BF_crypt key s sz 16")
  case (Hash g)
  then have "h = g \<or> h = crypt_output_magic s"
    using assms(1) by (simp add: crypt_blowfish_rn_def Let_def split: if_splits)
  then show ?thesis using BF_crypt_form [OF Hash assms(2)] by (auto simp: crypt_output_magic_def)
next
  case Null
  then have "h = crypt_output_magic s" using assms(1) by (simp add: crypt_blowfish_rn_def)
  then show ?thesis by (simp add: crypt_output_magic_def)
next
  case Bf_undefined
  then show ?thesis using assms(1) by (simp add: crypt_blowfish_rn_def)
qed

text \<open>
  Claim C6: what \<open>crypt\<close> gives back has one of two forms: a failure output, or a
  hash of 60 characters with version and cost, which starts with the first 28 characters of the
  string it was made under, so that it can be stored and used as a setting again. It gives a result for
  every string, except that a setting whose salt a dollar sign ends early can run into undefined behaviour.
\<close>

theorem crypt_result_form:
  "let s = c_str (if algo = [] then ''$2y$10$'' @ map (\<lambda>i. salt_chars ! d i) [0..<22] else algo) in
   case blowfish_crypt d password algo of
     None \<Rightarrow> setting_ok s \<and> CHR ''$'' \<in> set (take 22 (drop 7 s))
   | Some h \<Rightarrow> h = ''*0'' \<or> h = ''*1'' \<or> (hash_form h \<and> take 28 h = take 28 s)"
proof -
  let ?s = "c_str (if algo = [] then ''$2y$10$'' @ map (\<lambda>i. salt_chars ! d i) [0..<22] else algo)"
  have eq: "blowfish_crypt d password algo = crypt_blowfish_rn (c_str password) ?s 61" by (simp only: blowfish_crypt_def Let_def)
  show ?thesis
  proof (cases "crypt_blowfish_rn (c_str password) ?s 61")
    case None
    from crypt_undefined [OF this] show ?thesis unfolding eq None Let_def option.case .
  next
    case (Some h)
    from crypt_rn_form [OF this NUL_c_str] show ?thesis unfolding eq Some Let_def option.case .
  qed
qed

end
