(* ===== verification/World.thy ===== *)
theory World
  imports Telopt Registry Database Blowfish
begin

text \<open>
  The state of the server as the user code sees it: the live \<open>User\<close> objects by address, the
  list of users, the creatures and the things to release of the talker, the \<open>Telnet\<close> protocol
  objects (\<open>src/Network/Protocols/Telnet.h\<close>, \<open>src/Network/Protocol.h\<close>) by address, the
  database connection, the ids and the number of salts drawn; and \<open>IOUser\<close>
  (\<open>src/Common/IOUser.cpp\<close>), which moves accounts between a user and the database. \<open>Driver::instance()\<close>
  is taken to give the driver there, not null.
\<close>

section \<open>The state\<close>

record protocol =
  p_user :: "nat option"
  p_refs :: u32
  eventConnect :: u32
  m_acceptPackets :: bool

record world =
  heap :: "(nat, user) smap"
  listUser :: "(u32, nat) smap"
  listCreature :: "(u32, nat) smap"
  toReleaseThings :: "nat list"
  prots :: "(nat, protocol) smap"
  w_db :: db
  w_ids :: auto_ids
  w_salts :: nat

text \<open>
  The surroundings: the options and library functions, the database client, the random
  indices of the \<open>k\<close>th salt, and the byte an address gives where \<open>%c\<close> reads an \<open>int\<close>.
\<close>

record host =
  srv :: server
  db_env :: mysql
  salts :: "nat \<Rightarrow> nat \<Rightarrow> nat"
  pointer_byte :: "char option"

type_synonym 'a wprog = "(uexn, world, 'a) prog"

text \<open>Run a function of the object at an address; undefined when no object lives there.\<close>

definition on_user :: "nat \<Rightarrow> 'a uprog \<Rightarrow> 'a wprog" where
  "on_user a m w =
     (case map_find (heap w) a of
        None \<Rightarrow> Undefined
      | Some u \<Rightarrow>
          (case m u of
             Ret x v \<Rightarrow> Ret x (w\<lparr>heap := map_put a v (heap w)\<rparr>)
           | Exn e v \<Rightarrow> Exn e (w\<lparr>heap := map_put a v (heap w)\<rparr>)
           | Undefined \<Rightarrow> Undefined
           | Hang \<Rightarrow> Hang))"

definition on_db :: "(std_exn, db, 'a) prog \<Rightarrow> 'a wprog" where
  "on_db m w =
     (case m (w_db w) of
        Ret x d \<Rightarrow> Ret x (w\<lparr>w_db := d\<rparr>)
      | Exn e d \<Rightarrow> Exn (Std e) (w\<lparr>w_db := d\<rparr>)
      | Undefined \<Rightarrow> Undefined
      | Hang \<Rightarrow> Hang)"

definition the_user :: "nat \<Rightarrow> user wprog" where
  "the_user a w = (case map_find (heap w) a of None \<Rightarrow> Undefined | Some u \<Rightarrow> Ret u w)"

definition upd_user :: "nat \<Rightarrow> (user \<Rightarrow> user) \<Rightarrow> unit wprog" where
  "upd_user a f = on_user a (modify f)"

text \<open>\<open>Blowfish::crypt\<close>; a setting is only drawn when none is given.\<close>

definition w_crypt :: "host \<Rightarrow> string \<Rightarrow> string \<Rightarrow> string wprog" where
  "w_crypt H pw algo w =
     (case blowfish_crypt (salts H (w_salts w)) pw algo of
        None \<Rightarrow> Undefined
      | Some h \<Rightarrow> Ret h (if algo = [] then w\<lparr>w_salts := w_salts w + 1\<rparr> else w))"

section \<open>IOUser\<close>

definition user_levels :: "host \<Rightarrow> enum_tables" where
  "user_levels H = enum_of_rows (to_lower_copy (srv H)) ''UserLevel'' userLevel_rows"

definition level_of_value :: "int \<Rightarrow> user_level" where
  "level_of_value v =
     (if v = 1 then UserLevel_NOVICE else if v = 2 then UserLevel_USER
      else if v = 3 then UserLevel_ADMIN else UserLevel_LOGIN)"

definition load_query :: "host \<Rightarrow> string \<Rightarrow> string" where
  "load_query H userName =
     ''SELECT id, level, password '' @ [CHR 0x09, CHR 0x09] @ ''FROM '' @ [CHR 0x60] @ ''users'' @ [CHR 0x60]
     @ '' '' @ [CHR 0x09, CHR 0x09] @ ''WHERE login=LOWER('' @ escapeString (db_env H) userName @ '')''"

definition from_enum :: "(std_exn, world, 'a) prog \<Rightarrow> 'a wprog" where
  "from_enum m w =
     (case m w of Ret x t \<Rightarrow> Ret x t | Exn e t \<Rightarrow> Exn (Std e) t | Undefined \<Rightarrow> Undefined | Hang \<Rightarrow> Hang)"

definition IOUser_load :: "host \<Rightarrow> nat \<Rightarrow> string \<Rightarrow> bool \<Rightarrow> bool wprog" where
  "IOUser_load H a userName preload =
     bind (on_db (storeQuery (db_env H) (load_query H userName))) (\<lambda>result.
     case result of
       None \<Rightarrow> ret False
     | Some r \<Rightarrow>
         seq (upd_user a (\<lambda>u. u\<lparr>guid := getDataInt r ''id''\<rparr>))
         (seq (upd_user a (\<lambda>u. u\<lparr>password := Some (getDataString r ''password'')\<rparr>))
         (if preload then ret True
          else bind (from_enum (enum_fromInteger (user_levels H) (sint (getDataUInt r ''level'')))) (\<lambda>v.
            seq (upd_user a (\<lambda>u. u\<lparr>level := level_of_value v\<rparr>)) (ret True)))))"

definition save_query :: "host \<Rightarrow> user \<Rightarrow> string" where
  "save_query H u =
     ''UPDATE users SET '' @ '' login='' @ escapeString (db_env H) (u_name u)
     @ '', level='' @ show_int (level_value (level u)) @ '' WHERE id='' @ show_nat (unat (guid u))"

definition IOUser_save :: "host \<Rightarrow> nat \<Rightarrow> bool wprog" where
  "IOUser_save H a = bind (the_user a) (\<lambda>u. on_db (
     bind (tx_begin (db_env H)) (\<lambda>(ok, st).
     if \<not> ok then seq (tx_end (db_env H) st) (ret False)
     else bind (executeQuery (db_env H) (save_query H u)) (\<lambda>ok.
       if \<not> ok then seq (tx_end (db_env H) st) (ret False)
       else bind (tx_commit (db_env H) st) (\<lambda>(ok, st). seq (tx_end (db_env H) st) (ret ok))))))"

definition create_row :: "host \<Rightarrow> user \<Rightarrow> string \<Rightarrow> string" where
  "create_row H u pw =
     escapeString (db_env H) (u_name u) @ '','' @ escapeString (db_env H) pw @ '',''
     @ show_int (level_value (level u))"

definition create_query :: string where
  "create_query = ''INSERT INTO users (login, password, level) VALUES ''"

text \<open>
  \<open>create\<close>: the result of \<open>begin\<close> is not looked at; the transaction object goes out of scope
  on every return. A user without a password is a null pointer.
\<close>

definition create_account :: "mysql \<Rightarrow> string \<Rightarrow> (std_exn, db, u64) prog" where
  "create_account env row =
     bind (tx_begin env) (\<lambda>(_, st).
     bind (addRow env row (setQuery create_query Insert_new)) (\<lambda>(added, ins).
     bind (if \<not> added then ret (False, ins) else Insert_execute env ins) (\<lambda>(done, _).
     if \<not> done then seq (tx_end env st) (ret 0)
     else bind (getLastInsertedRowID env) (\<lambda>i.
       bind (tx_commit env st) (\<lambda>(ok, st).
       seq (tx_end env st) (ret (if ok then i else 0)))))))"

definition IOUser_create :: "host \<Rightarrow> nat \<Rightarrow> u64 wprog" where
  "IOUser_create H a = bind (the_user a) (\<lambda>u.
     case password u of
       None \<Rightarrow> undefined_behaviour
     | Some pw \<Rightarrow> on_db (create_account (db_env H) (create_row H u pw)))"

section \<open>What account creation asks of the database\<close>

definition gone :: "nat \<Rightarrow> bool" where
  "gone e \<longleftrightarrow> e = CR_SERVER_LOST \<or> e = CR_SERVER_GONE_ERROR"

text \<open>
  Claim C12: creating an account on a live connection sends BEGIN and one INSERT with the row,
  in this order, and then exactly one of commit and rollback: commit when the INSERT
  succeeded, rollback when it failed, nothing more once the server is gone. The id of the new
  row is returned only when the commit succeeded, and 0 in all other cases.
\<close>

theorem create_is_a_transaction:
  fixes d :: db and row :: string
  defines "cs0 \<equiv> db_calls d @ [Real_query ''BEGIN'']"
  defines "cs1 \<equiv> cs0 @ [Store_result, Real_query (create_query @ parenthesised row)]"
  defines "cs2 \<equiv> cs1 @ [Store_result]"
  assumes "m_connected d"
  shows "\<exists>i d'. create_account env row d = Ret i d' \<and>
    (if gone (real_query env cs0) then i = 0 \<and> db_calls d' = cs0 @ [Store_result]
     else if real_query env cs1 = 0
       then i = (if commit_fails env (cs2 @ [Db_commit]) then 0 else insert_id env cs2)
         \<and> db_calls d' = cs2 @ [Db_commit]
     else if gone (real_query env cs1) then i = 0 \<and> db_calls d' = cs2
     else i = 0 \<and> db_calls d' = cs2 @ [Db_rollback])"
  using assms(4)
  unfolding cs2_def cs1_def cs0_def
  by (auto simp: create_account_def tx_begin_def tx_commit_def tx_end_def beginTransaction_def
      addRow_def Insert_execute_def setQuery_def Insert_new_def getParam_multiinsert_def
      executeQuery_def internalQuery_def call_def note_error_def commit_def rollback_def
      getLastInsertedRowID_def gone_def Let_def bind_def seq_def out_simps
      CR_SERVER_LOST_def CR_SERVER_GONE_ERROR_def)

theorem create_is_a_transaction_witness:
  "\<exists>i d'. create_account \<lparr>real_query = \<lambda>_. 0, store_result = \<lambda>_. Inl 0, commit_fails = \<lambda>_. False,
        rollback_fails = \<lambda>_. False, insert_id = \<lambda>_. 7, escape = id\<rparr> ''1''
        \<lparr>m_connected = True, db_calls = []\<rparr> = Ret i d' \<and> i = 7"
  using create_is_a_transaction [of "\<lparr>m_connected = True, db_calls = []\<rparr>"
      "\<lparr>real_query = \<lambda>_. 0, store_result = \<lambda>_. Inl 0, commit_fails = \<lambda>_. False,
        rollback_fails = \<lambda>_. False, insert_id = \<lambda>_. 7, escape = id\<rparr>" "''1''"]
  by (auto simp: gone_def CR_SERVER_LOST_def CR_SERVER_GONE_ERROR_def)

section \<open>Rules for the programs over the world\<close>

lemma on_user_Ret [out_simps]:
  "map_find (heap w) a = Some u \<Longrightarrow> m u = Ret x v
     \<Longrightarrow> on_user a m w = Ret x (w\<lparr>heap := map_put a v (heap w)\<rparr>)"
  by (simp add: on_user_def)

lemma on_user_Exn [out_simps]:
  "map_find (heap w) a = Some u \<Longrightarrow> m u = Exn e v
     \<Longrightarrow> on_user a m w = Exn e (w\<lparr>heap := map_put a v (heap w)\<rparr>)"
  by (simp add: on_user_def)

lemma wp_on_user:
  "wp (on_user a m) Q R w \<longleftrightarrow> (\<exists>u. map_find (heap w) a = Some u \<and>
     wp m (\<lambda>x v. Q x (w\<lparr>heap := map_put a v (heap w)\<rparr>)) (\<lambda>e v. R e (w\<lparr>heap := map_put a v (heap w)\<rparr>)) u)"
  by (simp add: on_user_def wp_def split: option.split out.split)

text \<open>
  A full \<open>load\<close> never reports a loaded account. When the account exists the level
  goes through \<open>fromInteger\<close>, which throws for the levels that exist and is undefined for the
  rest; so \<open>true\<close> is only ever returned by a preload.
\<close>

theorem load_full_never_returns:
  "IOUser_load H a userName False w \<noteq> Ret True w'"
  by (auto simp: IOUser_load_def bind_Ret_iff seq_def from_enum_def user_levels_def
      enum_fromInteger_def ret_def split: option.splits out.splits if_splits)

end
