(* ===== verification/StrMisc.thy ===== *)
theory StrMisc
  imports Prelude
begin

text \<open>
  The free functions of \<open>src/Strings/misc.cpp\<close>: \<open>hasWhitespace\<close>, \<open>terminate\<close> and
  \<open>cleanString\<close>, which every command line goes through before it is parsed.
\<close>

section \<open>Whitespace and termination\<close>

fun hasWhitespace :: "string \<Rightarrow> bool" where
  "hasWhitespace [] = False"
| "hasWhitespace (ch # str) = (if sc ch < 33 then True else hasWhitespace str)"

fun terminate :: "string \<Rightarrow> string" where
  "terminate [] = []"
| "terminate (c # str) = (if sc c < 32 then [] else c # terminate str)"

lemma hasWhitespace_iff: "hasWhitespace s \<longleftrightarrow> (\<exists>c \<in> set s. uc c \<le> 32 \<or> 128 \<le> uc c)"
  by (induction s) (auto simp: sc_less_iff)

lemma terminate_takeWhile: "terminate s = takeWhile (\<lambda>c. 32 \<le> sc c) s"
  by (induction s) auto

section \<open>cleanString\<close>

text \<open>
  The loop of \<open>cleanString\<close>: \<open>i\<close> is the iterator \<open>it\<close>, \<open>j\<close> is \<open>it2\<close>. Reading one
  past the last character gives the NUL \<open>std::string\<close> keeps there; reading further would be
  undefined (\<open>None\<close>). The assignment behind the \<open>break\<close> of the inner switch can never be
  reached, so the branch on a control code does nothing.
\<close>

function clean_loop :: "string \<Rightarrow> nat \<Rightarrow> nat \<Rightarrow> string option" where
  "clean_loop str i j =
     (case str_at str i of
        None \<Rightarrow> None
      | Some c \<Rightarrow>
          if c = NUL then Some str
          else if c = CHR ''%'' then
            (case str_at str j of
               None \<Rightarrow> None
             | Some d \<Rightarrow>
                 if d \<noteq> CHR ''%'' then clean_loop (str[i := CHR '' '']) (i + 1) (i + 2)
                 else clean_loop str (i + 1 + 1) (i + 1 + 2))
          else clean_loop str (i + 1) (i + 2))"
  by pat_completeness auto
termination
  by (relation "measure (\<lambda>(str, i, j). Suc (length str) - i)")
    (auto simp: str_at_def split: if_splits)

declare clean_loop.simps [simp del]

definition cleanString :: "string \<Rightarrow> string option" where
  "cleanString str = clean_loop str 0 1"

text \<open>What the loop computes: a percent sign that is not doubled becomes a blank.\<close>

fun clean_ref :: "string \<Rightarrow> string" where
  "clean_ref [] = []"
| "clean_ref [c] = (if c = CHR ''%'' then [CHR '' ''] else [c])"
| "clean_ref (c # d # s) =
     (if c = NUL then c # d # s
      else if c = CHR ''%'' then
        (if d = CHR ''%'' then c # d # clean_ref s else CHR '' '' # clean_ref (d # s))
      else c # clean_ref (d # s))"

lemma NUL_not_percent [simp]: "NUL \<noteq> CHR ''%''" "CHR ''%'' \<noteq> NUL"
  by (simp_all add: NUL_def)

lemma str_at_append [simp]:
  "str_at (pre @ c # s) (length pre) = Some c"
  "str_at pre (length pre) = Some NUL"
  "str_at (pre @ c # d # s) (Suc (length pre)) = Some d"
  "str_at (pre @ [c]) (Suc (length pre)) = Some NUL"
  by (simp_all add: str_at_def nth_append)

lemma clean_loop_ref:
  "clean_loop (pre @ s) (length pre) (Suc (length pre)) = Some (pre @ clean_ref s)"
proof (induction s arbitrary: pre rule: clean_ref.induct)
  case 1
  show ?case by (subst clean_loop.simps) simp
next
  case (2 c)
  have end_read: "clean_loop (pre @ [d]) (length pre + 1) (length pre + 2) = Some (pre @ [d])" for d
    using str_at_append(2) [of "pre @ [d]"] by (subst clean_loop.simps) simp
  show ?case
    using end_read by (subst clean_loop.simps) auto
next
  case (3 c d s)
  have one: "clean_loop (pre @ e # d # s) (length pre + 1) (length pre + 2)
      = Some (pre @ e # clean_ref (d # s))"
    if "c \<noteq> NUL" "\<not> (c = CHR ''%'' \<and> d = CHR ''%'')" for e
  proof (cases "c = CHR ''%''")
    case True
    with that 3(2) [of "pre @ [e]"] show ?thesis by simp
  next
    case False
    with that 3(3) [of "pre @ [e]"] show ?thesis by simp
  qed
  have two: "clean_loop (pre @ c # d # s) (length pre + 1 + 1) (length pre + 1 + 2)
      = Some (pre @ c # d # clean_ref s)" if "c = CHR ''%''" "d = CHR ''%''"
    using 3(1) [of "pre @ [c, d]"] that by simp
  show ?case
    using one two by (subst clean_loop.simps) auto
qed

theorem cleanString_ref: "cleanString s = Some (clean_ref s)"
  using clean_loop_ref [of "[]" s] by (simp add: cleanString_def)

text \<open>
  The conversion directives a C format function would find in a string: a percent sign that
  does not belong to a pair of them.
\<close>

fun directives :: "string \<Rightarrow> nat" where
  "directives [] = 0"
| "directives [c] = (if c = CHR ''%'' then 1 else 0)"
| "directives (c # d # s) =
     (if c = CHR ''%'' then (if d = CHR ''%'' then directives s else Suc (directives (d # s)))
      else directives (d # s))"

lemma directives_Cons: "c \<noteq> CHR ''%'' \<Longrightarrow> directives (c # s) = directives s"
  by (cases s) auto

lemma length_clean_ref [simp]: "length (clean_ref s) = length s"
  by (induction s rule: clean_ref.induct) auto

lemma directives_clean_ref: "directives (c_str (clean_ref s)) = 0"
proof (induction s rule: clean_ref.induct)
  case (3 c d s)
  have "CHR '' '' \<noteq> NUL" by (simp add: NUL_def)
  with 3 show ?case by (simp add: c_str_def directives_Cons)
qed (auto simp: c_str_def NUL_def)

lemma clean_ref_id: "CHR ''%'' \<notin> set s \<Longrightarrow> clean_ref s = s"
  by (induction s rule: clean_ref.induct) auto

lemma clean_ref_idem: "clean_ref (clean_ref s) = clean_ref s"
proof (induction s rule: clean_ref.induct)
  case (3 c d s)
  then show ?case by (cases "clean_ref (d # s)") (auto simp: NUL_def)
qed auto

section \<open>Properties\<close>

text \<open>
  \<open>cleanString\<close> never reads outside its string, keeps the length, and what a C
  function sees of its result (up to the first NUL) holds no conversion directive: used as a
  \<open>printf\<close> format it consumes no argument. It is what \<open>clean_ref\<close> computes in one pass
  and running it again changes nothing.
\<close>

theorem cleanString_no_directive:
  "\<exists>t. cleanString s = Some t \<and> length t = length s \<and> directives (c_str t) = 0
     \<and> cleanString t = Some t"
  by (simp add: cleanString_ref directives_clean_ref clean_ref_idem)

text \<open>
  The comment over the loop says that control codes are removed as well. They are
  not: a string without a percent sign, whatever control codes it holds, comes back
  unchanged (the assignment stands behind the \<open>break\<close> of the switch).
\<close>

theorem cleanString_keeps_controls:
  "CHR ''%'' \<notin> set s \<Longrightarrow> cleanString s = Some s"
  by (simp add: cleanString_ref clean_ref_id)

theorem cleanString_keeps_controls_witness:
  "cleanString [CHR 0x07, CHR 0x1B, CHR ''x''] = Some [CHR 0x07, CHR 0x1B, CHR ''x'']"
  by (rule cleanString_keeps_controls) simp

end
