(* ===== verification/NetMessage.thy ===== *)
theory NetMessage
  imports Prelude
begin

text \<open>
  \<open>NetworkMessage\<close> (\<open>src/Network/NetworkMessage.cpp\<close>): a buffer of \<open>MAXSIZE\<close> bytes with one
  cursor for reading and writing and a message length. The readers do no check of their own:
  a read or a write outside the buffer is undefined behaviour in the model. The two counters
  are \<open>size_t\<close> of 64 bits; the integers of the buffer are little endian, as on the targets.
\<close>

section \<open>The message and its raw accesses\<close>

definition MAXSIZE :: nat where
  "MAXSIZE = 15340"

record netmsg =
  m_MsgSize :: u64
  m_ReadPos :: u64
  m_MsgBuf :: "u8 list"

text \<open>\<open>peek n pos\<close> reads \<open>n\<close> bytes at an offset, \<open>poke\<close> overwrites bytes there.\<close>

definition peek :: "nat \<Rightarrow> nat \<Rightarrow> 'a netmsg_scheme \<Rightarrow> u8 list option" where
  "peek n pos m = (if pos + n \<le> length (m_MsgBuf m) then Some (take n (drop pos (m_MsgBuf m))) else None)"

definition poke :: "u8 list \<Rightarrow> nat \<Rightarrow> 'a netmsg_scheme \<Rightarrow> 'a netmsg_scheme option" where
  "poke bs pos m =
     (if pos + length bs \<le> length (m_MsgBuf m)
      then Some (m\<lparr>m_MsgBuf := take pos (m_MsgBuf m) @ bs @ drop (pos + length bs) (m_MsgBuf m)\<rparr>)
      else None)"

fun bytes_le :: "nat \<Rightarrow> nat \<Rightarrow> u8 list" where
  "bytes_le 0 n = []"
| "bytes_le (Suc k) n = word_of_nat n # bytes_le k (n div 256)"

fun le_value :: "u8 list \<Rightarrow> nat" where
  "le_value [] = 0"
| "le_value (b # bs) = unat b + 256 * le_value bs"

text \<open>The read of an integer at the cursor, and the write behind the check of \<open>canAdd\<close>.\<close>

definition get_le :: "nat \<Rightarrow> (std_exn, 'a netmsg_scheme, nat) prog" where
  "get_le k m =
     (case peek k (unat (m_ReadPos m)) m of
        None \<Rightarrow> Undefined
      | Some bs \<Rightarrow> Ret (le_value bs) (m\<lparr>m_ReadPos := m_ReadPos m + of_nat k\<rparr>))"

definition put_bytes :: "u8 list \<Rightarrow> (std_exn, 'a netmsg_scheme, unit) prog" where
  "put_bytes bs m =
     (case poke bs (unat (m_ReadPos m)) m of
        None \<Rightarrow> Undefined
      | Some m' \<Rightarrow> Ret () (m'\<lparr>m_ReadPos := m_ReadPos m + of_nat (length bs),
                              m_MsgSize := m_MsgSize m + of_nat (length bs)\<rparr>))"

section \<open>The operations\<close>

definition Reset :: "'a netmsg_scheme \<Rightarrow> 'a netmsg_scheme" where
  "Reset m = m\<lparr>m_MsgSize := 0, m_ReadPos := 0\<rparr>"

text \<open>\<open>size+m_ReadPos\<close> is computed in 64 bits: a \<open>uint32_t\<close> and a \<open>size_t\<close>.\<close>

definition canAdd :: "u32 \<Rightarrow> 'a netmsg_scheme \<Rightarrow> bool" where
  "canAdd sz m = (ucast sz + m_ReadPos m < (of_nat MAXSIZE :: u64))"

definition GetByte :: "(std_exn, 'a netmsg_scheme, u8) prog" where
  "GetByte = bind (get_le 1) (\<lambda>n. ret (word_of_nat n))"

definition GetU16 :: "(std_exn, 'a netmsg_scheme, u16) prog" where
  "GetU16 = bind (get_le 2) (\<lambda>n. ret (word_of_nat n))"

definition GetU32 :: "(std_exn, 'a netmsg_scheme, u32) prog" where
  "GetU32 = bind (get_le 4) (\<lambda>n. ret (word_of_nat n))"

definition GetU64 :: "(std_exn, 'a netmsg_scheme, u64) prog" where
  "GetU64 = bind (get_le 8) (\<lambda>n. ret (word_of_nat n))"

definition GetAt :: "u32 \<Rightarrow> (std_exn, 'a netmsg_scheme, u8) prog" where
  "GetAt pos m = (case peek 1 (unat pos) m of Some [b] \<Rightarrow> Ret b m | _ \<Rightarrow> Undefined)"

text \<open>The length of \<open>GetRaw\<close> is truncated to 16 bits.\<close>

definition GetRaw :: "(std_exn, 'a netmsg_scheme, string) prog" where
  "GetRaw m =
     (if of_nat MAXSIZE \<le> m_MsgSize m then Ret [] m
      else
        let stringlen = (ucast (m_MsgSize m - m_ReadPos m) :: u16) in
        case peek (unat stringlen) (unat (m_ReadPos m)) m of
          None \<Rightarrow> Undefined
        | Some bs \<Rightarrow> Ret (map char_of_byte bs) (m\<lparr>m_ReadPos := m_ReadPos m + ucast stringlen\<rparr>))"

text \<open>\<open>string(raw, p)\<close> is the part of \<open>raw\<close> from position \<open>p\<close> on.\<close>

definition GetString :: "(std_exn, 'a netmsg_scheme, string) prog" where
  "GetString = bind GetRaw (\<lambda>raw.
     case str_find raw [NUL] 0 of
       None \<Rightarrow> ret raw
     | Some p \<Rightarrow> (case str_substr_from raw p of None \<Rightarrow> throw Out_of_range | Some s \<Rightarrow> ret s))"

text \<open>An \<open>int\<close> argument is sign extended to the counter.\<close>

definition SkipBytes :: "int \<Rightarrow> (std_exn, 'a netmsg_scheme, unit) prog" where
  "SkipBytes count = modify (\<lambda>m. m\<lparr>m_ReadPos := m_ReadPos m + of_int count\<rparr>)"

definition AddByte :: "u8 \<Rightarrow> (std_exn, 'a netmsg_scheme, unit) prog" where
  "AddByte value m = (if \<not> canAdd 1 m then Ret () m else put_bytes [value] m)"

definition AddU16 :: "u16 \<Rightarrow> (std_exn, 'a netmsg_scheme, unit) prog" where
  "AddU16 value m = (if \<not> canAdd 2 m then Ret () m else put_bytes (bytes_le 2 (unat value)) m)"

definition AddU32 :: "u32 \<Rightarrow> (std_exn, 'a netmsg_scheme, unit) prog" where
  "AddU32 value m = (if \<not> canAdd 4 m then Ret () m else put_bytes (bytes_le 4 (unat value)) m)"

definition AddU64 :: "u64 \<Rightarrow> (std_exn, 'a netmsg_scheme, unit) prog" where
  "AddU64 value m = (if \<not> canAdd 8 m then Ret () m else put_bytes (bytes_le 8 (unat value)) m)"

text \<open>
  \<open>AddString\<close> copies up to and with the NUL (\<open>strcpy\<close>), counts the characters, and then adds
  the NUL as a byte of its own. The length is cast to 32 bits.
\<close>

definition AddString :: "string \<Rightarrow> (std_exn, 'a netmsg_scheme, unit) prog" where
  "AddString str m =
     (let value = map byte_of_char (c_str str); stringlen = (of_nat (length value) :: u32) in
      if \<not> canAdd (stringlen + 1) m \<or> 8192 < stringlen then Ret () m
      else case poke (value @ [0]) (unat (m_ReadPos m)) m of
          None \<Rightarrow> Undefined
        | Some m' \<Rightarrow> AddByte 0 (m'\<lparr>m_ReadPos := m_ReadPos m + ucast stringlen,
                                    m_MsgSize := m_MsgSize m + ucast stringlen\<rparr>))"

text \<open>\<open>AddBytes bytes size\<close> of a buffer of at least \<open>size\<close> bytes.\<close>

definition AddBytes :: "u8 list \<Rightarrow> (std_exn, 'a netmsg_scheme, unit) prog" where
  "AddBytes bytes m =
     (let sz = (of_nat (length bytes) :: u32) in
      if \<not> canAdd sz m \<or> 8192 < sz then Ret () m
      else put_bytes (take (unat sz) bytes) m)"

definition setMessageLength :: "int \<Rightarrow> 'a netmsg_scheme \<Rightarrow> 'a netmsg_scheme" where
  "setMessageLength newSize m = m\<lparr>m_MsgSize := of_int newSize\<rparr>"

definition setReadPos :: "u64 \<Rightarrow> 'a netmsg_scheme \<Rightarrow> 'a netmsg_scheme" where
  "setReadPos pos m = m\<lparr>m_ReadPos := pos\<rparr>"

definition NetworkMessage_new :: "u8 list \<Rightarrow> netmsg" where
  "NetworkMessage_new garbage = Reset \<lparr>m_MsgSize = 0, m_ReadPos = 0, m_MsgBuf = garbage\<rparr>"

section \<open>Little-endian integers\<close>

lemma length_bytes_le [simp]: "length (bytes_le k n) = k"
  by (induction k n rule: bytes_le.induct) auto

lemma unat_of_nat_u8: "unat (word_of_nat n :: u8) = n mod 256"
  by (simp add: unat_of_nat)

lemma le_value_bytes_le: "le_value (bytes_le k n) = n mod 256 ^ k"
proof (induction k n rule: bytes_le.induct)
  case (2 k n)
  then show ?case by (simp add: unat_of_nat_u8 mod_mult2_eq)
qed simp

section \<open>The cursor and the written bytes\<close>

lemma unat_MAXSIZE: "unat (of_nat MAXSIZE :: u64) = MAXSIZE"
  by (simp add: MAXSIZE_def)

lemma canAdd_iff:
  assumes "unat (m_ReadPos m) \<le> MAXSIZE"
  shows "canAdd sz m \<longleftrightarrow> unat sz + unat (m_ReadPos m) < MAXSIZE"
proof -
  have sz: "unat sz < 2 ^ 32" using unsigned_less [of sz] by simp
  then have "unat (ucast sz :: u64) = unat sz" by (simp add: unsigned_ucast_eq take_bit_eq_mod)
  moreover note sz
  ultimately have "unat (ucast sz + m_ReadPos m) = unat sz + unat (m_ReadPos m)"
    using assms by (simp add: unat_word_ariths MAXSIZE_def)
  then show ?thesis
    unfolding canAdd_def word_less_nat_alt unat_MAXSIZE by simp
qed

definition written :: "'a netmsg_scheme \<Rightarrow> u8 list" where
  "written m = take (unat (m_ReadPos m)) (m_MsgBuf m)"

definition buf_ok :: "'a netmsg_scheme \<Rightarrow> bool" where
  "buf_ok m \<longleftrightarrow> length (m_MsgBuf m) = MAXSIZE"

text \<open>The invariant of a message that is being written.\<close>

definition msg_ok :: "'a netmsg_scheme \<Rightarrow> bool" where
  "msg_ok m \<longleftrightarrow> buf_ok m \<and> unat (m_ReadPos m) < MAXSIZE \<and> m_MsgSize m = m_ReadPos m"

lemma length_written: "msg_ok m \<Longrightarrow> length (written m) = unat (m_ReadPos m)"
  by (simp add: msg_ok_def buf_ok_def written_def)

lemma unat_add_pos:
  "unat (p :: u64) + n < MAXSIZE \<Longrightarrow> unat (p + of_nat n) = unat p + n"
  by (simp add: unat_word_ariths unat_of_nat MAXSIZE_def)

text \<open>What a write that fits does, and that the written part is the old one and the new bytes.\<close>

definition wrote :: "u8 list \<Rightarrow> 'a netmsg_scheme \<Rightarrow> 'a netmsg_scheme \<Rightarrow> bool" where
  "wrote bs m m' \<longleftrightarrow> msg_ok m' \<and> written m' = written m @ bs"

lemma put_bytes_ok:
  assumes "msg_ok m" and fits: "unat (m_ReadPos m) + length bs < MAXSIZE"
  shows "\<exists>m'. put_bytes bs m = Ret () m' \<and> wrote bs m m'"
proof -
  let ?p = "unat (m_ReadPos m)" and ?b = "m_MsgBuf m"
  let ?m = "m\<lparr>m_MsgBuf := take ?p ?b @ bs @ drop (?p + length bs) ?b,
     m_ReadPos := m_ReadPos m + of_nat (length bs), m_MsgSize := m_MsgSize m + of_nat (length bs)\<rparr>"
  have len: "length ?b = MAXSIZE" using assms by (simp add: msg_ok_def buf_ok_def)
  have "put_bytes bs m = Ret () ?m"
    using fits len by (simp add: put_bytes_def poke_def)
  moreover have "unat (m_ReadPos ?m) = ?p + length bs" using unat_add_pos [OF fits] by simp
  then have "wrote bs m ?m"
    using assms len by (simp add: wrote_def msg_ok_def buf_ok_def written_def)
  ultimately show ?thesis by blast
qed

lemma written_peek:
  assumes "buf_ok m" "take (k + n) (m_MsgBuf m) = xs @ bs" "length xs = k" "length bs = n"
  shows "peek n k m = Some bs"
proof -
  have "length (take (k + n) (m_MsgBuf m)) = k + n" using assms by simp
  then have "k + n \<le> length (m_MsgBuf m)" by simp
  moreover have "take n (drop k (m_MsgBuf m)) = drop k (take (k + n) (m_MsgBuf m))"
    by (simp add: take_drop add.commute)
  ultimately show ?thesis using assms by (simp add: peek_def)
qed

section \<open>The interface of a scalar\<close>

text \<open>
  What the users of a message rely on for each integer type: the writer appends the encoding
  when it fits below the limit and does nothing otherwise; the reader gives the value back
  where its encoding stands.
\<close>

locale scalar_io =
  fixes add :: "'v \<Rightarrow> (std_exn, 'a netmsg_scheme, unit) prog"
    and get :: "(std_exn, 'a netmsg_scheme, 'v) prog"
    and enc :: "'v \<Rightarrow> u8 list"
    and width :: nat
  assumes enc_length: "length (enc v) = width"
    and add_fits: "msg_ok m \<Longrightarrow> unat (m_ReadPos m) + width < MAXSIZE \<Longrightarrow> add v m = put_bytes (enc v) m"
    and add_full: "msg_ok m \<Longrightarrow> \<not> unat (m_ReadPos m) + width < MAXSIZE \<Longrightarrow> add v m = Ret () m"
    and get_there: "peek width (unat (m_ReadPos m)) m = Some (enc v)
      \<Longrightarrow> get m = Ret v (m\<lparr>m_ReadPos := m_ReadPos m + of_nat width\<rparr>)"
begin

lemma add_wrote:
  "msg_ok m \<Longrightarrow> unat (m_ReadPos m) + width < MAXSIZE \<Longrightarrow> \<exists>m'. add v m = Ret () m' \<and> wrote (enc v) m m'"
  by (simp add: add_fits put_bytes_ok enc_length)

lemma add_safe: "safe msg_ok (add v)"
  unfolding safe_def
proof (intro allI impI)
  fix m :: "'a netmsg_scheme" assume "msg_ok m"
  then show "out_all msg_ok (add v m) \<and> defined (add v m)"
    using add_wrote [of m v] add_full [of m v]
    by (cases "unat (m_ReadPos m) + width < MAXSIZE") (auto simp: wrote_def)
qed

end

lemma unat_small: "n < 2 ^ 32 \<Longrightarrow> unat (of_nat n :: u32) = n"
  by (simp add: unat_of_nat)

lemma get_le_there:
  "peek k (unat (m_ReadPos m)) m = Some (bytes_le k n)
     \<Longrightarrow> get_le k m = Ret (n mod 256 ^ k) (m\<lparr>m_ReadPos := m_ReadPos m + of_nat k\<rparr>)"
  by (simp add: get_le_def le_value_bytes_le)

lemmas msg_canAdd = canAdd_iff [OF less_imp_le]

interpretation io8: scalar_io AddByte GetByte "\<lambda>v. bytes_le 1 (unat v)" 1
proof (unfold_locales, goal_cases)
  case (2 m v)
  then show ?case by (simp add: AddByte_def msg_ok_def canAdd_iff)
next
  case (4 m v)
  have "unat v < 256" by simp
  then show ?case using get_le_there [OF 4] by (simp add: GetByte_def out_simps del: unat_u8_less)
qed (auto simp: AddByte_def msg_ok_def canAdd_iff)

interpretation io16: scalar_io AddU16 GetU16 "\<lambda>v. bytes_le 2 (unat v)" 2
proof (unfold_locales, goal_cases)
  case (4 m v)
  have "unat v < 65536" using unsigned_less [of v] by simp
  then show ?case using get_le_there [OF 4] by (simp add: GetU16_def out_simps)
qed (auto simp: AddU16_def msg_ok_def canAdd_iff)

interpretation io32: scalar_io AddU32 GetU32 "\<lambda>v. bytes_le 4 (unat v)" 4
proof (unfold_locales, goal_cases)
  case (4 m v)
  have "unat v < 4294967296" using unsigned_less [of v] by simp
  then show ?case using get_le_there [OF 4] by (simp add: GetU32_def out_simps)
qed (auto simp: AddU32_def msg_ok_def canAdd_iff)

interpretation io64: scalar_io AddU64 GetU64 "\<lambda>v. bytes_le 8 (unat v)" 8
proof (unfold_locales, goal_cases)
  case (4 m v)
  have "unat v < 18446744073709551616" using unsigned_less [of v] by simp
  then show ?case using get_le_there [OF 4] by (simp add: GetU64_def out_simps)
qed (auto simp: AddU64_def msg_ok_def canAdd_iff)

section \<open>Strings and blocks of bytes\<close>

lemma AddBytes_spec:
  assumes "msg_ok m" "length bs < 2 ^ 32"
  shows "\<exists>m'. AddBytes bs m = Ret () m' \<and>
    wrote (if length bs + length (written m) < MAXSIZE \<and> length bs \<le> 8192 then bs else []) m m'"
proof (cases "length bs + length (written m) < MAXSIZE \<and> length bs \<le> 8192")
  case True
  then have "AddBytes bs m = put_bytes bs m"
    using assms by (simp add: AddBytes_def Let_def msg_ok_def canAdd_iff unat_small length_written
        word_less_nat_alt)
  then show ?thesis using True put_bytes_ok [of m bs] assms by (simp add: length_written add.commute)
next
  case False
  then have "AddBytes bs m = Ret () m"
    using assms by (auto simp: AddBytes_def Let_def msg_ok_def canAdd_iff unat_small length_written
        word_less_nat_alt)
  then show ?thesis using False assms(1) by (auto simp: wrote_def)
qed

lemma AddString_spec:
  assumes ok: "msg_ok m" and len: "length (c_str s) < 2 ^ 32 - 1"
  shows "\<exists>m'. AddString s m = Ret () m' \<and>
    wrote (if length (c_str s) + 1 + length (written m) < MAXSIZE \<and> length (c_str s) \<le> 8192
           then map byte_of_char (c_str s) @ [0] else []) m m'"
proof -
  let ?v = "map byte_of_char (c_str s)" and ?n = "length (c_str s)" and ?p = "unat (m_ReadPos m)"
  have n1: "unat (of_nat ?n + 1 :: u32) = ?n + 1"
    using len by (simp add: unat_word_ariths unat_of_nat)
  have n0: "unat (of_nat ?n :: u32) = ?n" using len by (simp add: unat_small)
  have buf: "length (m_MsgBuf m) = MAXSIZE" "?p < MAXSIZE" "m_MsgSize m = m_ReadPos m"
    using ok by (auto simp: msg_ok_def buf_ok_def)
  show ?thesis
  proof (cases "?n + 1 + length (written m) < MAXSIZE \<and> ?n \<le> 8192")
    case True
    then have fits: "?n + 1 + ?p < MAXSIZE" "?n \<le> 8192" using ok by (simp_all add: length_written)
    define m1 where "m1 = m\<lparr>m_MsgBuf := take ?p (m_MsgBuf m) @ (?v @ [0]) @ drop (?p + (?n + 1)) (m_MsgBuf m),
       m_ReadPos := m_ReadPos m + of_nat ?n, m_MsgSize := m_MsgSize m + of_nat ?n\<rparr>"
    have cast: "ucast (of_nat ?n :: u32) = (of_nat ?n :: u64)"
      by (rule iffD2 [OF word_unat_eq_iff])
        (use fits in \<open>simp add: unsigned_ucast_eq unat_of_nat take_bit_eq_mod\<close>)
    have pos: "unat (m_ReadPos m1) = ?p + ?n"
      using unat_add_pos [of "m_ReadPos m" ?n] fits by (simp add: m1_def)
    have buf1: "length (m_MsgBuf m1) = MAXSIZE" using fits buf by (simp add: m1_def)
    have "AddString s m = AddByte 0 m1"
      using fits buf n0 n1 ok cast
      by (simp add: AddString_def Let_def canAdd_iff msg_ok_def poke_def word_less_nat_alt m1_def)
    moreover have ok1: "msg_ok m1"
      using fits pos buf1 buf(3) by (simp add: msg_ok_def buf_ok_def m1_def)
    moreover have "written m1 = written m @ ?v"
      using pos fits buf by (simp add: written_def m1_def)
    ultimately show ?thesis
      using io8.add_wrote [of m1 0] pos fits True by (auto simp: wrote_def)
  next
    case False
    then have "AddString s m = Ret () m"
      using ok n0 n1 by (auto simp: AddString_def Let_def canAdd_iff msg_ok_def length_written
          word_less_nat_alt)
    then show ?thesis using False ok by (auto simp: wrote_def)
  qed
qed

section \<open>Sequences of writes\<close>

datatype msg_op = OpByte u8 | OpU16 u16 | OpU32 u32 | OpU64 u64 | OpString string | OpBytes "u8 list"

primrec run_op :: "msg_op \<Rightarrow> (std_exn, 'a netmsg_scheme, unit) prog" where
  "run_op (OpByte v) = AddByte v"
| "run_op (OpU16 v) = AddU16 v"
| "run_op (OpU32 v) = AddU32 v"
| "run_op (OpU64 v) = AddU64 v"
| "run_op (OpString s) = AddString s"
| "run_op (OpBytes bs) = AddBytes bs"

primrec op_bytes :: "msg_op \<Rightarrow> u8 list" where
  "op_bytes (OpByte v) = bytes_le 1 (unat v)"
| "op_bytes (OpU16 v) = bytes_le 2 (unat v)"
| "op_bytes (OpU32 v) = bytes_le 4 (unat v)"
| "op_bytes (OpU64 v) = bytes_le 8 (unat v)"
| "op_bytes (OpString s) = map byte_of_char (c_str s) @ [0]"
| "op_bytes (OpBytes bs) = bs"

text \<open>Strings and blocks are limited to 8192 bytes, and all to what fits below the limit.\<close>

primrec op_limit :: "msg_op \<Rightarrow> nat" where
  "op_limit (OpByte v) = 1"
| "op_limit (OpU16 v) = 2"
| "op_limit (OpU32 v) = 4"
| "op_limit (OpU64 v) = 8"
| "op_limit (OpString s) = 8193"
| "op_limit (OpBytes bs) = 8192"

definition append_op :: "u8 list \<Rightarrow> msg_op \<Rightarrow> u8 list" where
  "append_op w x =
     (if length (op_bytes x) + length w < MAXSIZE \<and> length (op_bytes x) \<le> op_limit x
      then w @ op_bytes x else w)"

definition op_addressable :: "msg_op \<Rightarrow> bool" where
  "op_addressable x \<longleftrightarrow> length (op_bytes x) < 2 ^ 32"

lemma run_op_spec:
  assumes "msg_ok m" "op_addressable x"
  shows "\<exists>m'. run_op x m = Ret () m' \<and> msg_ok m' \<and> written m' = append_op (written m) x"
proof (cases x)
  case (OpByte v)
  with assms io8.add_wrote [of m v] io8.add_full [of m v] show ?thesis
    by (cases "unat (m_ReadPos m) + 1 < MAXSIZE") (auto simp: append_op_def wrote_def length_written)
next
  case (OpU16 v)
  with assms io16.add_wrote [of m v] io16.add_full [of m v] show ?thesis
    by (cases "unat (m_ReadPos m) + 2 < MAXSIZE") (auto simp: append_op_def wrote_def length_written)
next
  case (OpU32 v)
  with assms io32.add_wrote [of m v] io32.add_full [of m v] show ?thesis
    by (cases "unat (m_ReadPos m) + 4 < MAXSIZE") (auto simp: append_op_def wrote_def length_written)
next
  case (OpU64 v)
  with assms io64.add_wrote [of m v] io64.add_full [of m v] show ?thesis
    by (cases "unat (m_ReadPos m) + 8 < MAXSIZE") (auto simp: append_op_def wrote_def length_written)
next
  case (OpString s)
  with assms AddString_spec [of m s] show ?thesis
    by (auto simp: append_op_def wrote_def op_addressable_def)
next
  case (OpBytes bs)
  with assms AddBytes_spec [of m bs] show ?thesis
    by (auto simp: append_op_def wrote_def op_addressable_def)
qed

lemma run_ops_spec:
  "msg_ok m \<Longrightarrow> list_all op_addressable ops \<Longrightarrow>
     \<exists>m'. for_each ops run_op m = Ret () m' \<and> msg_ok m' \<and> written m' = foldl append_op (written m) ops"
proof (induction ops arbitrary: m)
  case Nil
  then show ?case by (simp add: out_simps)
next
  case (Cons x ops)
  obtain m1 where m1: "run_op x m = Ret () m1" "msg_ok m1" "written m1 = append_op (written m) x"
    using run_op_spec Cons.prems by fastforce
  with Cons.IH [of m1] Cons.prems show ?case by (simp add: seq_eval)
qed

lemma new_ok: "length g = MAXSIZE \<Longrightarrow> msg_ok (NetworkMessage_new g) \<and> written (NetworkMessage_new g) = []"
  by (simp add: NetworkMessage_new_def Reset_def msg_ok_def buf_ok_def written_def MAXSIZE_def)

text \<open>
  Claim C10: any sequence of writes to a new message returns and stays inside the buffer.
  The message then holds the concatenation, in order, of the encodings of the writes that
  were accepted: those that leave the message below 15340 bytes and, for strings and blocks,
  hold at most 8192 bytes; a write that is not accepted changes nothing.
\<close>

theorem writes_append:
  assumes "length g = MAXSIZE" and "list_all op_addressable ops"
  shows "\<exists>m. for_each ops run_op (NetworkMessage_new g) = Ret () m
     \<and> m_MsgSize m = m_ReadPos m \<and> unat (m_ReadPos m) = length (written m)
     \<and> length (written m) < MAXSIZE \<and> written m = foldl append_op [] ops"
proof -
  obtain m where "for_each ops run_op (NetworkMessage_new g) = Ret () m" "msg_ok m"
      "written m = foldl append_op [] ops"
    using run_ops_spec [of "NetworkMessage_new g" ops] new_ok [OF assms(1)] assms(2) by auto
  moreover from this(2) have "length (written m) = unat (m_ReadPos m)"
      "unat (m_ReadPos m) < MAXSIZE" "m_MsgSize m = m_ReadPos m"
    by (simp_all add: length_written) (simp_all add: msg_ok_def)
  ultimately show ?thesis by fastforce
qed

theorem writes_append_witness:
  "\<exists>m. for_each [OpU16 258, OpString ''hi''] run_op (NetworkMessage_new (replicate MAXSIZE 7)) = Ret () m
     \<and> m_MsgSize m = m_ReadPos m \<and> unat (m_ReadPos m) = length (written m)
     \<and> length (written m) < MAXSIZE \<and> written m = foldl append_op [] [OpU16 258, OpString ''hi'']"
  by (rule writes_append) (simp_all add: op_addressable_def c_str_def NUL_def)

section \<open>Reading back\<close>

datatype scalar = S8 u8 | S16 u16 | S32 u32 | S64 u64

primrec add_scalar :: "scalar \<Rightarrow> (std_exn, netmsg, unit) prog" where
  "add_scalar (S8 v) = AddByte v"
| "add_scalar (S16 v) = AddU16 v"
| "add_scalar (S32 v) = AddU32 v"
| "add_scalar (S64 v) = AddU64 v"

text \<open>The reader of the same type; the value of its argument does not matter.\<close>

primrec get_scalar :: "scalar \<Rightarrow> (std_exn, netmsg, scalar) prog" where
  "get_scalar (S8 _) = bind GetByte (\<lambda>v. ret (S8 v))"
| "get_scalar (S16 _) = bind GetU16 (\<lambda>v. ret (S16 v))"
| "get_scalar (S32 _) = bind GetU32 (\<lambda>v. ret (S32 v))"
| "get_scalar (S64 _) = bind GetU64 (\<lambda>v. ret (S64 v))"

fun get_scalars :: "scalar list \<Rightarrow> (std_exn, netmsg, scalar list) prog" where
  "get_scalars [] = ret []"
| "get_scalars (k # ks) = bind (get_scalar k) (\<lambda>v. bind (get_scalars ks) (\<lambda>vs. ret (v # vs)))"

primrec scalar_bytes :: "scalar \<Rightarrow> u8 list" where
  "scalar_bytes (S8 v) = bytes_le 1 (unat v)"
| "scalar_bytes (S16 v) = bytes_le 2 (unat v)"
| "scalar_bytes (S32 v) = bytes_le 4 (unat v)"
| "scalar_bytes (S64 v) = bytes_le 8 (unat v)"

lemma add_scalar_wrote:
  "msg_ok m \<Longrightarrow> unat (m_ReadPos m) + length (scalar_bytes x) < MAXSIZE
     \<Longrightarrow> \<exists>m'. add_scalar x m = Ret () m' \<and> wrote (scalar_bytes x) m m'"
  using io8.add_wrote [of m] io16.add_wrote [of m] io32.add_wrote [of m] io64.add_wrote [of m]
  by (cases x) simp_all

lemma get_scalar_there:
  "peek (length (scalar_bytes x)) (unat (m_ReadPos m)) m = Some (scalar_bytes x)
     \<Longrightarrow> get_scalar x m = Ret x (m\<lparr>m_ReadPos := m_ReadPos m + of_nat (length (scalar_bytes x))\<rparr>)"
  by (cases x) (auto simp: out_simps intro!: bind_eval io8.get_there io16.get_there io32.get_there
      io64.get_there simp: bind_def io8.get_there io16.get_there io32.get_there io64.get_there)

lemma add_scalars_wrote:
  "msg_ok m \<Longrightarrow> unat (m_ReadPos m) + length (concat (map scalar_bytes xs)) < MAXSIZE
     \<Longrightarrow> \<exists>m'. for_each xs add_scalar m = Ret () m' \<and> wrote (concat (map scalar_bytes xs)) m m'"
proof (induction xs arbitrary: m)
  case Nil
  then show ?case by (simp add: out_simps wrote_def)
next
  case (Cons x xs)
  obtain m1 where m1: "add_scalar x m = Ret () m1" "wrote (scalar_bytes x) m m1"
    using add_scalar_wrote [of m x] Cons.prems by auto
  then have "msg_ok m1" "unat (m_ReadPos m1) = unat (m_ReadPos m) + length (scalar_bytes x)"
    using Cons.prems(1) by (auto simp: wrote_def simp flip: length_written)
  with Cons.IH [of m1] Cons.prems m1 show ?case by (auto simp: seq_eval wrote_def)
qed

lemma get_scalars_there:
  assumes "buf_ok m" "unat (m_ReadPos m) + length (concat (map scalar_bytes xs)) < MAXSIZE"
    and "take (unat (m_ReadPos m) + length (concat (map scalar_bytes xs))) (m_MsgBuf m)
      = pre @ concat (map scalar_bytes xs)" "length pre = unat (m_ReadPos m)"
  shows "\<exists>m'. get_scalars xs m = Ret xs m'"
  using assms
proof (induction xs arbitrary: m pre)
  case Nil
  then show ?case by (simp add: out_simps)
next
  case (Cons x xs)
  let ?k = "length (scalar_bytes x)" and ?p = "unat (m_ReadPos m)"
  let ?m = "m\<lparr>m_ReadPos := m_ReadPos m + of_nat ?k\<rparr>"
  have pos: "unat (m_ReadPos ?m) = ?p + ?k" using unat_add_pos [of "m_ReadPos m" ?k] Cons.prems by simp
  have "take (?p + ?k) (m_MsgBuf m)
      = take (?p + ?k) (take (?p + length (concat (map scalar_bytes (x # xs)))) (m_MsgBuf m))"
    by (simp add: take_take min_def)
  also have "\<dots> = pre @ scalar_bytes x" unfolding Cons.prems(3) using Cons.prems(4) by simp
  finally have "peek ?k ?p m = Some (scalar_bytes x)"
    by (rule written_peek [OF Cons.prems(1)]) (use Cons.prems(4) in simp_all)
  then have "get_scalar x m = Ret x ?m" by (rule get_scalar_there)
  moreover have "\<exists>m'. get_scalars xs ?m = Ret xs m'"
  proof (rule Cons.IH [where pre = "pre @ scalar_bytes x"])
    show "buf_ok ?m" using Cons.prems(1) by (simp add: buf_ok_def)
    show "unat (m_ReadPos ?m) + length (concat (map scalar_bytes xs)) < MAXSIZE"
      unfolding pos using Cons.prems(2) by simp
    show "take (unat (m_ReadPos ?m) + length (concat (map scalar_bytes xs))) (m_MsgBuf ?m)
        = (pre @ scalar_bytes x) @ concat (map scalar_bytes xs)"
      unfolding pos using Cons.prems(3) by (simp add: add.assoc)
    show "length (pre @ scalar_bytes x) = unat (m_ReadPos ?m)"
      unfolding pos using Cons.prems(4) by simp
  qed
  ultimately show ?case by (auto simp: bind_def ret_def)
qed

text \<open>
  Claim C11: integers of all widths written to a new message one after the other, as long as
  they stay below the size limit, are read back by the readers of the same widths when the
  cursor is set to the start: same values, same order.
\<close>

theorem scalars_roundtrip:
  assumes "length g = MAXSIZE" and "length (concat (map scalar_bytes xs)) < MAXSIZE"
  shows "\<exists>m m'. for_each xs add_scalar (NetworkMessage_new g) = Ret () m
     \<and> get_scalars xs (setReadPos 0 m) = Ret xs m'"
proof -
  have new: "msg_ok (NetworkMessage_new g)" "written (NetworkMessage_new g) = []"
    using new_ok [OF assms(1)] by auto
  then have "unat (m_ReadPos (NetworkMessage_new g)) = 0" using length_written by fastforce
  then obtain m where m: "for_each xs add_scalar (NetworkMessage_new g) = Ret () m" "msg_ok m"
      "written m = concat (map scalar_bytes xs)"
    using add_scalars_wrote [of "NetworkMessage_new g" xs] assms(2) new by (auto simp: wrote_def)
  moreover have "\<exists>m'. get_scalars xs (setReadPos 0 m) = Ret xs m'"
    using m length_written [OF m(2)] assms(2)
    by (intro get_scalars_there [where pre = "[]"])
      (auto simp: setReadPos_def msg_ok_def buf_ok_def written_def)
  ultimately show ?thesis by blast
qed

theorem scalars_roundtrip_witness:
  "\<exists>m m'. for_each [S8 1, S32 70000, S16 9] add_scalar (NetworkMessage_new (replicate MAXSIZE 7)) = Ret () m
     \<and> get_scalars [S8 1, S32 70000, S16 9] (setReadPos 0 m) = Ret [S8 1, S32 70000, S16 9] m'"
  by (rule scalars_roundtrip) (simp_all add: MAXSIZE_def)

lemma unat_up16: "unat (ucast (v :: u16) :: u64) = unat v"
proof -
  have "unat v < 2 ^ 16" using unsigned_less [of v] by simp
  then show ?thesis by (simp add: unsigned_ucast_eq take_bit_eq_mod)
qed

text \<open>
  \<open>GetRaw\<close> on a message whose cursor is not behind its length returns the bytes
  from the cursor to the end of the message and moves the cursor there, as long as the
  message is shorter than the buffer: the 16 bits of its length lose nothing. A message that
  fills the buffer reads as the empty string.
\<close>

theorem GetRaw_rest:
  assumes "length (m_MsgBuf m) = MAXSIZE" and "m_ReadPos m \<le> m_MsgSize m"
  shows "GetRaw m =
    (if unat (m_MsgSize m) < MAXSIZE
     then Ret (map char_of_byte (drop (unat (m_ReadPos m)) (take (unat (m_MsgSize m)) (m_MsgBuf m))))
            (m\<lparr>m_ReadPos := m_MsgSize m\<rparr>)
     else Ret [] m)"
proof (cases "unat (m_MsgSize m) < MAXSIZE")
  case False
  then show ?thesis by (simp add: GetRaw_def word_le_nat_alt unat_MAXSIZE)
next
  case True
  have diff: "unat (m_MsgSize m - m_ReadPos m) = unat (m_MsgSize m) - unat (m_ReadPos m)"
    using assms(2) by (simp add: unat_sub)
  then have small: "unat (m_MsgSize m - m_ReadPos m) < 2 ^ 16" using True by (simp add: MAXSIZE_def)
  then have len: "unat (ucast (m_MsgSize m - m_ReadPos m) :: u16) = unat (m_MsgSize m) - unat (m_ReadPos m)"
    using diff by (simp add: unsigned_ucast_eq take_bit_eq_mod)
  have cast: "ucast (ucast (m_MsgSize m - m_ReadPos m) :: u16) = m_MsgSize m - m_ReadPos m"
    by (rule iffD2 [OF word_unat_eq_iff], subst unat_up16) (use len diff in simp)
  have le: "unat (m_ReadPos m) \<le> unat (m_MsgSize m)" using assms(2) by (simp add: word_le_nat_alt)
  show ?thesis
    using True le assms(1)
    by (simp add: GetRaw_def Let_def len cast peek_def word_le_nat_alt unat_MAXSIZE take_drop)
qed

theorem GetRaw_rest_witness:
  "GetRaw (\<lparr>m_MsgSize = 3, m_ReadPos = 1, m_MsgBuf = 64 # replicate 15339 65\<rparr> :: netmsg) =
    (if unat (3 :: u64) < MAXSIZE
     then Ret (map char_of_byte (drop (unat (1 :: u64)) (take (unat (3 :: u64)) (64 # replicate 15339 65))))
            \<lparr>m_MsgSize = 3, m_ReadPos = 3, m_MsgBuf = 64 # replicate 15339 65\<rparr>
     else Ret [] \<lparr>m_MsgSize = 3, m_ReadPos = 1, m_MsgBuf = 64 # replicate 15339 65\<rparr>)"
  using GetRaw_rest [of "\<lparr>m_MsgSize = 3, m_ReadPos = 1, m_MsgBuf = 64 # replicate 15339 65\<rparr> :: netmsg"]
  by (simp only: netmsg.simps) (simp add: MAXSIZE_def)

text \<open>
  \<open>GetString\<close> is meant to stop at the first NUL; its constructor call keeps the
  other part. A string written by \<open>AddString\<close> reads back as the NUL alone.
\<close>

theorem GetString_keeps_tail:
  "case AddString ''abc'' (NetworkMessage_new (replicate MAXSIZE 7)) of
     Ret _ m \<Rightarrow> (case GetString (setReadPos 0 m) of Ret str _ \<Rightarrow> str = [NUL] | _ \<Rightarrow> False)
   | _ \<Rightarrow> False"
proof -
  let ?m0 = "NetworkMessage_new (replicate MAXSIZE 7)"
  have new: "msg_ok ?m0" "written ?m0 = []" using new_ok [of "replicate MAXSIZE 7"] by auto
  have abc: "c_str ''abc'' = ''abc''" by (simp add: c_str_def NUL_def)
  obtain m where m: "AddString ''abc'' ?m0 = Ret () m" "msg_ok m"
      "written m = map byte_of_char ''abc'' @ [0]"
    using AddString_spec [OF new(1), of "''abc''"] new(2)
    by (auto simp: abc wrote_def MAXSIZE_def)
  have len: "unat (m_MsgSize m) = 4" "length (m_MsgBuf m) = MAXSIZE"
    using length_written [OF m(2)] m(2,3) by (simp_all add: msg_ok_def buf_ok_def)
  moreover have "take 4 (m_MsgBuf m) = map byte_of_char (''abc'' @ [NUL])"
    using m(2,3) len(1) by (simp add: written_def msg_ok_def byte_of_char_def)
  then have "map char_of_byte (take 4 (m_MsgBuf m)) = ''abc'' @ [NUL]"
    by (simp only: map_map comp_def char_of_byte_of_char list.map_ident)
  ultimately have "GetRaw (setReadPos 0 m) = Ret (''abc'' @ [NUL]) (m\<lparr>m_ReadPos := m_MsgSize m\<rparr>)"
    using GetRaw_rest [of "setReadPos 0 m"] m(2) by (simp add: setReadPos_def MAXSIZE_def)
  moreover have "str_find (''abc'' @ [NUL]) [NUL] 0 = Some 3" by code_simp
  ultimately show ?thesis
    using m(1) by (simp add: GetString_def bind_def str_substr_from_def ret_def)
qed

end
