(* ===== verification/Session.thy ===== *)
theory Session
  imports World StrMisc NetMessage
begin

text \<open>
  The session of a user: birth and death of a \<open>User\<close>, \<open>login\<close>, \<open>attempt\<close>, \<open>uConnect\<close>,
  \<open>kick\<close> and the command line (\<open>src/Common/User.cpp\<close>, \<open>src/Commands/Say.cpp\<close>,
  \<open>Quit.cpp\<close>), as programs over the world. A member function gets the address of its object
  first. A loop over \<open>listUser\<close> goes through the map as it stands when the loop starts: no loop
  body below changes it and goes on.
\<close>

section \<open>Objects\<close>

text \<open>An address no live object has.\<close>

definition fresh :: "(nat, 'a) smap \<Rightarrow> nat" where
  "fresh m = Suc (foldr max (map_keys m) 0)"

definition new_id :: "nat wprog" where
  "new_id w = (case AutoID_new (w_ids w) of None \<Rightarrow> Hang | Some (i, s) \<Rightarrow> Ret i (w\<lparr>w_ids := s\<rparr>))"

definition the_prot :: "nat \<Rightarrow> protocol wprog" where
  "the_prot p w = (case map_find (prots w) p of None \<Rightarrow> Undefined | Some pr \<Rightarrow> Ret pr w)"

definition upd_prot :: "nat \<Rightarrow> (protocol \<Rightarrow> protocol) \<Rightarrow> unit wprog" where
  "upd_prot p f w = (case map_find (prots w) p of None \<Rightarrow> Undefined
     | Some pr \<Rightarrow> Ret () (w\<lparr>prots := map_put p (f pr) (prots w)\<rparr>))"

definition setUser :: "nat \<Rightarrow> nat option \<Rightarrow> unit wprog" where
  "setUser p u = seq (upd_prot p (\<lambda>pr. pr\<lparr>p_user := u\<rparr>))
     (case u of None \<Rightarrow> skip | Some a \<Rightarrow> upd_user a (\<lambda>v. v\<lparr>m_refCount := addRef (m_refCount v)\<rparr>))"

definition User_addList :: "nat \<Rightarrow> unit wprog" where
  "User_addList a = bind (the_user a) (\<lambda>u. modify (\<lambda>w. w\<lparr>listUser := addList (u_id u) a (listUser w)\<rparr>))"

definition User_removeList :: "nat \<Rightarrow> unit wprog" where
  "User_removeList a = bind (the_user a) (\<lambda>u. modify (\<lambda>w. w\<lparr>listUser := removeList (u_id u) (listUser w)\<rparr>))"

definition User_create :: "nat option \<Rightarrow> nat wprog" where
  "User_create p = bind new_id (\<lambda>i. bind (gets (\<lambda>w. fresh (heap w))) (\<lambda>a.
     seq (modify (\<lambda>w. w\<lparr>heap := map_put a (User_new i p) (heap w)\<rparr>))
     (seq (case p of None \<Rightarrow> skip | Some p \<Rightarrow> setUser p (Some a)) (ret a))))"

definition User_delete :: "nat \<Rightarrow> unit wprog" where
  "User_delete a = bind (the_user a) (\<lambda>u.
     seq (case client u of None \<Rightarrow> skip | Some p \<Rightarrow> setUser p None)
     (seq (upd_user a (\<lambda>u. u\<lparr>client := None\<rparr>))
     (seq (User_removeList a)
       (modify (\<lambda>w. w\<lparr>heap := map_erase a (heap w), w_ids := AutoID_delete (auto_id u) (w_ids w)\<rparr>)))))"

text \<open>
  \<open>Talker::removeCreature\<close> and \<open>Protocol::logout\<close>; the closing of the connection is the
  recorded call.
\<close>

definition removeCreature :: "nat \<Rightarrow> unit wprog" where
  "removeCreature a = bind (the_user a) (\<lambda>u.
     modify (\<lambda>w. w\<lparr>listCreature := removeList (u_id u) (listCreature w)\<rparr>))"

definition logout :: "nat \<Rightarrow> unit wprog" where
  "logout p = bind (the_prot p) (\<lambda>pr. case p_user pr of None \<Rightarrow> skip | Some a \<Rightarrow> removeCreature a)"

definition kick :: "nat \<Rightarrow> unit wprog" where
  "kick a = bind (the_user a) (\<lambda>u. case client u of
     None \<Rightarrow> removeCreature a
   | Some p \<Rightarrow> seq (on_user a (on_client (Logout True))) (logout p))"

section \<open>Login\<close>

definition MIN_USERNAME_LEN :: nat where "MIN_USERNAME_LEN = 3"
definition MAX_USERNAME_LEN :: nat where "MAX_USERNAME_LEN = 12"
definition MIN_PASSWORD_LEN :: nat where "MIN_PASSWORD_LEN = 6"
definition MAX_LOGIN_ATTEMPTS :: u8 where "MAX_LOGIN_ATTEMPTS = 3"

abbreviation say :: "nat \<Rightarrow> piece list \<Rightarrow> unit wprog" where
  "say a ps \<equiv> on_user a (uPrintf ps)"

abbreviation nl :: string where
  "nl \<equiv> [NL]"

definition attempt :: "nat \<Rightarrow> unit wprog" where
  "attempt a = seq (upd_user a (\<lambda>u. u\<lparr>attempts := attempts u + 1\<rparr>)) (bind (the_user a) (\<lambda>u.
     if attempts u = MAX_LOGIN_ATTEMPTS then
       seq (say a [Lit (nl @ ''max attempts'' @ nl)]) (seq (kick a) (User_removeList a))
     else upd_user a (\<lambda>u. u\<lparr>stage := UserStage_LOGIN_NAME, password := None\<rparr>)))"

text \<open>
  The words a name prompt answers to: the first listed value whose name the input is, in the
  order of iteration; what stands behind the end iterator otherwise.
\<close>

definition login_coms :: "server \<Rightarrow> enum_tables" where
  "login_coms E = enum_of_rows (to_lower_copy E) ''LoginCom'' loginCom_rows"

fun find_com :: "server \<Rightarrow> string \<Rightarrow> int list \<Rightarrow> int wprog" where
  "find_com E s [] = (case end_value E of None \<Rightarrow> undefined_behaviour | Some v \<Rightarrow> ret v)"
| "find_com E s (v # vs) = bind (from_enum (enum_toString (login_coms E) v))
     (\<lambda>t. if iequals E t s then ret v else find_com E s vs)"

fun who_loop :: "nat \<Rightarrow> u32 \<Rightarrow> (u32 \<times> nat) list \<Rightarrow> u32 wprog" where
  "who_loop a i [] = ret i"
| "who_loop a i ((k, b) # us) = bind (the_user b) (\<lambda>u.
     if b = a \<or> level u = UserLevel_LOGIN then who_loop a i us
     else let i = i + 1 in
       seq (whenb (i mod 4 = 0) (say a [Lit nl])) (seq (say a [Pad 19 (u_name u)]) (who_loop a i us)))"

definition who :: "nat \<Rightarrow> unit wprog" where
  "who a = bind (gets listUser) (\<lambda>us. bind (who_loop a 0 us) (\<lambda>i. whenb (i = 0) (say a [Lit (''no1 :('' @ nl)])))"

text \<open>\<open>isalpha\<close> and \<open>toupper\<close> of the C locale.\<close>

definition is_upper :: "char \<Rightarrow> bool" where "is_upper c \<longleftrightarrow> 65 \<le> uc c \<and> uc c \<le> 90"
definition is_lower :: "char \<Rightarrow> bool" where "is_lower c \<longleftrightarrow> 97 \<le> uc c \<and> uc c \<le> 122"
definition isalpha :: "char \<Rightarrow> bool" where "isalpha c \<longleftrightarrow> is_upper c \<or> is_lower c"
definition toupper :: "char \<Rightarrow> char" where
  "toupper c = (if is_lower c then char_of (uc c - 32) else c)"

text \<open>\<open>name[0]=::toupper(name[0])\<close>: at \<open>name[0]\<close> of an empty name stands the NUL, which stays.\<close>

fun capitalise :: "string \<Rightarrow> string" where
  "capitalise [] = []"
| "capitalise (c # s) = toupper c # s"

text \<open>
  The branch for a name. The loop that checks for letters goes on after a bad one: there is no
  return in it.
\<close>

definition login_name :: "host \<Rightarrow> nat \<Rightarrow> string \<Rightarrow> unit wprog" where
  "login_name H a inpstr = bind (find_com (srv H) inpstr (enum_values (login_coms (srv H)))) (\<lambda>v.
     if v = LoginCom_QUIT then
       seq (say a [Lit (nl @ nl @ ''*** Login abandoned ***'' @ nl @ nl)]) (throw (Thrown UserStage_DISCONNECT))
     else if v = LoginCom_WHO then who a
     else if v = LoginCom_VERSION then
       seq (say a [Lit (nl @ ''Lotos++ '')]) (seq (say a [Lit (project_version (srv H))]) (say a [Lit nl]))
     else if length inpstr < MIN_USERNAME_LEN then
       seq (say a [Lit (nl @ ''too short'' @ nl @ nl)]) (attempt a)
     else if MAX_USERNAME_LEN < length inpstr then
       seq (say a [Lit (nl @ ''too long'' @ nl @ nl)]) (attempt a)
     else
       seq (for_each inpstr (\<lambda>c. whenb (\<not> isalpha c)
             (seq (say a [Lit (nl @ ''letters only'' @ nl @ nl)]) (attempt a))))
       (seq (upd_user a (\<lambda>u. u\<lparr>u_name := capitalise (to_lower_copy (srv H) inpstr)\<rparr>))
       (bind (the_user a) (\<lambda>me. bind (gets listUser) (\<lambda>us.
       seq (for_each us (\<lambda>(k, b). bind (the_user b) (\<lambda>u.
             whenb (level u = UserLevel_LOGIN \<and> b \<noteq> a \<and> iequals (srv H) (u_name u) (u_name me)) (kick b))))
       (bind (IOUser_load H a inpstr True) (\<lambda>found.
       seq (whenb (\<not> found) (say a [Lit (''creating new account'' @ nl)]))
         (upd_user a (\<lambda>u. u\<lparr>level := UserLevel_LOGIN, stage := UserStage_LOGIN_PWD\<rparr>)))))))))"

text \<open>
  \<open>uConnect\<close>: a user of the same name is an old session, which takes over this connection.
  Reading the address of a protocol is the parameter \<open>address_of\<close>; \<open>client->setUser\<close> with no
  client is undefined.
\<close>

fun uConnect_loop :: "host \<Rightarrow> nat \<Rightarrow> (u32 \<times> nat) list \<Rightarrow> unit wprog" where
  "uConnect_loop H a [] = on_user a (prompt (srv H))"
| "uConnect_loop H a ((k, b) # us) = bind (the_user a) (\<lambda>me. bind (the_user b) (\<lambda>u.
     if a \<noteq> b \<and> u_name me = u_name u then
       seq (say a [Lit (nl @ nl @ ''already logged in - switching to old session ...'' @ nl)])
       (seq (say a [Lit ''old addr: '', S (address_of (srv H) (client u))])
       (seq (say b [Lit (nl @ ''swapping this session to addr ''), S (address_of (srv H) (client me)), Lit (nl @ nl)])
       (seq (on_user b (on_client Disconnect))
       (seq (case client me of None \<Rightarrow> undefined_behaviour | Some p \<Rightarrow> setUser p (Some b))
       (seq (upd_user b (\<lambda>v. v\<lparr>client := client me\<rparr>))
       (seq (upd_user a (\<lambda>v. v\<lparr>client := None\<rparr>))
       (seq (User_removeList a)
       (seq (on_user b (prompt (srv H)))
         (throw (Thrown UserStage_SWAPPED))))))))))
     else uConnect_loop H a us))"

definition uConnect :: "host \<Rightarrow> nat \<Rightarrow> unit wprog" where
  "uConnect H a = bind (gets listUser) (uConnect_loop H a)"

definition login_new_pwd :: "host \<Rightarrow> nat \<Rightarrow> string \<Rightarrow> unit wprog" where
  "login_new_pwd H a inpstr = bind (w_crypt H inpstr []) (\<lambda>h.
     seq (upd_user a (\<lambda>u. u\<lparr>password := Some h\<rparr>))
     (seq (say a [Lit (nl @ nl @ ''confirm: '')])
       (upd_user a (\<lambda>u. u\<lparr>stage := UserStage_LOGIN_REENTER_PWD\<rparr>))))"

definition login_old_pwd :: "host \<Rightarrow> nat \<Rightarrow> string \<Rightarrow> string \<Rightarrow> unit wprog" where
  "login_old_pwd H a inpstr pw = bind (w_crypt H inpstr (c_str pw)) (\<lambda>h.
     if h = pw then
       bind (the_user a) (\<lambda>u. bind (IOUser_load H a (u_name u) False) (\<lambda>_.
       seq (upd_user a (\<lambda>u. u\<lparr>password := None, stage := UserStage_CMD_LINE\<rparr>)) (uConnect H a)))
     else seq (say a [Lit (nl @ nl @ ''wrong password'' @ nl @ nl)]) (attempt a))"

definition login_pwd :: "host \<Rightarrow> nat \<Rightarrow> string \<Rightarrow> unit wprog" where
  "login_pwd H a inpstr =
     (if length inpstr < MIN_PASSWORD_LEN then
        seq (say a [Lit (nl @ nl @ ''too short'' @ nl @ nl)]) (attempt a)
      else bind (the_user a) (\<lambda>u. case password u of
        None \<Rightarrow> login_new_pwd H a inpstr
      | Some pw \<Rightarrow> if pw = [] then login_new_pwd H a inpstr else login_old_pwd H a inpstr pw))"

definition login_reenter :: "host \<Rightarrow> nat \<Rightarrow> string \<Rightarrow> unit wprog" where
  "login_reenter H a inpstr = bind (the_user a) (\<lambda>u. case password u of
     None \<Rightarrow> undefined_behaviour
   | Some pw \<Rightarrow> bind (w_crypt H inpstr (c_str pw)) (\<lambda>h.
       if h \<noteq> pw then seq (say a [Lit (nl @ nl @ ''password nomatch'' @ nl @ nl)]) (attempt a)
       else if client u = None then undefined_behaviour
       else
         seq (on_user a (on_client SendEchoOn))
         (seq (upd_user a (\<lambda>u. u\<lparr>level := UserLevel_NOVICE\<rparr>))
         (bind (IOUser_create H a) (\<lambda>i.
         seq (upd_user a (\<lambda>u. u\<lparr>guid := ucast i, password := None\<rparr>))
         (seq (on_user a (uWrite ''press [ENTER] to login''))
           (upd_user a (\<lambda>u. u\<lparr>stage := UserStage_LOGIN_PROMPT\<rparr>))))))))"

definition login :: "host \<Rightarrow> nat \<Rightarrow> string \<Rightarrow> unit wprog" where
  "login H a inpstr = bind (the_user a) (\<lambda>u. case stage u of
     UserStage_NEW \<Rightarrow> login_name H a inpstr
   | UserStage_LOGIN_ID \<Rightarrow> login_name H a inpstr
   | UserStage_LOGIN_NAME \<Rightarrow> login_name H a inpstr
   | UserStage_LOGIN_PWD \<Rightarrow> login_pwd H a inpstr
   | UserStage_LOGIN_REENTER_PWD \<Rightarrow> login_reenter H a inpstr
   | _ \<Rightarrow> skip)"

section \<open>The command line\<close>

definition on_com :: "(std_exn, splitline, 'a) prog \<Rightarrow> 'a uprog" where
  "on_com m u = (case m (com u) of
     Ret x c \<Rightarrow> Ret x (u\<lparr>com := c\<rparr>) | Exn e c \<Rightarrow> Exn (Std e) (u\<lparr>com := c\<rparr>)
   | Undefined \<Rightarrow> Undefined | Hang \<Rightarrow> Hang)"

text \<open>The commands; \<open>new\<close> of a command takes an id, and nothing deletes the command.\<close>

definition Say_execute :: "nat \<Rightarrow> unit wprog" where
  "Say_execute a = bind (the_user a) (\<lambda>me.
     if length (word (com me)) < 2 then say a [Lit (''Usage: .say <text>'' @ nl)]
     else bind (on_user a (on_com (wordptr 1))) (\<lambda>t.
       seq (say a [Lit ''You say: '', S t, Lit nl])
       (bind (gets listUser) (\<lambda>us. for_each us (\<lambda>(k, b).
         whenb (b \<noteq> a) (bind (on_user a (on_com (wordptr 1))) (\<lambda>t.
           say b [S (u_name me), Lit '' say: '', S t, Lit nl])))))))"

definition Quit_execute :: "nat \<Rightarrow> unit wprog" where
  "Quit_execute a = seq (kick a) (User_removeList a)"

definition runCmdLine :: "host \<Rightarrow> nat \<Rightarrow> unit wprog" where
  "runCmdLine H a = bind (the_user a) (\<lambda>u.
     case word (com u) of
       [] \<Rightarrow> skip
     | w # _ \<Rightarrow>
         if w = [] then skip
         else if hd w = CHR ''.'' \<and> length w = 1 then
           seq (say a [Lit (''Missing command.'' @ nl)]) (on_user a (prompt (srv H)))
         else
           let w = (if hd w = CHR ''.'' then drop 1 w else w) in
           if iequals (srv H) w ''say'' then
             bind new_id (\<lambda>_. seq (Say_execute a) (on_user a (prompt (srv H))))
           else if iequals (srv H) w ''quit'' then bind new_id (\<lambda>_. Quit_execute a)
           else say a [Lit (''Unknown command.'' @ nl)])"

definition cur_text :: "user \<Rightarrow> string" where
  "cur_text u = textBuffer u ! buffnum u"

definition set_text :: "string \<Rightarrow> user \<Rightarrow> user" where
  "set_text t u = u\<lparr>textBuffer := (textBuffer u)[buffnum u := t]\<rparr>"

definition parseLine :: "host \<Rightarrow> nat \<Rightarrow> unit wprog" where
  "parseLine H a = bind (the_user a) (\<lambda>u.
     case cleanString (cur_text u) of
       None \<Rightarrow> undefined_behaviour
     | Some t \<Rightarrow>
         seq (upd_user a (set_text t))
         (seq (on_user a (on_com (parse t)))
         (seq (if stage u = UserStage_CMD_LINE then runCmdLine H a
               else seq (say a [Lit (''INTERNAL ERROR: Invalid stage in User::parseLine()!'' @ nl)])
                 (seq (upd_user a (\<lambda>u. u\<lparr>stage := UserStage_CMD_LINE\<rparr>)) (on_user a (prompt (srv H)))))
           (upd_user a (\<lambda>u. u\<lparr>buffnum := (if buffnum u = 0 then 1 else 0)\<rparr>)))))"

section \<open>Input\<close>

definition ASCII_BS :: nat where "ASCII_BS = 8"
definition ASCII_DEL :: nat where "ASCII_DEL = 127"

definition hides_input :: "user_stage \<Rightarrow> bool" where
  "hides_input st \<longleftrightarrow> st \<in> {UserStage_LOGIN_PWD, UserStage_LOGIN_NEW_PWD, UserStage_LOGIN_REENTER_PWD,
     UserStage_OLD_PWD, UserStage_NEW_PWD, UserStage_REENTER_PWD, UserStage_SUICIDE}"

text \<open>\<open>str.erase(tbpos)\<close> and \<open>str.replace(tbpos, 1, 1, c)\<close>; a negative \<open>int\<close> is a huge position.\<close>

definition edit_text :: "(string \<Rightarrow> nat \<Rightarrow> string option) \<Rightarrow> unit uprog" where
  "edit_text f u = (if tbpos u < 0 then Exn (Std Out_of_range) u
     else case f (cur_text u) (nat (tbpos u)) of
       None \<Rightarrow> Exn (Std Out_of_range) u | Some t \<Rightarrow> Ret () (set_text t u))"

definition key_back :: "unit uprog" where
  "key_back = bind (gets tbpos) (\<lambda>p. whenb (0 < p)
     (seq (modify (\<lambda>u. u\<lparr>tbpos := p - 1\<rparr>))
     (seq (edit_text str_erase_from) (uWrite [char_of ASCII_BS, CHR '' '', char_of ASCII_BS]))))"

definition key_char :: "char \<Rightarrow> unit uprog" where
  "key_char c = seq (edit_text (\<lambda>t p. str_replace t p 1 [c]))
     (seq (modify (\<lambda>u. u\<lparr>tbpos := tbpos u + 1\<rparr>))
     (bind (gets stage) (\<lambda>st. uWrite (if hides_input st then ''*'' else [c]))))"

definition end_line :: "unit uprog" where
  "end_line = seq (edit_text str_erase_from)
     (seq (modify (\<lambda>u. u\<lparr>inlinePrompt := [], tbpos := 0\<rparr>))
     (bind (gets flagsTelnet) (\<lambda>f.
        whenb (bit_isSet f TelnetFlag_ECHO \<and> bit_isSet f TelnetFlag_SGA) (uWrite [CR, NL]))))"

definition key_return :: "host \<Rightarrow> nat \<Rightarrow> unit wprog" where
  "key_return H a = seq (on_user a end_line) (bind (the_user a) (\<lambda>u.
     if level u = UserLevel_LOGIN then
       seq (login H a (cur_text u)) (bind (the_user a) (\<lambda>u.
         whenb (level u = UserLevel_LOGIN) (on_user a (prompt (srv H)))))
     else parseLine H a))"

definition key :: "host \<Rightarrow> nat \<Rightarrow> char \<Rightarrow> unit wprog" where
  "key H a c =
     (if c = CR then key_return H a
      else if c = NUL \<or> c = NL then skip
      else if uc c = ASCII_BS \<or> uc c = ASCII_DEL then on_user a key_back
      else on_user a (key_char c))"

text \<open>
  A telnet command: the rest of the input goes behind the \<open>bpos\<close> bytes kept from before; the
  result is the input that is left and the length it is taken to have, \<open>None\<close> when \<open>uRead\<close>
  returns.
\<close>

definition STR_MAX_SIZE :: nat where "STR_MAX_SIZE = 2 ^ 63 - 1"

definition take_telopt :: "server \<Rightarrow> char option \<Rightarrow> string \<Rightarrow> nat \<Rightarrow> nat \<Rightarrow> (string \<times> nat) option uprog" where
  "take_telopt E pb input len i = bind (gets id) (\<lambda>u.
     let remain = (if STR_MAX_SIZE < (len - i) + unat (bpos u) then STR_MAX_SIZE else len - i) in
     case str_substr_from input i of None \<Rightarrow> throw (Std Out_of_range) | Some s \<Rightarrow>
     case str_replace (buff u) (unat (bpos u)) remain s of None \<Rightarrow> throw (Std Out_of_range) | Some b \<Rightarrow>
     seq (modify (\<lambda>u. u\<lparr>buff := b, bpos := bpos u + of_nat remain\<rparr>))
     (bind (parseTelopt E pb) (\<lambda>complete. bind (gets id) (\<lambda>u.
       if \<not> complete \<or> bpos u = 0 then ret None
       else seq (modify (\<lambda>u. u\<lparr>bpos := 0\<rparr>)) (ret (Some (take (unat (bpos u)) (buff u), unat (bpos u))))))))"

text \<open>
  The loop of \<open>uRead\<close>. After a telnet command it goes on with the first character of what is
  left, whatever that is. \<open>Hang\<close> is a run of \<open>n\<close> rounds that did not end.
\<close>

fun uRead_loop :: "nat \<Rightarrow> host \<Rightarrow> nat \<Rightarrow> string \<Rightarrow> nat \<Rightarrow> nat \<Rightarrow> unit wprog" where
  "uRead_loop 0 H a input len i = hang"
| "uRead_loop (Suc n) H a input len i =
     (if len \<le> i then skip
      else case str_at input i of
        None \<Rightarrow> undefined_behaviour
      | Some c \<Rightarrow> bind (the_user a) (\<lambda>u.
          if c = IAC \<or> bpos u \<noteq> 0 then
            bind (on_user a (take_telopt (srv H) (pointer_byte H) input len i)) (\<lambda>rest.
              case rest of
                None \<Rightarrow> skip
              | Some (t, k) \<Rightarrow> bind (the_user a) (\<lambda>u.
                  seq (if stage u = UserStage_NEW then skip
                       else case str_at t 0 of None \<Rightarrow> undefined_behaviour | Some c \<Rightarrow> key H a c)
                    (uRead_loop n H a t k 1)))
          else
            seq (if stage u = UserStage_NEW then skip else key H a c) (uRead_loop n H a input len (i + 1))))"

text \<open>The message is passed by value; its length is taken before \<open>GetRaw\<close>.\<close>

definition uRead :: "host \<Rightarrow> nat \<Rightarrow> netmsg \<Rightarrow> unit wprog" where
  "uRead H a msg = (case GetRaw msg of
     Ret input _ \<Rightarrow> bind (the_user a) (\<lambda>u.
       uRead_loop (Suc (unat (m_MsgSize msg) + unat (bpos u))) H a input (unat (m_MsgSize msg)) 0)
   | Exn e _ \<Rightarrow> throw (Std e) | Undefined \<Rightarrow> undefined_behaviour | Hang \<Rightarrow> hang)"

section \<open>The Telnet protocol object\<close>

definition connect :: "nat \<Rightarrow> unit wprog" where
  "connect p = seq (upd_prot p (\<lambda>pr. pr\<lparr>p_refs := p_refs pr - 1, eventConnect := 0\<rparr>))
     (bind (the_prot p) (\<lambda>pr. case p_user pr of
        None \<Rightarrow> undefined_behaviour
      | Some a \<Rightarrow> seq (upd_user a (\<lambda>u. u\<lparr>m_refCount := addRef (m_refCount u), client := Some p\<rparr>))
          (upd_prot p (\<lambda>pr. pr\<lparr>m_acceptPackets := True\<rparr>))))"

definition parseFirstPacket :: "nat \<Rightarrow> unit wprog" where
  "parseFirstPacket p = bind (User_create (Some p)) (\<lambda>a.
     seq (upd_user a (\<lambda>u. u\<lparr>u_id := setID (auto_id u), stage := UserStage_LOGIN_ID\<rparr>))
     (seq (User_addList a)
     (seq (upd_prot p (\<lambda>pr. pr\<lparr>p_refs := p_refs pr + 1\<rparr>)) (connect p))))"

text \<open>\<open>delete user; user=nullptr\<close>: the user the protocol has now.\<close>

definition drop_user :: "nat \<Rightarrow> unit wprog" where
  "drop_user p = bind (the_prot p) (\<lambda>pr.
     seq (case p_user pr of None \<Rightarrow> skip | Some a \<Rightarrow> User_delete a)
       (upd_prot p (\<lambda>pr. pr\<lparr>p_user := None\<rparr>)))"

definition on_stage :: "nat \<Rightarrow> user_stage \<Rightarrow> unit wprog" where
  "on_stage p stg =
     (if stg = UserStage_DISCONNECT then
        bind (the_prot p) (\<lambda>pr. case p_user pr of
          None \<Rightarrow> undefined_behaviour
        | Some a \<Rightarrow> seq (on_user a (on_client Disconnect)) (drop_user p))
      else if stg = UserStage_SWAPPED then drop_user p
      else skip)"

definition catch_stage :: "'a wprog \<Rightarrow> (user_stage \<Rightarrow> 'a wprog) \<Rightarrow> 'a wprog" where
  "catch_stage m h w = (case m w of Exn (Thrown st) w' \<Rightarrow> h st w' | r \<Rightarrow> r)"

definition parsePacket :: "host \<Rightarrow> nat \<Rightarrow> netmsg \<Rightarrow> unit wprog" where
  "parsePacket H p msg = bind (the_prot p) (\<lambda>pr. case p_user pr of
     None \<Rightarrow> skip
   | Some a \<Rightarrow>
       if \<not> m_acceptPackets pr \<or> m_MsgSize msg = 0 then skip
       else catch_stage (uRead H a msg) (on_stage p))"

definition onRecvFirstMessage :: "host \<Rightarrow> nat \<Rightarrow> netmsg \<Rightarrow> unit wprog" where
  "onRecvFirstMessage H p msg = seq (parseFirstPacket p) (parsePacket H p msg)"

text \<open>
  The end of a protocol. \<open>releaseProtocol\<close> schedules itself again (the result) while it is
  referenced. The user is handed to the talker, which drops a reference when it shuts down.
\<close>

definition deleteProtocolTask :: "nat \<Rightarrow> unit wprog" where
  "deleteProtocolTask p = bind (the_prot p) (\<lambda>pr.
     seq (case p_user pr of None \<Rightarrow> skip
          | Some a \<Rightarrow> modify (\<lambda>w. w\<lparr>toReleaseThings := toReleaseThings w @ [a]\<rparr>))
       (modify (\<lambda>w. w\<lparr>prots := map_erase p (prots w)\<rparr>)))"

definition releaseProtocol :: "nat \<Rightarrow> bool wprog" where
  "releaseProtocol p = bind (the_prot p) (\<lambda>pr.
     seq (case p_user pr of None \<Rightarrow> skip
          | Some a \<Rightarrow> bind (the_user a) (\<lambda>u. whenb (client u = Some p) (upd_user a (\<lambda>u. u\<lparr>client := None\<rparr>))))
       (if 0 < p_refs pr then ret True else seq (deleteProtocolTask p) (ret False)))"

definition Talker_cleanup :: "unit wprog" where
  "Talker_cleanup = bind (gets toReleaseThings) (\<lambda>ts.
     seq (for_each ts (\<lambda>a. bind (the_user a) (\<lambda>u. case unRef (m_refCount u) of (r, dead) \<Rightarrow>
            seq (upd_user a (\<lambda>u. u\<lparr>m_refCount := r\<rparr>)) (whenb dead (User_delete a)))))
       (modify (\<lambda>w. w\<lparr>toReleaseThings := []\<rparr>)))"

section \<open>What happens to the server\<close>

text \<open>
  A client connects (its protocol object gets an address no live one has), sends its first
  packet and more, its connection is released, and the talker cleans up.
\<close>

datatype event = Accept | First nat netmsg | Packet nat netmsg | Release nat | Cleanup

definition Telnet_new :: protocol where
  "Telnet_new = \<lparr>p_user = None, p_refs = 0, eventConnect = 0, m_acceptPackets = False\<rparr>"

fun deliver :: "host \<Rightarrow> event \<Rightarrow> unit wprog" where
  "deliver H Accept = modify (\<lambda>w. w\<lparr>prots := map_put (fresh (prots w)) Telnet_new (prots w)\<rparr>)"
| "deliver H (First p msg) = onRecvFirstMessage H p msg"
| "deliver H (Packet p msg) = parsePacket H p msg"
| "deliver H (Release p) = bind (releaseProtocol p) (\<lambda>_. skip)"
| "deliver H Cleanup = Talker_cleanup"

definition world_new :: "db \<Rightarrow> world" where
  "world_new d = \<lparr>heap = [], listUser = [], listCreature = [], toReleaseThings = [], prots = [],
     w_db = d, w_ids = auto_ids_new, w_salts = 0\<rparr>"

end
