(* ===== verification/SessionSafety.thy ===== *)
theory SessionSafety
  imports Session
begin

text \<open>
  What the session code keeps: no entry of \<open>listUser\<close> dangles, whatever a client sends, and the
  level of a user who logs in. Each function of a \<open>User\<close> keeps the fields of its object that the
  registries depend on; the programs over the world inherit this through \<open>on_user\<close>.
\<close>

section \<open>Rules\<close>

lemma keeps_option [keeps_intros]:
  "(x = None \<Longrightarrow> keeps I m) \<Longrightarrow> (\<And>y. x = Some y \<Longrightarrow> keeps I (f y))
     \<Longrightarrow> keeps I (case x of None \<Rightarrow> m | Some y \<Rightarrow> f y)"
  by (cases x) auto

lemma keeps_prod [keeps_intros]: "(\<And>a b. keeps I (f a b)) \<Longrightarrow> keeps I (case p of (a, b) \<Rightarrow> f a b)"
  by (cases p) auto

lemma keeps_list [keeps_intros]:
  "(keeps I m) \<Longrightarrow> (\<And>y ys. keeps I (f y ys)) \<Longrightarrow> keeps I (case xs of [] \<Rightarrow> m | y # ys \<Rightarrow> f y ys)"
  by (cases xs) auto

lemma keeps_Let [keeps_intros]: "keeps I (f x) \<Longrightarrow> keeps I (let y = x in f y)"
  by simp

section \<open>The fields the user functions leave alone\<close>

text \<open>A test of a user that looks at its id, auto id and level alone.\<close>

definition stable :: "(user \<Rightarrow> bool) \<Rightarrow> bool" where
  "stable I \<longleftrightarrow> (\<forall>u v. u_id u = u_id v \<longrightarrow> auto_id u = auto_id v \<longrightarrow> level u = level v \<longrightarrow> I u \<longrightarrow> I v)"

lemma stableD: "stable I \<Longrightarrow> I u \<Longrightarrow> u_id v = u_id u \<Longrightarrow> auto_id v = auto_id u \<Longrightarrow> level v = level u \<Longrightarrow> I v"
  unfolding stable_def by metis

lemma stable_wrote: "stable I \<Longrightarrow> I u \<Longrightarrow> I (wrote_calls cs u)"
  by (erule (1) stableD) simp_all

lemma stable_same:
  "stable I \<Longrightarrow> I u \<Longrightarrow> I (u\<lparr>com := c\<rparr>)" "stable I \<Longrightarrow> I u \<Longrightarrow> I (u\<lparr>textBuffer := t\<rparr>)"
  by (erule (1) stableD, simp_all)+

lemma keeps_stable_modify [keeps_intros]:
  assumes "stable I" and "\<And>u. u_id (f u) = u_id u \<and> auto_id (f u) = auto_id u \<and> level (f u) = level u"
  shows "keeps I (modify f)"
  by (rule keeps_modify) (use assms in \<open>blast intro: stableD\<close>)

lemma keeps_output [keeps_intros]:
  assumes "stable I"
  shows "keeps I (uWrite m)" "keeps I (uPrintf ps)" "keeps I (on_client c)" "keeps I (prompt E)"
proof -
  show "keeps I (uWrite m)" "keeps I (uPrintf ps)" "keeps I (on_client c)"
    using stable_wrote [OF assms] by (auto intro!: keepsI simp: out_simps)
  show "keeps I (prompt E)"
  proof (rule keepsI)
    fix u assume "I u"
    moreover obtain cs where "prompt E u = Ret () (wrote_calls cs u)" using prompt_eval by blast
    ultimately show "out_all I (prompt E u)" using stable_wrote [OF assms] by simp
  qed
qed

lemma keeps_rd [keeps_intros]: "keeps I (rd i)"
  by (simp add: keeps_def rd_def split: option.split)

lemma keeps_flags [keeps_intros]: "stable I \<Longrightarrow> keeps I (setFlag f)" "stable I \<Longrightarrow> keeps I (unsetFlag f)"
  by (simp_all add: setFlag_def unsetFlag_def keeps_intros)

lemma keeps_getTermsize [keeps_intros]: "stable I \<Longrightarrow> keeps I getTermsize"
  unfolding getTermsize_def report_size_def Let_def by (intro keeps_intros) simp_all

lemma keeps_getTermtype [keeps_intros]: "stable I \<Longrightarrow> keeps I (getTermtype E)"
  unfolding getTermtype_def report_type_def by (intro keeps_intros) simp_all

lemma keeps_telopt_shift [keeps_intros]: "stable I \<Longrightarrow> keeps I (telopt_shift E pb)"
  unfolding telopt_shift_def telopt_will_def telopt_wont_def telopt_do_def telopt_dont_def warn_def Let_def
  by (intro keeps_intros) simp_all

lemma keeps_telopt_loop [keeps_intros]: "stable I \<Longrightarrow> keeps I (telopt_loop n E pb)"
proof (induction n)
  case (Suc n)
  then show ?case unfolding telopt_loop.simps telopt_finish_def by (intro keeps_intros) simp_all
qed (simp add: keeps_intros)

lemma keeps_parseTelopt [keeps_intros]: "stable I \<Longrightarrow> keeps I (parseTelopt E pb)"
  unfolding parseTelopt_def by (intro keeps_intros)

lemma keeps_on_com [keeps_intros]: "stable I \<Longrightarrow> keeps I (on_com m)"
  by (auto simp: keeps_def on_com_def split: out.split intro: stable_same)

lemma keeps_edit_text [keeps_intros]: "stable I \<Longrightarrow> keeps I (edit_text f)"
  by (auto simp: keeps_def edit_text_def set_text_def split: option.split intro: stable_same)

lemma keeps_keys [keeps_intros]:
  "stable I \<Longrightarrow> keeps I key_back" "stable I \<Longrightarrow> keeps I (key_char c)" "stable I \<Longrightarrow> keeps I end_line"
  unfolding key_back_def key_char_def end_line_def by (intro keeps_intros; simp)+

lemma keeps_take_telopt [keeps_intros]: "stable I \<Longrightarrow> keeps I (take_telopt E pb input len i)"
  unfolding take_telopt_def Let_def by (intro keeps_intros) simp_all

section \<open>The invariant of the world\<close>

text \<open>Every entry of \<open>listUser\<close> is a live user, under its own id.\<close>

definition listed :: "(nat, user) smap \<Rightarrow> (u32, nat) smap \<Rightarrow> bool" where
  "listed h l \<longleftrightarrow> (\<forall>i b. (i, b) \<in> set l \<longrightarrow> (\<exists>u. map_find h b = Some u \<and> u_id u = i))"

definition world_ok :: "world \<Rightarrow> bool" where
  "world_ok w \<longleftrightarrow> map_ok (heap w) \<and> map_ok (listUser w) \<and> listed (heap w) (listUser w)"

text \<open>With it, for a user on the way in: the level is still that of the login.\<close>

definition at_login :: "nat option \<Rightarrow> (nat, user) smap \<Rightarrow> bool" where
  "at_login x h \<longleftrightarrow> (\<forall>a u. x = Some a \<longrightarrow> map_find h a = Some u \<longrightarrow> level u = UserLevel_LOGIN)"

definition W :: "nat option \<Rightarrow> world \<Rightarrow> bool" where
  "W x w \<longleftrightarrow> world_ok w \<and> at_login x (heap w)"

definition U :: "nat option \<Rightarrow> nat \<Rightarrow> u32 \<Rightarrow> user \<Rightarrow> bool" where
  "U x a k u \<longleftrightarrow> u_id u = k \<and> (x = Some a \<longrightarrow> level u = UserLevel_LOGIN)"

lemma stable_U [simp]: "stable (U x a k)"
  by (auto simp: stable_def U_def)

lemma listed_put:
  "listed h l \<Longrightarrow> map_find h a = Some u \<Longrightarrow> u_id v = u_id u \<Longrightarrow> listed (map_put a v h) l"
  unfolding listed_def by (metis find_put_any option.inject)

lemma at_login_put: "at_login x h \<Longrightarrow> (x = Some a \<Longrightarrow> level v = UserLevel_LOGIN) \<Longrightarrow> at_login x (map_put a v h)"
  by (auto simp: at_login_def find_put_any)

lemma W_put:
  assumes "W x w" and "map_find (heap w) a = Some u" and "U x a (u_id u) v"
  shows "W x (w\<lparr>heap := map_put a v (heap w)\<rparr>)"
  using assms listed_put at_login_put unfolding W_def U_def world_ok_def by (simp add: map_ok_put)

lemma W_U: "W x w \<Longrightarrow> map_find (heap w) a = Some u \<Longrightarrow> U x a (u_id u) u"
  by (simp add: W_def U_def at_login_def)

lemma keeps_on_user [keeps_intros]:
  assumes "\<And>k. keeps (U x a k) m"
  shows "keeps (W x) (on_user a m)"
proof (rule keepsI)
  fix w assume w: "W x w"
  show "out_all (W x) (on_user a m w)"
  proof (cases "map_find (heap w) a")
    case (Some u)
    then have "U x a (u_id u) u" using W_U [OF w] by simp
    then have "out_all (U x a (u_id u)) (m u)" by (rule keepsD [OF assms])
    then show ?thesis using W_put [OF w Some] by (cases "m u") (simp_all add: on_user_def Some)
  qed (simp add: on_user_def)
qed

lemma keeps_the_user [keeps_intros]: "keeps I (the_user a)"
  by (simp add: keeps_def the_user_def split: option.split)

lemma keeps_upd_user [keeps_intros]:
  "(\<And>u. u_id (f u) = u_id u \<and> auto_id (f u) = auto_id u \<and> level (f u) = level u) \<Longrightarrow> keeps (W x) (upd_user a f)"
  unfolding upd_user_def by (intro keeps_intros) simp_all

lemma keeps_upd_user_level:
  "(\<And>u. u_id (f u) = u_id u) \<Longrightarrow> (x = Some a \<Longrightarrow> \<forall>u. level (f u) = UserLevel_LOGIN) \<Longrightarrow> keeps (W x) (upd_user a f)"
  unfolding upd_user_def by (rule keeps_on_user, rule keeps_modify) (auto simp: U_def)

text \<open>Programs that leave the heap and the list alone.\<close>

lemma keeps_modify_W [keeps_intros]:
  "(\<And>w. heap (f w) = heap w \<and> listUser (f w) = listUser w) \<Longrightarrow> keeps (W x) (modify f)"
  by (rule keeps_modify) (simp add: W_def world_ok_def)

lemma W_fields [simp]:
  "W x (w\<lparr>w_db := d\<rparr>) = W x w" "W x (w\<lparr>w_ids := s\<rparr>) = W x w" "W x (w\<lparr>w_salts := n\<rparr>) = W x w"
  "W x (w\<lparr>prots := ps\<rparr>) = W x w" "W x (w\<lparr>listCreature := l\<rparr>) = W x w"
  by (simp_all add: W_def world_ok_def)

lemma keeps_library [keeps_intros]:
  "keeps (W x) (on_db m)" "keeps (W x) (w_crypt H pw algo)" "keeps (W x) new_id" "keeps (W x) (upd_prot p f)"
  "keeps I (the_prot p)"
  by (auto simp: keeps_def on_db_def w_crypt_def new_id_def upd_prot_def the_prot_def split: out.split option.split)

lemma keeps_from_toString [keeps_intros]: "keeps I (from_enum (enum_toString t v))"
  by (auto simp: keeps_def from_enum_def enum_toString_def split: option.split list.split)

lemma keeps_from_fromInteger: "keeps I (bind (from_enum (enum_fromInteger t v)) f)"
  by (auto simp: keeps_def from_enum_def enum_fromInteger_def bind_def split: option.split)

section \<open>The objects\<close>

lemma set_erase: "map_ok m \<Longrightarrow> (i, b) \<in> set (map_erase k m) \<Longrightarrow> i \<noteq> k \<and> (i, b) \<in> set m"
proof (induction k m rule: map_erase.induct)
  case (2 k a c m)
  then have "k \<notin> fst ` set m" if "a = k" using that by (auto simp: map_keys_def)
  with 2 show ?case by (cases "a = k") force+
qed simp

lemma set_put: "(i, b) \<in> set (map_put k v m) \<Longrightarrow> (i, b) = (k, v) \<or> (i, b) \<in> set m"
  by (induction k v m rule: map_put.induct) (auto split: if_splits)

lemma listed_erase: "listed h l \<Longrightarrow> map_ok l \<Longrightarrow> listed h (map_erase k l)"
  unfolding listed_def using set_erase by metis

lemma W_removeList: "W x w \<Longrightarrow> W x (w\<lparr>listUser := removeList i (listUser w)\<rparr>)"
  by (simp add: W_def world_ok_def removeList_def map_ok_erase listed_erase)

lemma keeps_removeList [keeps_intros]: "keeps (W x) (User_removeList a)"
  unfolding User_removeList_def by (intro keeps_intros keeps_modify W_removeList)

lemma W_addList:
  assumes "W x w" and "map_find (heap w) a = Some u"
  shows "W x (w\<lparr>listUser := addList (u_id u) a (listUser w)\<rparr>)"
proof -
  have "listed (heap w) (map_put (u_id u) a (listUser w))"
    using assms set_put unfolding listed_def W_def world_ok_def by (metis prod.inject)
  then show ?thesis using assms by (simp add: W_def world_ok_def addList_def map_ok_put)
qed

lemma keeps_addList [keeps_intros]: "keeps (W x) (User_addList a)"
  by (auto intro!: keepsI W_addList simp: User_addList_def bind_def the_user_def prog_eval split: option.split)

lemma keeps_setUser [keeps_intros]: "keeps (W x) (setUser p u)"
  unfolding setUser_def by (intro keeps_intros) simp_all

lemma listed_drop:
  assumes "listed h l" "map_ok l" "map_ok h" "map_find h a = Some u"
  shows "listed (map_erase a h) (map_erase (u_id u) l)"
  unfolding listed_def
proof (intro allI impI)
  fix i b assume "(i, b) \<in> set (map_erase (u_id u) l)"
  then have "i \<noteq> u_id u" "(i, b) \<in> set l" using set_erase [OF assms(2)] by simp_all
  then obtain v where v: "map_find h b = Some v" "u_id v = i" using assms(1) unfolding listed_def by blast
  with \<open>i \<noteq> u_id u\<close> assms(4) have "b \<noteq> a" by auto
  with v show "\<exists>v. map_find (map_erase a h) b = Some v \<and> u_id v = i" using assms(3) by (simp add: find_erase)
qed

lemma keeps_delete [keeps_intros]: "keeps (W x) (User_delete a)"
proof -
  have last: "keeps (W x) (seq (User_removeList a) (modify (\<lambda>w. w\<lparr>heap := map_erase a (heap w), w_ids := f w\<rparr>)))"
    for f
  proof (rule keepsI)
    fix w assume w: "W x w"
    then show "out_all (W x) (seq (User_removeList a) (modify (\<lambda>w. w\<lparr>heap := map_erase a (heap w), w_ids := f w\<rparr>)) w)"
      by (auto simp: seq_def User_removeList_def bind_def the_user_def prog_eval W_def world_ok_def removeList_def
          map_ok_erase listed_drop at_login_def find_erase split: option.split)
  qed
  show ?thesis unfolding User_delete_def by (intro keeps_intros last) simp_all
qed

section \<open>Login and commands\<close>

lemma keeps_kick [keeps_intros]: "keeps (W x) (removeCreature a)" "keeps (W x) (logout p)" "keeps (W x) (kick a)"
proof -
  show r: "keeps (W x) (removeCreature a)" for a unfolding removeCreature_def by (intro keeps_intros) simp
  show l: "keeps (W x) (logout p)" for p unfolding logout_def by (intro keeps_intros r)
  show "keeps (W x) (kick a)" unfolding kick_def by (intro keeps_intros r l stable_U)
qed

lemma keeps_attempt [keeps_intros]: "keeps (W x) (attempt a)"
  unfolding attempt_def by (intro keeps_intros stable_U) simp_all

lemma keeps_find_com [keeps_intros]: "keeps (W x) (find_com E s vs)"
proof (induction vs)
  case (Cons v vs)
  then show ?case by (simp add: keeps_intros)
qed (auto intro: keeps_intros split: option.split)

lemma keeps_who [keeps_intros]: "keeps (W x) (who a)"
proof -
  have "keeps (W x) (who_loop a i us)" for i us
    by (induction us arbitrary: i) (auto simp: Let_def intro!: keeps_intros)
  then show ?thesis unfolding who_def by (intro keeps_intros stable_U)
qed

lemma keeps_load [keeps_intros]: "keeps (W x) (IOUser_load H a n preload)"
  unfolding IOUser_load_def by (intro keeps_intros keeps_from_fromInteger) simp_all

lemma keeps_create [keeps_intros]: "keeps (W x) (IOUser_create H a)"
  unfolding IOUser_create_def by (intro keeps_intros)

lemma keeps_login_name [keeps_intros]: "keeps (W x) (login_name H a s)"
  unfolding login_name_def by (intro keeps_intros keeps_upd_user_level stable_U) simp_all

lemma keeps_uConnect [keeps_intros]: "keeps (W x) (uConnect H a)"
proof -
  have "keeps (W x) (uConnect_loop H a us)" for us
    by (induction us) (auto intro!: keeps_intros split: option.split)
  then show ?thesis unfolding uConnect_def by (intro keeps_intros)
qed

lemma keeps_login_pwd [keeps_intros]: "keeps (W x) (login_pwd H a s)"
  unfolding login_pwd_def login_new_pwd_def login_old_pwd_def by (intro keeps_intros stable_U) simp_all

lemma keeps_login_reenter [keeps_intros]: "keeps (W None) (login_reenter H a s)"
  unfolding login_reenter_def by (intro keeps_intros keeps_upd_user_level stable_U) simp_all

lemma keeps_login [keeps_intros]: "keeps (W None) (login H a s)"
proof -
  have "keeps (W None) (case st of
     UserStage_NEW \<Rightarrow> login_name H a s | UserStage_LOGIN_ID \<Rightarrow> login_name H a s
   | UserStage_LOGIN_NAME \<Rightarrow> login_name H a s | UserStage_LOGIN_PWD \<Rightarrow> login_pwd H a s
   | UserStage_LOGIN_REENTER_PWD \<Rightarrow> login_reenter H a s | _ \<Rightarrow> skip)" for st
    by (cases st) (simp_all add: keeps_intros)
  then show ?thesis unfolding login_def by (intro keeps_intros)
qed

lemma keeps_commands [keeps_intros]: "keeps (W x) (Say_execute a)" "keeps (W x) (Quit_execute a)"
  unfolding Say_execute_def Quit_execute_def by (intro keeps_intros stable_U; simp)+

lemma keeps_runCmdLine [keeps_intros]: "keeps (W x) (runCmdLine H a)"
  unfolding runCmdLine_def Let_def by (intro keeps_intros stable_U)

lemma keeps_parseLine [keeps_intros]: "keeps (W x) (parseLine H a)"
  unfolding parseLine_def by (intro keeps_intros stable_U) (simp_all add: set_text_def)

lemma keeps_key [keeps_intros]: "keeps (W None) (key H a c)"
  unfolding key_def key_return_def by (intro keeps_intros stable_U)

lemma keeps_uRead_loop [keeps_intros]: "keeps (W None) (uRead_loop n H a input len i)"
proof (induction n arbitrary: input len i)
  case (Suc n)
  show ?case unfolding uRead_loop.simps by (intro keeps_intros Suc stable_U)
qed (simp add: keeps_intros)

lemma keeps_uRead [keeps_intros]: "keeps (W None) (uRead H a msg)"
  unfolding uRead_def by (cases "GetRaw msg") (auto intro!: keeps_intros)

section \<open>The protocol object\<close>

lemma keeps_catch [keeps_intros]:
  "keeps I m \<Longrightarrow> (\<And>st. keeps I (h st)) \<Longrightarrow> keeps I (catch_stage m h)"
proof (rule keepsI)
  fix w assume m: "keeps I m" and h: "\<And>st. keeps I (h st)" and "I w"
  then have "out_all I (m w)" by (blast dest: keepsD)
  then show "out_all I (catch_stage m h w)"
    by (auto simp: catch_stage_def keepsD [OF h] split: out.split uexn.split)
qed

lemma keeps_on_stage [keeps_intros]: "keeps (W None) (on_stage p st)"
  unfolding on_stage_def drop_user_def by (intro keeps_intros stable_U)

lemma keeps_parsePacket [keeps_intros]: "keeps (W None) (parsePacket H p msg)"
  unfolding parsePacket_def by (intro keeps_intros)

lemma keeps_release [keeps_intros]: "keeps (W x) (releaseProtocol p)"
  unfolding releaseProtocol_def deleteProtocolTask_def by (intro keeps_intros) simp_all

lemma keeps_cleanup [keeps_intros]: "keeps (W x) Talker_cleanup"
  unfolding Talker_cleanup_def by (intro keeps_intros) simp_all

lemma keeps_connect [keeps_intros]: "keeps (W x) (connect p)"
  unfolding connect_def by (intro keeps_intros) simp_all

text \<open>A new user stands in no list until it has its id.\<close>

definition unlisted :: "nat \<Rightarrow> world \<Rightarrow> bool" where
  "unlisted a w \<longleftrightarrow> W None w \<and> (\<forall>i. (i, a) \<notin> set (listUser w))"

lemma keeps_unlisted_upd: "keeps (unlisted a) (upd_user a f)"
proof (rule keepsI)
  fix w assume w: "unlisted a w"
  have "listed (map_put a v (heap w)) (listUser w)" for v
    using w unfolding unlisted_def listed_def W_def world_ok_def by (metis find_put_any)
  then show "out_all (unlisted a) (upd_user a f w)"
    using w by (auto simp: upd_user_def on_user_def prog_eval unlisted_def W_def world_ok_def at_login_def map_ok_put
        split: option.split)
qed

lemma keeps_unlisted_prot: "keeps (unlisted a) (upd_prot p f)"
  by (auto simp: keeps_def upd_prot_def unlisted_def split: option.split)

lemma fresh_unused: "k \<in> set (map_keys m) \<Longrightarrow> k < fresh m"
  unfolding fresh_def by (induction m) (auto simp: less_Suc_eq_le)

lemma unlisted_new:
  assumes "W None w"
  shows "unlisted (fresh (heap w)) (w\<lparr>w_ids := s, heap := map_put (fresh (heap w)) u (heap w)\<rparr>)"
proof -
  let ?a = "fresh (heap w)"
  have none: "map_find (heap w) ?a = None" using fresh_unused by (metis map_find_None_iff less_irrefl)
  have "(i, ?a) \<notin> set (listUser w)" for i
    using assms none unfolding W_def world_ok_def listed_def by (metis option.distinct(1))
  moreover from this have "listed (map_put ?a u (heap w)) (listUser w)"
    using assms unfolding W_def world_ok_def listed_def by (metis find_put_any)
  ultimately show ?thesis
    using assms by (simp add: unlisted_def W_def world_ok_def at_login_def map_ok_put)
qed

lemma out_all_seq:
  "out_all J (m w) \<Longrightarrow> (\<And>t. J t \<Longrightarrow> I t) \<Longrightarrow> (\<And>t. J t \<Longrightarrow> out_all I (n t)) \<Longrightarrow> out_all I (seq m n w)"
  by (cases "m w") (simp_all add: seq_def bind_def)

lemma seq_assoc: "bind (seq m (ret a)) f = seq m (f a)"
  by (rule ext) (simp add: seq_def bind_def ret_def split: out.split)

lemma keeps_parseFirstPacket [keeps_intros]: "keeps (W None) (parseFirstPacket p)"
proof (rule keepsI)
  fix w assume w: "W None w"
  show "out_all (W None) (parseFirstPacket p w)"
  proof (cases "AutoID_new (w_ids w)")
    case (Some r)
    obtain i s where r: "r = (i, s)" by (cases r)
    let ?a = "fresh (heap w)"
    let ?rest = "seq (upd_user ?a (\<lambda>u. u\<lparr>u_id := setID (auto_id u), stage := UserStage_LOGIN_ID\<rparr>))
      (seq (User_addList ?a) (seq (upd_prot p (\<lambda>pr. pr\<lparr>p_refs := p_refs pr + 1\<rparr>)) (connect p)))"
    let ?w = "w\<lparr>w_ids := s, heap := map_put ?a (User_new i (Some p)) (heap w)\<rparr>"
    have "parseFirstPacket p w = seq (setUser p (Some ?a)) ?rest ?w"
      by (simp add: parseFirstPacket_def User_create_def new_id_def Some r bind_def seq_def prog_eval ret_def
          split: out.split)
    moreover have "out_all (W None) (seq (setUser p (Some ?a)) ?rest ?w)"
    proof (rule out_all_seq [where J = "unlisted ?a"])
      show "out_all (unlisted ?a) (setUser p (Some ?a) ?w)"
        by (rule keepsD [where I = "unlisted ?a"], simp add: setUser_def keeps_seq keeps_unlisted_prot keeps_unlisted_upd)
          (rule unlisted_new [OF w])
      fix t assume t: "unlisted ?a t"
      show "out_all (W None) (?rest t)"
      proof (rule out_all_seq [where J = "unlisted ?a"])
        show "out_all (unlisted ?a) (upd_user ?a (\<lambda>u. u\<lparr>u_id := setID (auto_id u), stage := UserStage_LOGIN_ID\<rparr>) t)"
          by (rule keepsD [where I = "unlisted ?a", OF keeps_unlisted_upd t])
        fix t' assume "unlisted ?a t'"
        then show "out_all (W None) (seq (User_addList ?a)
            (seq (upd_prot p (\<lambda>pr. pr\<lparr>p_refs := p_refs pr + 1\<rparr>)) (connect p)) t')"
          by (intro keepsD [of "W None"] keeps_intros) (simp_all add: unlisted_def)
      qed (simp_all add: unlisted_def)
    qed (simp_all add: unlisted_def)
    ultimately show ?thesis by simp
  qed (simp add: parseFirstPacket_def User_create_def new_id_def bind_def)
qed

lemma keeps_deliver: "keeps (W None) (deliver H e)"
  by (cases e) (auto simp: onRecvFirstMessage_def intro!: keeps_intros)

lemma W_None: "W None = world_ok"
  by (simp add: fun_eq_iff W_def at_login_def)

text \<open>
  Claim C19: whatever the clients send and in whatever order connections come and go, as long as
  the server runs every entry of \<open>listUser\<close> is the address of a live \<open>User\<close> under the id it was
  entered with; so no loop over the list follows a dangling pointer.
\<close>

theorem no_dangling_users:
  "out_all world_ok (for_each es (deliver H) (world_new d))"
proof -
  have "keeps world_ok (for_each es (deliver H))"
    using keeps_deliver by (intro keeps_for_each) (simp add: W_None)
  then show ?thesis
    by (rule keepsD) (simp add: world_ok_def world_new_def listed_def)
qed

text \<open>
  Claim C20: a user's level leaves \<open>UserLevel_LOGIN\<close> only when the password of a new account is
  confirmed. At every other stage of the login, right password or not, a line entered leaves
  the user at that level, whether \<open>login\<close> returns or throws: an existing account never gets in.
\<close>

theorem only_new_accounts_get_in:
  assumes "world_ok w" and "map_find (heap w) a = Some u" and "level u = UserLevel_LOGIN"
    and "stage u \<noteq> UserStage_LOGIN_REENTER_PWD"
  shows "out_all (\<lambda>w'. at_login (Some a) (heap w')) (login H a s w)"
proof -
  have "W (Some a) w" using assms by (simp add: W_def at_login_def)
  moreover have "login H a s w = (case stage u of
     UserStage_NEW \<Rightarrow> login_name H a s | UserStage_LOGIN_ID \<Rightarrow> login_name H a s
   | UserStage_LOGIN_NAME \<Rightarrow> login_name H a s | UserStage_LOGIN_PWD \<Rightarrow> login_pwd H a s
   | UserStage_LOGIN_REENTER_PWD \<Rightarrow> login_reenter H a s | _ \<Rightarrow> skip) w"
    using assms(2) by (simp add: login_def bind_def the_user_def)
  moreover have "keeps (W (Some a)) (case stage u of
     UserStage_NEW \<Rightarrow> login_name H a s | UserStage_LOGIN_ID \<Rightarrow> login_name H a s
   | UserStage_LOGIN_NAME \<Rightarrow> login_name H a s | UserStage_LOGIN_PWD \<Rightarrow> login_pwd H a s
   | UserStage_LOGIN_REENTER_PWD \<Rightarrow> login_reenter H a s | _ \<Rightarrow> skip)"
    using assms(4) by (cases "stage u") (simp_all add: keeps_intros)
  ultimately have "out_all (W (Some a)) (login H a s w)" using keepsD by metis
  then show ?thesis by (cases "login H a s w") (simp_all add: W_def)
qed

theorem only_new_accounts_get_in_witness:
  "\<forall>H d. out_all (\<lambda>w'. at_login (Some 1) (heap w'))
     (login H 1 ''secret'' ((world_new d)\<lparr>heap := [(1, (User_new 1000 None)\<lparr>stage := UserStage_LOGIN_PWD\<rparr>)]\<rparr>))"
  by (intro allI, rule only_new_accounts_get_in [where u = "(User_new 1000 None)\<lparr>stage := UserStage_LOGIN_PWD\<rparr>"])
    (simp_all add: world_ok_def world_new_def listed_def User_new_def)

end
