(* ===== verification/SessionLine.thy ===== *)
theory SessionLine
  imports SessionSafety
begin

text \<open>
  The line editor of \<open>uRead\<close> as a refinement of an abstract one: what is typed, with the deleting
  keys applied, is the line \<open>login\<close> or \<open>parseLine\<close> gets. The buffer the code edits may hold the
  rest of an older line behind the cursor; only the part before the cursor counts.
\<close>

section \<open>The abstract editor\<close>

definition edit_key :: "string \<Rightarrow> char \<Rightarrow> string" where
  "edit_key t c =
     (if c = NUL \<or> c = NL then t
      else if uc c = ASCII_BS \<or> uc c = ASCII_DEL then butlast t
      else t @ [c])"

definition edit_keys :: "string \<Rightarrow> string \<Rightarrow> string" where
  "edit_keys t s = foldl edit_key t s"

text \<open>The abstraction: the text before the cursor.\<close>

definition typed :: "user \<Rightarrow> string" where
  "typed u = take (nat (tbpos u)) (cur_text u)"

definition ed_ok :: "user \<Rightarrow> bool" where
  "ed_ok u \<longleftrightarrow> 0 \<le> tbpos u \<and> nat (tbpos u) \<le> length (cur_text u) \<and> buffnum u < length (textBuffer u)"

text \<open>What typing leaves alone.\<close>

definition same_line :: "user \<Rightarrow> user \<Rightarrow> bool" where
  "same_line u v \<longleftrightarrow> stage v = stage u \<and> level v = level u \<and> bpos v = bpos u \<and> buff v = buff u
     \<and> client v = client u \<and> u_name v = u_name u \<and> password v = password u \<and> u_id v = u_id u"

lemma same_line_refl [simp]: "same_line u u"
  by (simp add: same_line_def)

lemma same_line_trans: "same_line u v \<Longrightarrow> same_line v z \<Longrightarrow> same_line u z"
  by (simp add: same_line_def)

lemma cur_text_simps [simp]:
  "cur_text (wrote_calls cs u) = cur_text u" "cur_text (u\<lparr>tbpos := p\<rparr>) = cur_text u"
  "cur_text (u\<lparr>inlinePrompt := q\<rparr>) = cur_text u"
  "buffnum u < length (textBuffer u) \<Longrightarrow> cur_text (set_text t u) = t"
  by (simp_all add: cur_text_def set_text_def)

lemma set_text_fields [simp]:
  "tbpos (set_text t u) = tbpos u" "buffnum (set_text t u) = buffnum u" "stage (set_text t u) = stage u"
  "level (set_text t u) = level u" "bpos (set_text t u) = bpos u" "buff (set_text t u) = buff u"
  "client (set_text t u) = client u" "u_name (set_text t u) = u_name u" "password (set_text t u) = password u"
  "u_id (set_text t u) = u_id u" "flagsTelnet (set_text t u) = flagsTelnet u"
  "length (textBuffer (set_text t u)) = length (textBuffer u)"
  by (simp_all add: set_text_def)

lemmas editor_defs = ed_ok_def typed_def same_line_def edit_text_def str_erase_from_def str_replace_def

lemma key_char_step:
  assumes "ed_ok u"
  shows "\<exists>v. key_char c u = Ret () v \<and> ed_ok v \<and> typed v = typed u @ [c] \<and> same_line u v"
proof -
  have "\<not> tbpos u < 0" "nat (tbpos u) \<le> length (cur_text u)" "buffnum u < length (textBuffer u)"
    using assms by (simp_all add: ed_ok_def)
  then show ?thesis
    by (simp add: key_char_def seq_def bind_def prog_eval editor_defs uWrite_eval nat_add_distrib)
qed

lemma key_back_step:
  assumes "ed_ok u"
  shows "\<exists>v. key_back u = Ret () v \<and> ed_ok v \<and> typed v = butlast (typed u) \<and> same_line u v"
proof (cases "0 < tbpos u")
  case True
  have "nat (tbpos u) \<le> length (cur_text u)" "buffnum u < length (textBuffer u)"
    using assms by (simp_all add: ed_ok_def)
  then show ?thesis using True
    by (simp add: key_back_def whenb_eval seq_def bind_def prog_eval editor_defs uWrite_eval nat_diff_distrib butlast_take)
next
  case False
  then have "tbpos u = 0" using assms by (simp add: ed_ok_def)
  then show ?thesis using assms by (simp add: key_back_def whenb_eval bind_def prog_eval typed_def)
qed

lemma end_line_step:
  assumes "ed_ok u"
  shows "\<exists>v. end_line u = Ret () v \<and> ed_ok v \<and> cur_text v = typed u \<and> tbpos v = 0 \<and> same_line u v"
proof -
  have "\<not> tbpos u < 0" "nat (tbpos u) \<le> length (cur_text u)" "buffnum u < length (textBuffer u)"
    using assms by (simp_all add: ed_ok_def)
  then show ?thesis
    by (simp add: end_line_def whenb_def seq_def bind_def prog_eval editor_defs uWrite_eval)
qed

section \<open>The loop\<close>

lemma put_put: "map_put a v (map_put a u h) = map_put a v h"
  by (induction a u h rule: map_put.induct) auto

lemma put_same: "map_ok h \<Longrightarrow> map_find h a = Some u \<Longrightarrow> map_put a u h = h"
proof (induction a u h rule: map_put.induct)
  case (2 k v a b m)
  show ?case
  proof (cases "k = a")
    case False
    then have "k \<in> set (map_keys m)" using 2(3) map_find_None_iff [of m k] by simp
    then show ?thesis using 2 False by auto
  qed (use 2 in simp)
qed simp

lemma the_user_eval [out_simps]: "map_find (heap w) a = Some u \<Longrightarrow> the_user a w = Ret u w"
  by (simp add: the_user_def)

lemma key_step:
  assumes "map_find (heap w) a = Some u" and "map_ok (heap w)" and "ed_ok u" and "c \<noteq> CR"
  shows "\<exists>v. key H a c w = Ret () (w\<lparr>heap := map_put a v (heap w)\<rparr>) \<and> ed_ok v
     \<and> typed v = edit_key (typed u) c \<and> same_line u v"
proof -
  consider (none) "c = NUL \<or> c = NL" | (del) "\<not> (c = NUL \<or> c = NL)" "uc c = ASCII_BS \<or> uc c = ASCII_DEL"
    | (chr) "\<not> (c = NUL \<or> c = NL)" "\<not> (uc c = ASCII_BS \<or> uc c = ASCII_DEL)" by blast
  then show ?thesis
  proof cases
    case none
    then show ?thesis using assms by (intro exI [of _ u]) (auto simp: key_def edit_key_def prog_eval put_same)
  next
    case del
    obtain v where "key_back u = Ret () v \<and> ed_ok v \<and> typed v = butlast (typed u) \<and> same_line u v"
      using key_back_step assms(3) by blast
    then show ?thesis using del assms by (intro exI [of _ v]) (simp add: key_def edit_key_def on_user_Ret)
  next
    case chr
    obtain v where "key_char c u = Ret () v \<and> ed_ok v \<and> typed v = typed u @ [c] \<and> same_line u v"
      using key_char_step assms(3) by blast
    then show ?thesis using chr assms by (intro exI [of _ v]) (simp add: key_def edit_key_def on_user_Ret)
  qed
qed

lemma uRead_typing:
  assumes "map_find (heap w) a = Some u" and "map_ok (heap w)" and "ed_ok u"
    and "bpos u = 0" and "stage u \<noteq> UserStage_NEW" and "CR \<notin> set s" and "IAC \<notin> set s"
  shows "\<exists>v. uRead_loop (length s + n) H a (pre @ s @ t) (length (pre @ s @ t)) (length pre) w
       = uRead_loop n H a (pre @ s @ t) (length (pre @ s @ t)) (length pre + length s)
           (w\<lparr>heap := map_put a v (heap w)\<rparr>)
     \<and> ed_ok v \<and> typed v = edit_keys (typed u) s \<and> same_line u v"
  using assms
proof (induction s arbitrary: w u pre)
  case Nil
  then show ?case by (intro exI [of _ u]) (simp add: put_same edit_keys_def)
next
  case (Cons c s)
  obtain v where v: "key H a c w = Ret () (w\<lparr>heap := map_put a v (heap w)\<rparr>)" "ed_ok v"
      "typed v = edit_key (typed u) c" "same_line u v"
    using key_step [of w a u c H] Cons.prems by auto
  let ?w = "w\<lparr>heap := map_put a v (heap w)\<rparr>" and ?in = "pre @ (c # s) @ t"
  have "c \<noteq> IAC" "c \<noteq> CR" using Cons.prems by auto
  moreover have "str_at ?in (length pre) = Some c" by (simp add: str_at_def nth_append)
  ultimately have "uRead_loop (Suc (length s + n)) H a ?in (length ?in) (length pre) w
      = uRead_loop (length s + n) H a ?in (length ?in) (length pre + 1) ?w"
    using Cons.prems v by (simp add: bind_def seq_def the_user_def)
  moreover have "\<exists>z. uRead_loop (length s + n) H a ((pre @ [c]) @ s @ t) (length ((pre @ [c]) @ s @ t)) (length (pre @ [c])) ?w
       = uRead_loop n H a ((pre @ [c]) @ s @ t) (length ((pre @ [c]) @ s @ t)) (length (pre @ [c]) + length s)
           (?w\<lparr>heap := map_put a z (heap ?w)\<rparr>)
     \<and> ed_ok z \<and> typed z = edit_keys (typed v) s \<and> same_line v z"
    using Cons.prems v by (intro Cons.IH) (simp_all add: find_put_any map_ok_put same_line_def)
  ultimately show ?case
    using v by (auto simp: put_put edit_keys_def intro: same_line_trans)
qed

text \<open>
  Claim C21: a line typed at a prompt reaches the program as typed. For a message of characters
  without telnet commands that ends in a carriage return, \<open>uRead\<close> hands exactly the text typed
  since the last return, with each backspace or delete taking off the last character left, to
  \<open>login\<close> or to \<open>parseLine\<close>, and the cursor is back at the start.
\<close>

theorem typed_line_delivered:
  assumes "map_find (heap w) a = Some u" and "map_ok (heap w)" and "ed_ok u"
    and "bpos u = 0" and "stage u \<noteq> UserStage_NEW" and "CR \<notin> set s" and "IAC \<notin> set s"
    and "GetRaw msg = Ret (s @ [CR]) msg'" and "unat (m_MsgSize msg) = length s + 1"
  shows "\<exists>v. uRead H a msg w =
      (if level u = UserLevel_LOGIN
       then seq (login H a (edit_keys (typed u) s)) (bind (the_user a) (\<lambda>u.
              whenb (level u = UserLevel_LOGIN) (on_user a (prompt (srv H)))))
       else parseLine H a) (w\<lparr>heap := map_put a v (heap w)\<rparr>)
    \<and> cur_text v = edit_keys (typed u) s \<and> tbpos v = 0 \<and> same_line u v"
proof -
  have "\<exists>v. uRead_loop (length s + 2) H a (s @ [CR]) (length s + 1) 0 w
       = uRead_loop 2 H a (s @ [CR]) (length s + 1) (length s) (w\<lparr>heap := map_put a v (heap w)\<rparr>)
     \<and> ed_ok v \<and> typed v = edit_keys (typed u) s \<and> same_line u v"
    using uRead_typing [OF assms(1-7), of 2 H "[]" "[CR]"] by simp
  then obtain v where v: "uRead_loop (length s + 2) H a (s @ [CR]) (length s + 1) 0 w
       = uRead_loop 2 H a (s @ [CR]) (length s + 1) (length s) (w\<lparr>heap := map_put a v (heap w)\<rparr>)"
      "ed_ok v" "typed v = edit_keys (typed u) s" "same_line u v"
    by blast
  obtain z where z: "end_line v = Ret () z" "cur_text z = typed v" "tbpos z = 0" "same_line v z"
    using end_line_step [OF v(2)] by blast
  let ?w = "w\<lparr>heap := map_put a v (heap w)\<rparr>" and ?z = "w\<lparr>heap := map_put a z (heap w)\<rparr>"
  have "CR \<noteq> IAC" "str_at (s @ [CR]) (length s) = Some CR"
    by (code_simp, simp add: str_at_def)
  then have "uRead_loop 2 H a (s @ [CR]) (length s + 1) (length s) ?w = seq (key_return H a) skip ?w"
    using v(4) assms(4,5) by (simp add: numeral_2_eq_2 bind_def the_user_def find_put_any same_line_def key_def
        seq_def skip_def ret_def split: out.split)
  also have "\<dots> = key_return H a ?w" by (simp add: seq_def bind_def skip_def ret_def split: out.split)
  also have "\<dots> = (if level u = UserLevel_LOGIN
       then seq (login H a (edit_keys (typed u) s)) (bind (the_user a) (\<lambda>u.
              whenb (level u = UserLevel_LOGIN) (on_user a (prompt (srv H)))))
       else parseLine H a) ?z"
    using v(3,4) z by (simp add: key_return_def seq_def bind_def on_user_def the_user_def find_put_any put_put
        same_line_def)
  finally have step: "uRead_loop 2 H a (s @ [CR]) (length s + 1) (length s) ?w = (if level u = UserLevel_LOGIN
       then seq (login H a (edit_keys (typed u) s)) (bind (the_user a) (\<lambda>u.
              whenb (level u = UserLevel_LOGIN) (on_user a (prompt (srv H)))))
       else parseLine H a) ?z"
    .
  have "uRead H a msg w = uRead_loop (length s + 2) H a (s @ [CR]) (length s + 1) 0 w"
    using assms(1,4,8,9) by (simp add: uRead_def bind_def the_user_def del: uRead_loop.simps)
  also have "\<dots> = uRead_loop 2 H a (s @ [CR]) (length s + 1) (length s) ?w" by (rule v(1))
  finally show ?thesis unfolding step using v(3,4) z by (auto intro: same_line_trans)
qed

theorem typed_line_delivered_witness:
  "\<forall>H d. \<exists>v. uRead H 1 (\<lparr>m_MsgSize = 5, m_ReadPos = 0, m_MsgBuf = [98, 111, 120, 8, 13]\<rparr> :: netmsg)
        ((world_new d)\<lparr>heap := [(1, (User_new 1000 None)\<lparr>stage := UserStage_LOGIN_ID\<rparr>)]\<rparr>) =
      seq (login H 1 ''bo'') (bind (the_user 1) (\<lambda>u.
        whenb (level u = UserLevel_LOGIN) (on_user 1 (prompt (srv H)))))
      ((world_new d)\<lparr>heap := [(1, v)]\<rparr>) \<and> cur_text v = ''bo''"
proof -
  let ?u = "(User_new 1000 None)\<lparr>stage := UserStage_LOGIN_ID\<rparr>" and ?s = "[CHR ''b'', CHR ''o'', CHR ''x'', CHR 0x08]"
  let ?m = "\<lparr>m_MsgSize = 5, m_ReadPos = 0, m_MsgBuf = [98, 111, 120, 8, 13]\<rparr> :: netmsg"
  have raw: "GetRaw ?m = Ret (?s @ [CR]) (?m\<lparr>m_ReadPos := 5\<rparr>)" by code_simp
  have chars: "CR \<notin> set ?s" "IAC \<notin> set ?s" "edit_keys [] ?s = ''bo''" by code_simp+
  have ed: "ed_ok ?u" "typed ?u = []" by (simp_all add: ed_ok_def typed_def User_new_def)
  show ?thesis
    using typed_line_delivered [of "(world_new _)\<lparr>heap := [(1, ?u)]\<rparr>" 1 ?u ?s ?m "?m\<lparr>m_ReadPos := 5\<rparr>"] ed chars raw
    by (auto simp: world_new_def User_new_def)
qed

end
