(* ===== verification/LoginFlow.thy ===== *)
theory LoginFlow
  imports SessionLine
begin

text \<open>
  What single steps of a session do: a failed attempt, a name with other characters than
  letters, the line after an account was created, and the take-over of an old session.
\<close>

section \<open>Attempts\<close>

lemma max_attempts_text:
  "uPrintf [Lit (nl @ ''max attempts'' @ nl)] = uWrite ([CR, NL] @ ''max attempts'' @ [CR, NL])"
proof -
  have "crlf (drop_slash (c_str (stringFormat [Lit (nl @ ''max attempts'' @ nl)])))
      = [CR, NL] @ ''max attempts'' @ [CR, NL]" by code_simp
  then show ?thesis by (simp only: fun_eq_iff printf_loop_spec uPrintf_def) simp
qed

text \<open>
  Claim C22: a failed attempt sends the user back to the name prompt without a password, except
  the third: it takes the user out of the list of users, and its one effect on the connection is
  a request to close it.
\<close>

theorem attempt_counts:
  assumes "map_find (heap w) a = Some u" and "client u = Some p" and "map_find (prots w) p = Some pr"
    and "p_user pr = Some a" and "map_ok (listUser w)"
  shows "\<exists>w' v. attempt a w = Ret () w' \<and> map_find (heap w') a = Some v \<and> attempts v = attempts u + 1
    \<and> (if attempts u = 2
       then map_find (listUser w') (u_id u) = None \<and> stage v = stage u
         \<and> calls v = calls u @ [(p, Write ([CR, NL] @ ''max attempts'' @ [CR, NL])), (p, Logout True)]
       else listUser w' = listUser w \<and> stage v = UserStage_LOGIN_NAME \<and> password v = None \<and> calls v = calls u)"
proof (cases "attempts u = 2")
  case True
  show ?thesis using True assms
    by (simp add: attempt_def upd_user_def seq_def bind_def on_user_def prog_eval the_user_def find_put_any
        MAX_LOGIN_ATTEMPTS_def max_attempts_text [simplified append.simps] uWrite_eval kick_def logout_def the_prot_def removeCreature_def
        User_removeList_def on_client_eval wrote_calls_def put_put removeList_def find_erase)
next
  case False
  then have "attempts u + 1 \<noteq> 3" by (metis add_right_cancel numeral_plus_one semiring_norm(5) add_num_simps(2))
  then show ?thesis using False assms
    by (simp add: attempt_def upd_user_def seq_def bind_def on_user_def prog_eval the_user_def find_put_any
        MAX_LOGIN_ATTEMPTS_def put_put)
qed

section \<open>Names\<close>

text \<open>
  The state of a login in which its functions return: the user has its client, whose protocol
  object has the user, no other user is listed, and its name is the one given, if any.
\<close>

definition alone :: "string option \<Rightarrow> nat \<Rightarrow> nat \<Rightarrow> world \<Rightarrow> bool" where
  "alone x a p w \<longleftrightarrow> (\<exists>u pr. map_find (heap w) a = Some u \<and> client u = Some p \<and> (\<forall>n. x = Some n \<longrightarrow> u_name u = n)
     \<and> map_find (prots w) p = Some pr \<and> p_user pr = Some a \<and> (\<forall>i b. (i, b) \<in> set (listUser w) \<longrightarrow> b = a))"

lemma wp_the_user: "map_find (heap w) a = Some u \<Longrightarrow> Q u w \<Longrightarrow> wp (the_user a) Q R w"
  by (simp add: wp_def the_user_def)

lemma alone_put: "alone x a p w \<Longrightarrow> client v = Some p \<Longrightarrow> (\<And>n. x = Some n \<Longrightarrow> u_name v = n) \<Longrightarrow> alone x a p (w\<lparr>heap := map_put a v (heap w)\<rparr>)"
  by (auto simp: alone_def find_put_any)

lemma wp_upd_alone:
  "alone x a p w \<Longrightarrow> (\<And>u. client (f u) = client u \<and> u_name (f u) = u_name u) \<Longrightarrow> wp (upd_user a f) (\<lambda>_. alone x a p) R w"
  by (auto simp: alone_def upd_user_def wp_def on_user_def prog_eval find_put_any)

lemma wp_say_alone: "alone x a p w \<Longrightarrow> wp (say a ps) (\<lambda>_. alone x a p) R w"
proof -
  assume w: "alone x a p w"
  then obtain u where u: "map_find (heap w) a = Some u" "client u = Some p" "\<And>n. x = Some n \<Longrightarrow> u_name u = n" by (auto simp: alone_def)
  show ?thesis unfolding wp_on_user
    by (rule exI [of _ u], rule conjI, rule u(1), rule wp_uPrintf, rule alone_put [OF w], simp_all add: u(2,3))
qed

lemma wp_kick_alone: "alone x a p w \<Longrightarrow> wp (kick a) (\<lambda>_. alone x a p) R w"
  by (auto simp: alone_def wp_def kick_def bind_def seq_def the_user_def on_user_def on_client_eval logout_def
      the_prot_def find_put_any removeCreature_def prog_eval)

lemma erase_subset: "(i, b) \<in> set (map_erase k m) \<Longrightarrow> (i, b) \<in> set m"
  by (induction k m rule: map_erase.induct) (auto split: if_splits)

lemma wp_removeList_alone: "alone x a p w \<Longrightarrow> wp (User_removeList a) (\<lambda>_. alone x a p) R w"
  by (auto simp: alone_def wp_def User_removeList_def bind_def the_user_def prog_eval removeList_def)
    (blast dest: erase_subset)

lemma wp_seq_alone:
  "wp m (\<lambda>_. alone x a p) R w \<Longrightarrow> (\<And>w'. alone x a p w' \<Longrightarrow> wp n (\<lambda>_. alone x a p) R w')
     \<Longrightarrow> wp (seq m n) (\<lambda>_. alone x a p) R w"
  unfolding wp_seq by (erule wp_mono) auto

lemma wp_seqI:
  "wp m (\<lambda>_. K) R w \<Longrightarrow> (\<And>w'. K w' \<Longrightarrow> wp n Q R w') \<Longrightarrow> wp (seq m n) Q R w"
  unfolding wp_seq by (erule wp_mono) auto

lemma wp_attempt_alone: "alone x a p w \<Longrightarrow> wp (attempt a) (\<lambda>_. alone x a p) R w"
  unfolding attempt_def
proof (rule wp_seq_alone, rule wp_upd_alone)
  fix w' assume w': "alone x a p w'"
  then obtain u where "map_find (heap w') a = Some u" by (auto simp: alone_def)
  then show "wp (bind (the_user a) (\<lambda>u.
     if attempts u = MAX_LOGIN_ATTEMPTS then
       seq (say a [Lit (nl @ ''max attempts'' @ nl)]) (seq (kick a) (User_removeList a))
     else upd_user a (\<lambda>u. u\<lparr>stage := UserStage_LOGIN_NAME, password := None\<rparr>))) (\<lambda>_. alone x a p) R w'"
    unfolding wp_bind using w'
    by (intro wp_the_user) (auto intro!: wp_seq_alone wp_say_alone wp_kick_alone wp_removeList_alone wp_upd_alone)
qed simp_all

lemma wp_for_each_alone:
  "(\<And>y w. y \<in> set xs \<Longrightarrow> alone x a p w \<Longrightarrow> wp (f y) (\<lambda>_. alone x a p) R w) \<Longrightarrow> alone x a p w
     \<Longrightarrow> wp (for_each xs f) (\<lambda>_. alone x a p) R w"
proof (induction xs arbitrary: w)
  case (Cons y xs)
  then show ?case unfolding for_each.simps by (intro wp_seq_alone) auto
qed (simp add: wp_simps)

lemma login_coms_values: "enum_values (login_coms E) = [LoginCom_QUIT, LoginCom_WHO, LoginCom_VERSION]"
  by (simp add: enum_values_keys login_coms_def loginCom_rows_def enum_empty_def initAddValue_def Let_def
      LoginCom_QUIT_def LoginCom_WHO_def LoginCom_VERSION_def)

lemma login_coms_names:
  "enum_toString (login_coms E) LoginCom_QUIT w = Ret ''quit'' w"
  "enum_toString (login_coms E) LoginCom_WHO w = Ret ''who'' w"
  "enum_toString (login_coms E) LoginCom_VERSION w = Ret ''version'' w"
  by (simp_all add: enum_toString_def login_coms_def loginCom_rows_def enum_empty_def initAddValue_def Let_def
      LoginCom_QUIT_def LoginCom_WHO_def LoginCom_VERSION_def)

definition no_login_com :: "server \<Rightarrow> string \<Rightarrow> bool" where
  "no_login_com E s \<longleftrightarrow> \<not> iequals E ''quit'' s \<and> \<not> iequals E ''who'' s \<and> \<not> iequals E ''version'' s"

lemma find_no_com:
  "no_login_com E s \<Longrightarrow> end_value E = Some v \<Longrightarrow> find_com E s (enum_values (login_coms E)) w = Ret v w"
  by (simp add: login_coms_values bind_def from_enum_def login_coms_names prog_eval no_login_com_def)

lemma alone_db: "alone x a p (w\<lparr>w_db := d\<rparr>) = alone x a p w"
  by (simp add: alone_def)

lemma wp_store_alone: "alone x a p w \<Longrightarrow> wp (on_db (storeQuery env q)) (\<lambda>_. alone x a p) R w"
  by (auto simp: wp_def on_db_def storeQuery_def internalSelectQuery_def Let_def alone_db split: sum.split)

lemma wp_load_alone:
  assumes "alone x a p w"
  shows "wp (IOUser_load H a s True) (\<lambda>_. alone x a p) R w"
proof -
  have "wp (case r of None \<Rightarrow> ret False
     | Some r \<Rightarrow> seq (upd_user a (\<lambda>u. u\<lparr>guid := getDataInt r ''id''\<rparr>))
         (seq (upd_user a (\<lambda>u. u\<lparr>password := Some (getDataString r ''password'')\<rparr>)) (ret True)))
     (\<lambda>_. alone x a p) R w'" if "alone x a p w'" for r w'
    unfolding wp_seq using that
    by (cases r) (auto simp: wp_simps intro!: wp_mono [OF wp_upd_alone] wp_mono [OF wp_upd_alone [of x a p]])
  then show ?thesis unfolding IOUser_load_def if_True wp_bind
    by (intro wp_mono [OF wp_store_alone [OF assms]]) simp_all
qed

text \<open>The part of \<open>login_name\<close> behind the name: nobody else to kick, the preload, the new stage.\<close>

lemma wp_after_name:
  assumes w: "alone (Some n) a p w"
  shows "wp (seq (for_each (listUser w) (\<lambda>(k, b). bind (the_user b) (\<lambda>u.
             whenb (level u = UserLevel_LOGIN \<and> b \<noteq> a \<and> iequals (srv H) (u_name u) (u_name me)) (kick b))))
       (bind (IOUser_load H a s True) (\<lambda>found.
       seq (whenb (\<not> found) (say a [Lit (''creating new account'' @ nl)]))
         (upd_user a (\<lambda>u. u\<lparr>level := UserLevel_LOGIN, stage := UserStage_LOGIN_PWD\<rparr>)))))
     (\<lambda>_ w'. \<exists>v. map_find (heap w') a = Some v \<and> stage v = UserStage_LOGIN_PWD
        \<and> level v = UserLevel_LOGIN \<and> u_name v = n) R w"
  unfolding wp_seq wp_bind
proof (rule wp_mono [where R = R, OF wp_for_each_alone [OF _ w]])
  fix y w' assume y: "y \<in> set (listUser w)" and w': "alone (Some n) a p w'"
  obtain k b where "y = (k, b)" by (cases y)
  moreover from this have "b = a" using y w by (auto simp: alone_def)
  moreover obtain u where "map_find (heap w') a = Some u" using w' by (auto simp: alone_def)
  ultimately show "wp (case y of (k, b) \<Rightarrow> bind (the_user b) (\<lambda>u.
      whenb (level u = UserLevel_LOGIN \<and> b \<noteq> a \<and> iequals (srv H) (u_name u) (u_name me)) (kick b)))
      (\<lambda>_. alone (Some n) a p) R w'"
    using w' by (simp add: wp_bind) (rule wp_the_user, simp_all add: wp_simps)
next
  fix x :: unit and w1 assume w1: "alone (Some n) a p w1"
  let ?done = "\<lambda>(_ :: unit) w'. \<exists>v. map_find (heap w') a = Some v \<and> stage v = UserStage_LOGIN_PWD
      \<and> level v = UserLevel_LOGIN \<and> u_name v = n"
  have last: "wp (upd_user a (\<lambda>u. u\<lparr>level := UserLevel_LOGIN, stage := UserStage_LOGIN_PWD\<rparr>)) ?done R w3"
    if "alone (Some n) a p w3" for w3
    using that by (auto simp: alone_def upd_user_def wp_def on_user_def prog_eval find_put_any)
  show "wp (IOUser_load H a s True) (\<lambda>found. wp (whenb (\<not> found) (say a [Lit (''creating new account'' @ nl)]))
      (\<lambda>_. wp (upd_user a (\<lambda>u. u\<lparr>level := UserLevel_LOGIN, stage := UserStage_LOGIN_PWD\<rparr>)) ?done R) R) R w1"
  proof (rule wp_mono [where R = R, OF wp_load_alone [OF w1]])
    fix found w2 assume w2: "alone (Some n) a p w2"
    show "wp (whenb (\<not> found) (say a [Lit (''creating new account'' @ nl)]))
        (\<lambda>_. wp (upd_user a (\<lambda>u. u\<lparr>level := UserLevel_LOGIN, stage := UserStage_LOGIN_PWD\<rparr>)) ?done R) R w2"
      using w2 last by (cases found) (auto simp: wp_whenb intro!: wp_mono [OF wp_say_alone [OF w2]])
  qed
qed

text \<open>
  The check for letters refuses nothing. A name of the right length is told
  ``letters only'' for each other character and counted as an attempt, and then taken all the same:
  \<open>login\<close> goes on to the password, because the loop has no return.
\<close>

theorem any_characters_make_a_name:
  assumes "alone None a p w" and "no_login_com (srv H) s" and "end_value (srv H) = Some 3"
    and "3 \<le> length s" and "length s \<le> 12"
  shows "\<exists>w' v. login_name H a s w = Ret () w' \<and> map_find (heap w') a = Some v
    \<and> stage v = UserStage_LOGIN_PWD \<and> level v = UserLevel_LOGIN
    \<and> u_name v = capitalise (to_lower_copy (srv H) s)"
proof -
  let ?name = "capitalise (to_lower_copy (srv H) s)"
  let ?loop = "for_each s (\<lambda>c. whenb (\<not> isalpha c)
      (seq (say a [Lit (nl @ ''letters only'' @ nl @ nl)]) (attempt a)))"
  let ?rest = "\<lambda>me us. seq (for_each us (\<lambda>(k, b). bind (the_user b) (\<lambda>u.
             whenb (level u = UserLevel_LOGIN \<and> b \<noteq> a \<and> iequals (srv H) (u_name u) (u_name me)) (kick b))))
       (bind (IOUser_load H a s True) (\<lambda>found.
       seq (whenb (\<not> found) (say a [Lit (''creating new account'' @ nl)]))
         (upd_user a (\<lambda>u. u\<lparr>level := UserLevel_LOGIN, stage := UserStage_LOGIN_PWD\<rparr>))))"
  let ?done = "\<lambda>(_ :: unit) w'. \<exists>v. map_find (heap w') a = Some v \<and> stage v = UserStage_LOGIN_PWD
      \<and> level v = UserLevel_LOGIN \<and> u_name v = ?name"
  have "login_name H a s w = seq ?loop (seq (upd_user a (\<lambda>u. u\<lparr>u_name := ?name\<rparr>))
      (bind (the_user a) (\<lambda>me. bind (gets listUser) (?rest me)))) w"
    using assms find_no_com [OF assms(2,3)]
    by (simp add: login_name_def bind_def LoginCom_QUIT_def LoginCom_WHO_def LoginCom_VERSION_def
        MIN_USERNAME_LEN_def MAX_USERNAME_LEN_def)
  moreover have "wp (seq ?loop (seq (upd_user a (\<lambda>u. u\<lparr>u_name := ?name\<rparr>))
      (bind (the_user a) (\<lambda>me. bind (gets listUser) (?rest me))))) ?done (\<lambda>_ _. False) w"
  proof (rule wp_seqI [where K = "alone None a p"], rule wp_for_each_alone [OF _ assms(1)])
    fix c w' assume "alone None a p w'"
    then show "wp (whenb (\<not> isalpha c) (seq (say a [Lit (nl @ ''letters only'' @ nl @ nl)]) (attempt a)))
        (\<lambda>_. alone None a p) (\<lambda>_ _. False) w'"
      by (auto simp: wp_whenb intro!: wp_seq_alone wp_say_alone wp_attempt_alone)
  next
    fix w1 assume w1: "alone None a p w1"
    show "wp (seq (upd_user a (\<lambda>u. u\<lparr>u_name := ?name\<rparr>))
        (bind (the_user a) (\<lambda>me. bind (gets listUser) (?rest me)))) ?done (\<lambda>_ _. False) w1"
    proof (rule wp_seqI [where K = "alone (Some ?name) a p"])
      show "wp (upd_user a (\<lambda>u. u\<lparr>u_name := ?name\<rparr>)) (\<lambda>_. alone (Some ?name) a p) (\<lambda>_ _. False) w1"
        using w1 by (auto simp: alone_def upd_user_def wp_def on_user_def prog_eval find_put_any)
      fix w2 assume w2: "alone (Some ?name) a p w2"
      then obtain me where "map_find (heap w2) a = Some me" by (auto simp: alone_def)
      then show "wp (bind (the_user a) (\<lambda>me. bind (gets listUser) (?rest me))) ?done (\<lambda>_ _. False) w2"
        by (simp only: wp_bind wp_state [of listUser]) (rule wp_the_user, assumption, rule wp_after_name [OF w2, unfolded wp_bind])
    qed
  qed
  ultimately show ?thesis by (simp add: wp_Ret)
qed

text \<open>A host, for the concrete runs: comparison without folding, no options, a database that is down.\<close>

definition sample_host :: host where
  "sample_host = \<lparr>srv = \<lparr>iequals = (=), to_lower_copy = id, split_any = (\<lambda>s d. [s]), opt_serverName = ''Lotos'',
     opt_ansiTerms = [], project_version = ''1'', address_of = (\<lambda>_. ''::1''), end_value = Some 3\<rparr>,
   db_env = \<lparr>real_query = \<lambda>_. 0, store_result = \<lambda>_. Inl 0, commit_fails = \<lambda>_. False,
     rollback_fails = \<lambda>_. False, insert_id = \<lambda>_. 1, escape = id\<rparr>,
   salts = \<lambda>_ _. 0, pointer_byte = None\<rparr>"

definition sample_user :: user where
  "sample_user = (User_new 1001 (Some 5))\<lparr>stage := UserStage_LOGIN_ID, u_id := setID 1001\<rparr>"

definition sample_world :: world where
  "sample_world = (world_new \<lparr>m_connected = False, db_calls = []\<rparr>)\<lparr>heap := [(1, sample_user)],
     listUser := [(setID 1001, 1)], prots := [(5, Telnet_new\<lparr>p_user := Some 1, m_acceptPackets := True\<rparr>)]\<rparr>"

lemma sample_alone: "alone None 1 5 sample_world"
  by (simp add: alone_def sample_world_def sample_user_def world_new_def User_new_def Telnet_new_def)

theorem any_characters_make_a_name_witness:
  "\<exists>w' v. login_name sample_host 1 ''a 1;'' sample_world = Ret () w' \<and> map_find (heap w') 1 = Some v
    \<and> stage v = UserStage_LOGIN_PWD \<and> level v = UserLevel_LOGIN \<and> u_name v = ''A 1;''"
proof -
  have "no_login_com (srv sample_host) ''a 1;''" "end_value (srv sample_host) = Some 3"
    by (simp_all add: no_login_com_def sample_host_def)
  moreover have "capitalise (to_lower_copy (srv sample_host) ''a 1;'') = ''A 1;''" by code_simp
  ultimately show ?thesis using any_characters_make_a_name [OF sample_alone, of sample_host "''a 1;''"] by simp
qed

theorem attempt_counts_witness:
  "\<exists>w' v. attempt 1 sample_world = Ret () w' \<and> map_find (heap w') 1 = Some v
    \<and> attempts v = 1 \<and> stage v = UserStage_LOGIN_NAME"
  using attempt_counts [of sample_world 1 sample_user 5 "Telnet_new\<lparr>p_user := Some 1, m_acceptPackets := True\<rparr>"]
  by (auto simp: sample_world_def sample_user_def world_new_def User_new_def Telnet_new_def)

section \<open>After the account was created\<close>

lemma internal_error_text:
  "uPrintf [Lit (''INTERNAL ERROR: Invalid stage in User::parseLine()!'' @ nl)]
     = uWrite (''INTERNAL ERROR: Invalid stage in User::parseLine()!'' @ [CR, NL])"
proof -
  have "crlf (drop_slash (c_str (stringFormat [Lit (''INTERNAL ERROR: Invalid stage in User::parseLine()!'' @ nl)])))
      = ''INTERNAL ERROR: Invalid stage in User::parseLine()!'' @ [CR, NL]" by code_simp
  then show ?thesis by (simp only: fun_eq_iff printf_loop_spec uPrintf_def) simp
qed

text \<open>
  At every stage but the command line, \<open>parseLine\<close> answers a line with ``INTERNAL
  ERROR'' and moves on to the command line. That is what a new user gets for the ENTER the
  program asks for: creating the account leaves the stage at \<open>LOGIN_PROMPT\<close>, which no code handles.
\<close>

theorem parseLine_off_stage:
  assumes "map_find (heap w) a = Some u" and "client u = Some p" and "stage u \<noteq> UserStage_CMD_LINE"
  shows "\<exists>v cs. parseLine H a w = Ret () (w\<lparr>heap := map_put a v (heap w)\<rparr>) \<and> stage v = UserStage_CMD_LINE
    \<and> calls v = calls u @ (p, Write (''INTERNAL ERROR: Invalid stage in User::parseLine()!'' @ [CR, NL])) # cs
    \<and> list_all (\<lambda>c. fst c = p) cs"
proof -
  obtain sl where sl: "parse (clean_ref (cur_text u)) (com u) = Ret () sl" using parse_returns by blast
  let ?u = "(set_text (clean_ref (cur_text u)) u)\<lparr>com := sl\<rparr>"
  let ?v = "(wrote_calls [Write (''INTERNAL ERROR: Invalid stage in User::parseLine()!'' @ [CR, NL])] ?u)
    \<lparr>stage := UserStage_CMD_LINE\<rparr>"
  obtain cs where cs: "prompt (srv H) ?v = Ret () (wrote_calls cs ?v)" using prompt_eval by blast
  let ?r = "(wrote_calls cs ?v)\<lparr>buffnum := (if buffnum u = 0 then 1 else 0)\<rparr>"
  have com: "com (set_text t u) = com u" for t by (simp add: set_text_def)
  have "parseLine H a w = Ret () (w\<lparr>heap := map_put a ?r (heap w)\<rparr>)"
    using assms sl cs
    by (simp add: parseLine_def bind_def seq_def the_user_def cleanString_ref upd_user_def on_user_def prog_eval
        on_com_def com find_put_any put_put internal_error_text [simplified append.simps] uWrite_eval)
  moreover have "calls ?r = calls u @ (p, Write (''INTERNAL ERROR: Invalid stage in User::parseLine()!'' @ [CR, NL])) # map (Pair p) cs"
    using assms(2) by (simp add: wrote_calls_def set_text_def)
  ultimately show ?thesis by (intro exI [of _ ?r] exI [of _ "map (Pair p) cs"]) (simp add: list_all_iff)
qed

theorem parseLine_off_stage_witness:
  "\<exists>v cs. parseLine sample_host 1 sample_world = Ret () (sample_world\<lparr>heap := map_put 1 v (heap sample_world)\<rparr>)
    \<and> stage v = UserStage_CMD_LINE
    \<and> calls v = (5, Write (''INTERNAL ERROR: Invalid stage in User::parseLine()!'' @ [CR, NL])) # cs"
proof -
  have "map_find (heap sample_world) 1 = Some sample_user" "client sample_user = Some 5" "calls sample_user = []"
    "stage sample_user \<noteq> UserStage_CMD_LINE"
    by (simp_all add: sample_world_def sample_user_def world_new_def User_new_def)
  then show ?thesis using parseLine_off_stage [of sample_world 1 sample_user 5 sample_host] by fastforce
qed

section \<open>Taking over an old session\<close>

text \<open>
  The loop of \<open>uConnect\<close> reaches the first other user of the same name.
\<close>

lemma uConnect_loop_reaches:
  "list_all (\<lambda>(j, c). c = a \<or> (\<exists>u. map_find (heap w) c = Some u \<and> u_name u \<noteq> u_name me)) us
     \<Longrightarrow> map_find (heap w) a = Some me
     \<Longrightarrow> uConnect_loop H a (us @ vs) w = uConnect_loop H a vs w"
proof (induction us)
  case (Cons y us)
  obtain j c where y: "y = (j, c)" by (cases y)
  have "\<exists>u. map_find (heap w) c = Some u" using Cons.prems y by auto
  with Cons y show ?case by (auto simp: bind_def the_user_def)
qed simp

text \<open>
  Claim C23: taking over an old session destroys it. When a user of the same name is listed,
  \<open>uConnect\<close> points the protocol object to the old user and throws; the handler in
  \<open>parsePacket\<close>, which means to delete the new object, deletes the user its protocol has by now:
  the old session. The connection is left with no user, both are out of the list, and the new
  object stays behind with no client.
\<close>

theorem session_swap_deletes_old:
  assumes ok: "map_ok (heap w)" "map_ok (listUser w)"
    and a: "map_find (heap w) a = Some me" "client me = Some p" "map_find (prots w) p = Some pr"
    and b: "map_find (heap w) b = Some u" "b \<noteq> a" "u_name u = u_name me"
    and l: "listUser w = us @ (k, b) # vs"
      "list_all (\<lambda>(j, c). c = a \<or> (\<exists>u. map_find (heap w) c = Some u \<and> u_name u \<noteq> u_name me)) us"
  shows "\<exists>w'. catch_stage (uConnect H a) (on_stage p) w = Ret () w'
    \<and> map_find (heap w') b = None \<and> (\<exists>v. map_find (heap w') a = Some v \<and> client v = None)
    \<and> (\<exists>pr'. map_find (prots w') p = Some pr' \<and> p_user pr' = None)
    \<and> map_find (listUser w') (u_id me) = None \<and> map_find (listUser w') (u_id u) = None"
proof -
  obtain f where out: "\<And>ps u. uPrintf ps u = Ret () (wrote_calls (f ps u) u)"
    using uPrintf_some by metis
  obtain g where prompts: "\<And>E u. prompt E u = Ret () (wrote_calls (g E u) u)"
    using prompt_eval by metis
  have "uConnect H a w = uConnect_loop H a ((k, b) # vs) w"
    using uConnect_loop_reaches [OF l(2) a(1)] l(1) by (simp add: uConnect_def bind_def prog_eval)
  then show ?thesis
    using a b ok
    by (simp add: catch_stage_def bind_def seq_def the_user_def on_user_def out prompts prog_eval find_put_any
        put_put on_client_eval setUser_def upd_prot_def upd_user_def User_removeList_def on_stage_def drop_user_def
        the_prot_def User_delete_def removeList_def find_erase map_ok_put map_ok_erase)
qed

theorem session_swap_deletes_old_witness:
  "\<exists>w'. catch_stage (uConnect sample_host 2) (on_stage 5)
       (sample_world\<lparr>heap := [(1, sample_user\<lparr>u_id := 1, client := Some 4\<rparr>), (2, sample_user\<lparr>u_id := 2\<rparr>)],
          listUser := [(1, 1), (2, 2)]\<rparr>) = Ret () w' \<and> map_find (heap w') 1 = None"
proof -
  let ?w = "sample_world\<lparr>heap := [(1, sample_user\<lparr>u_id := 1, client := Some 4\<rparr>), (2, sample_user\<lparr>u_id := 2\<rparr>)],
      listUser := [(1, 1), (2, 2)]\<rparr>"
  show ?thesis
    using session_swap_deletes_old [of ?w 2 "sample_user\<lparr>u_id := 2\<rparr>" 5
        "Telnet_new\<lparr>p_user := Some 1, m_acceptPackets := True\<rparr>" 1 "sample_user\<lparr>u_id := 1, client := Some 4\<rparr>"
        "[]" 1 "[(2, 2)]" sample_host]
    by (auto simp: sample_world_def sample_user_def User_new_def)
qed

end
