(* ===== verification/EnumOps.thy ===== *)
theory EnumOps
  imports Enums
begin

text \<open>
  The operators of \<open>Enum\<close>, its iterator and \<open>BitEnum\<close> (\<open>src/Common/enum.h\<close>) that the look-ups do not
  need: the walk over the values, the bitwise operators, the name of a set of flags and the shift.
\<close>

section \<open>The operators\<close>

text \<open>\<open>operator++\<close> and the comparison with a value, both undefined at the end.\<close>

definition iter_next :: "enum_tables \<Rightarrow> nat \<Rightarrow> nat option" where
  "iter_next t i = (if i < enum_end t then Some (i + 1) else None)"

definition iter_is :: "enum_tables \<Rightarrow> nat \<Rightarrow> int \<Rightarrow> bool option" where
  "iter_is t i e = map_option (\<lambda>v. v = e) (enum_deref t i)"

text \<open>The loop \<open>for (i=begin(); i!=end(); ++i)\<close> that stops at a value.\<close>

function find_by_loop :: "enum_tables \<Rightarrow> int \<Rightarrow> nat \<Rightarrow> nat" where
  "find_by_loop t e i = (if i < enum_end t
     then case iter_is t i e of Some True \<Rightarrow> i | _ \<Rightarrow> find_by_loop t e (case iter_next t i of None \<Rightarrow> enum_end t | Some j \<Rightarrow> j)
     else i)"
  by pat_completeness auto
termination
  by (relation "measure (\<lambda>(t, e, i). enum_end t - i)") (auto simp: iter_next_def)

declare find_by_loop.simps [simp del]

definition enum_true :: "int \<Rightarrow> bool" where
  "enum_true e \<longleftrightarrow> e \<noteq> 0"

definition bit_not :: "u32 \<Rightarrow> u32" where
  "bit_not e = NOT e"

definition bit_or :: "u32 \<Rightarrow> u32 \<Rightarrow> u32" where
  "bit_or e o' = e OR o'"

definition bit_and :: "u32 \<Rightarrow> u32 \<Rightarrow> u32" where
  "bit_and e o' = e AND o'"

text \<open>
  \<open>operator<<\<close> of a number and an enumeration does not look at the number. A shift by a negative count or by 32 and
  more is undefined.
\<close>

definition shift_by_enum :: "int \<Rightarrow> int \<Rightarrow> (std_exn, 's, u32) prog" where
  "shift_by_enum i e = (if 0 \<le> e \<and> e < 32 then ret (push_bit (nat e) 1) else undefined_behaviour)"

section \<open>Properties\<close>

text \<open>
  Looking for a value by the loop finds what the iterator's constructor finds by the map, and
  stops at the end for a value that is not listed.
\<close>

lemma find_by_loop_step:
  assumes "i \<le> enum_end t"
  shows "find_by_loop t e i = i + (case key_index (drop i (enum_to_string t)) e of None \<Rightarrow> enum_end t - i | Some k \<Rightarrow> k)"
  using assms
proof (induction "enum_end t - i" arbitrary: i)
  case 0
  then show ?case by (subst find_by_loop.simps) (simp add: enum_end_def)
next
  case (Suc n)
  then have lt: "i < length (enum_to_string t)" by (simp add: enum_end_def)
  obtain a b where ab: "enum_to_string t ! i = (a, b)" by fastforce
  have drop: "drop i (enum_to_string t) = (a, b) # drop (Suc i) (enum_to_string t)"
    using lt ab by (metis Cons_nth_drop_Suc)
  show ?case
  proof (cases "a = e")
    case True
    then show ?thesis using lt ab drop
      by (subst find_by_loop.simps) (simp add: iter_is_def enum_deref_def enum_end_def)
  next
    case False
    then have "find_by_loop t e i = find_by_loop t e (Suc i)"
      using lt ab by (subst find_by_loop.simps) (simp add: iter_is_def enum_deref_def enum_end_def iter_next_def)
    moreover have "find_by_loop t e (Suc i)
        = Suc i + (case key_index (drop (Suc i) (enum_to_string t)) e of None \<Rightarrow> enum_end t - Suc i | Some k \<Rightarrow> k)"
      using Suc.hyps(2) lt by (intro Suc.hyps(1)) (simp_all add: enum_end_def)
    ultimately show ?thesis using False drop lt by (simp add: enum_end_def Suc_diff_Suc split: option.split)
  qed
qed

theorem loop_finds_value:
  "find_by_loop t e enum_begin = (case enum_iter_at t e s of Ret i _ \<Rightarrow> i | _ \<Rightarrow> enum_end t)"
  by (simp add: find_by_loop_step enum_begin_def enum_iter_at_def split: option.split)

text \<open>The operators are those of a Boolean algebra of flags, and \<open>set\<close> and \<open>unset\<close> are expressed by them.\<close>

theorem flag_algebra:
  "bit_not (bit_not e) = e" "bit_not (bit_or e f) = bit_and (bit_not e) (bit_not f)"
  "bit_and e (bit_or f g) = bit_or (bit_and e f) (bit_and e g)"
  "bit_set e f = bit_or e f" "bit_unset e f = bit_and e (bit_not f)"
  by (simp_all add: bit_not_def bit_or_def bit_and_def bit_set_def bit_unset_def bit.conj_disj_distrib)

text \<open>The number on the left of \<open><<\<close> does not count.\<close>

theorem shift_ignores_left: "shift_by_enum i e = shift_by_enum 1 e"
  by (simp add: shift_by_enum_def)

text \<open>The names of flags with bars between.\<close>

fun barred :: "string list \<Rightarrow> string" where
  "barred [] = []"
| "barred [x] = x"
| "barred (x # xs) = x @ '' | '' @ barred xs"

lemma barred_tail: "barred (x # xs) = x @ concat (map (\<lambda>y. '' | '' @ y) xs)"
  by (induction xs arbitrary: x) simp_all

lemma bit_names_eval:
  assumes "\<forall>j \<in> set js. j < 32 \<and> (bit e j \<longrightarrow> (\<forall>s :: 's. enum_toString t (2 ^ j) s = Ret (name j) s))"
  shows "bit_names t e js acc first (s :: 's) = Ret (acc @
     (let ns = map name (filter (bit e) js) in if first then barred ns else concat (map (\<lambda>y. '' | '' @ y) ns))) s"
  using assms
proof (induction js arbitrary: acc first)
  case (Cons j js)
  have j: "j < 32" using Cons.prems by simp
  show ?case
  proof (cases "bit e j")
    case True
    then have "enum_toString t (2 ^ j) s = Ret (name j) s" using Cons.prems by auto
    then show ?thesis using Cons True and_flag_eq [OF j, of e]
      by (simp add: bind_def Let_def barred_tail comp_def del: barred.simps(2,3))
  next
    case False
    then show ?thesis using Cons and_flag_eq [OF j, of e] by simp
  qed
qed simp

text \<open>
  A value that is not listed itself but whose flags all are is shown as the names of its flags
  in increasing order with bars between; the sign bit is not shown.
\<close>

theorem flags_shown:
  assumes "sint e \<notin> fst ` set rows" and "\<forall>j < 31. bit e j \<longrightarrow> 2 ^ j \<in> fst ` set rows"
  shows "bit_toString (enum_of_rows lower n rows) e s
     = Ret (barred (map (\<lambda>j. hd (row_names rows (2 ^ j))) (filter (bit e) [0..<31]))) s"
proof -
  have name: "enum_toString (enum_of_rows lower n rows) (2 ^ j) v = Ret (hd (row_names rows (2 ^ j))) v"
    if "j < 31" "bit e j" for j v
  proof -
    have "row_names rows (2 ^ j) \<noteq> []" using assms(2) that by (force simp: row_names_def filter_empty_conv)
    then show ?thesis by (cases "row_names rows (2 ^ j)") (simp_all add: enum_toString_def find_of_rows)
  qed
  have "bit_names (enum_of_rows lower n rows) e [0..<31] [] True s
     = Ret (barred (map (\<lambda>j. hd (row_names rows (2 ^ j))) (filter (bit e) [0..<31]))) s"
    by (subst bit_names_eval [where name = "\<lambda>j. hd (row_names rows (2 ^ j))"]) (auto simp: name)
  then show ?thesis using assms(1) by (simp add: bit_toString_def exists_of_rows)
qed

theorem flags_shown_witness:
  "bit_toString (enum_of_rows id ''F'' [(1, ''a'', []), (4, ''c'', [])]) 5 s = Ret ''a | c'' s"
proof -
  have f: "filter (bit (5 :: u32)) [0..<31] = [0, 2]" by code_simp
  have "bit_toString (enum_of_rows id ''F'' [(1, ''a'', []), (4, ''c'', [])]) 5 s
     = Ret (barred (map (\<lambda>j. hd (row_names [(1, ''a'', []), (4, ''c'', [])] (2 ^ j))) (filter (bit (5 :: u32)) [0..<31]))) s"
  proof (rule flags_shown)
    show "\<forall>j < 31. bit (5 :: u32) j \<longrightarrow> 2 ^ j \<in> fst ` set [(1 :: int, ''a'', [] :: string), (4, ''c'', [])]"
    proof (intro allI impI)
      fix j :: nat assume "j < 31" "bit (5 :: u32) j"
      then have "j \<in> set (filter (bit (5 :: u32)) [0..<31])" by simp
      then show "2 ^ j \<in> fst ` set [(1 :: int, ''a'', [] :: string), (4, ''c'', [])]" unfolding f by auto
    qed
  qed simp
  then show ?thesis unfolding f by (simp add: row_names_def)
qed

end
