(* ===== verification/Connection.thy ===== *)
theory Connection
  imports Prelude
begin

text \<open>
  \<open>src/Network/Connection.cpp\<close>: the life of one TCP connection. What it asks of other threads is
  kept in the state as jobs not yet run: close tasks of the dispatcher, release events of the
  scheduler, reads under way, and in \<open>io_queue\<close> the handlers that are ready in the I/O service: a time-out of the
  write timer, which no \<open>cancel\<close> takes back any more, and the stop operation. The calls it makes on its
  protocol, on the pool of messages and on the manager are recorded in \<open>log\<close>. The outcome of an operation of
  \<open>boost::asio\<close> is an argument. Each function holds the recursive lock of the connection all the
  time, so it is one step; the stop operation lets go of it before the connection is handed back,
  so it is two.
\<close>

section \<open>The object\<close>

datatype connection_state =
  CONNECTION_STATE_OPEN | CONNECTION_STATE_REQUEST_CLOSE | CONNECTION_STATE_CLOSING | CONNECTION_STATE_CLOSED

datatype socket = Sock_open | Sock_closed | Sock_deleted

text \<open>The handlers that wait in the I/O service for its thread.\<close>

datatype io_handler = Io_timer | Io_stop

datatype conn_call =
  On_connect | First_message nat | Recv_message nat | Set_connection bool | Release_protocol
| On_send | Auto_send | Manager_release

text \<open>
  \<open>write_timer\<close>: a wait that can still be cancelled. \<open>m_connectionLock\<close>: the lock was
  left held. \<open>taking\<close>: the dispatcher and the scheduler run, else they drop what they are given.
  \<open>stopping\<close>: the stop operation has deleted the socket and not yet called the manager.
\<close>

record conn =
  m_protocol :: "nat option"
  m_receivedFirst :: bool
  m_writeError :: bool
  m_readError :: bool
  m_pendingWrite :: int
  m_pendingRead :: int
  m_connectionState :: connection_state
  c_refCount :: u32
  m_socket :: socket
  m_logError :: bool
  write_timer :: bool
  m_connectionLock :: bool
  taking :: bool
  close_tasks :: nat
  release_events :: nat
  io_queue :: "io_handler list"
  stopping :: bool
  reads :: nat
  log :: "conn_call list"

definition conn_new :: "bool \<Rightarrow> conn" where
  "conn_new le = \<lparr>m_protocol = None, m_receivedFirst = False, m_writeError = False, m_readError = False,
     m_pendingWrite = 0, m_pendingRead = 0, m_connectionState = CONNECTION_STATE_OPEN, c_refCount = 0,
     m_socket = Sock_open, m_logError = le, write_timer = False, m_connectionLock = False, taking = True,
     close_tasks = 0, release_events = 0, io_queue = [], stopping = False, reads = 0, log = []\<rparr>"

type_synonym 'a cprog = "(std_exn, conn, 'a) prog"

datatype net_error = Operation_aborted | Eof | Connection_reset | Connection_aborted | Other_error

definition tell :: "conn_call \<Rightarrow> unit cprog" where
  "tell c = modify (\<lambda>s. s\<lparr>log := log s @ [c]\<rparr>)"

section \<open>Closing\<close>

definition closeConnection :: "unit cprog" where
  "closeConnection = bind (gets m_connectionState) (\<lambda>st.
     if st = CONNECTION_STATE_CLOSED \<or> st = CONNECTION_STATE_REQUEST_CLOSE then skip
     else modify (\<lambda>s. s\<lparr>m_connectionState := CONNECTION_STATE_REQUEST_CLOSE,
            close_tasks := close_tasks s + (if taking s then 1 else 0)\<rparr>))"

text \<open>The member call on a deleted socket is undefined.\<close>

definition closeSocket :: "unit cprog" where
  "closeSocket = bind (gets m_socket) (\<lambda>k. case k of
     Sock_deleted \<Rightarrow> undefined_behaviour
   | Sock_closed \<Rightarrow> skip
   | Sock_open \<Rightarrow> modify (\<lambda>s. s\<lparr>m_pendingRead := 0, m_pendingWrite := 0, m_socket := Sock_closed\<rparr>))"

definition deleteConnectionTask :: "unit cprog" where
  "deleteConnectionTask = modify (\<lambda>s. s\<lparr>io_queue := io_queue s @ [Io_stop]\<rparr>)"

definition releaseConnection :: "unit cprog" where
  "releaseConnection = bind (gets c_refCount) (\<lambda>r.
     if 0 < r then modify (\<lambda>s. s\<lparr>release_events := release_events s + (if taking s then 1 else 0)\<rparr>)
     else deleteConnectionTask)"

definition closeConnectionTask :: "unit cprog" where
  "closeConnectionTask = bind (gets m_connectionState) (\<lambda>st.
     if st \<noteq> CONNECTION_STATE_REQUEST_CLOSE then skip
     else
       seq (bind (gets m_protocol) (\<lambda>p. whenb (p \<noteq> None)
         (seq (tell (Set_connection False)) (seq (tell Release_protocol) (modify (\<lambda>s. s\<lparr>m_protocol := None\<rparr>))))))
       (seq (modify (\<lambda>s. s\<lparr>m_connectionState := CONNECTION_STATE_CLOSING\<rparr>))
       (bind (gets id) (\<lambda>s. whenb (m_pendingWrite s = 0 \<or> m_writeError s)
         (seq closeSocket (seq releaseConnection
           (modify (\<lambda>s. s\<lparr>m_connectionState := CONNECTION_STATE_CLOSED\<rparr>))))))))"

text \<open>The stop operation: under the lock, and what it does after.\<close>

definition onStopOperation :: "unit cprog" where
  "onStopOperation = seq (modify (\<lambda>s. s\<lparr>write_timer := False\<rparr>))
     (bind (gets m_socket) (\<lambda>k. if k = Sock_deleted then undefined_behaviour
       else modify (\<lambda>s. s\<lparr>m_socket := Sock_deleted, stopping := True\<rparr>)))"

definition after_stop :: "unit cprog" where
  "after_stop = seq (modify (\<lambda>s. s\<lparr>stopping := False\<rparr>)) (tell Manager_release)"

text \<open>
  \<open>ConnectionManager::closeAll\<close> on one of the connections it lists; a connection handed back is
  not listed. Nothing in the program calls it.
\<close>

definition closed_by_all :: "unit cprog" where
  "closed_by_all = bind (gets id) (\<lambda>s. whenb (Manager_release \<notin> set (log s))
     (if m_socket s = Sock_deleted then undefined_behaviour else modify (\<lambda>s. s\<lparr>m_socket := Sock_closed\<rparr>)))"

section \<open>Writing\<close>

text \<open>
  The outcome of a write: an error code (not all bytes were written then), or an exception before the
  timer is armed or after.
\<close>

datatype write_result = Write_ok | Write_error net_error | Write_throws bool

text \<open>The time of the timer is up: its handler is ready.\<close>

definition expire :: "unit cprog" where
  "expire = modify (\<lambda>s. s\<lparr>write_timer := False, io_queue := io_queue s @ [Io_timer]\<rparr>)"

definition handleWriteError :: "net_error \<Rightarrow> unit cprog" where
  "handleWriteError e = seq (if e = Operation_aborted then skip else closeConnection)
     (modify (\<lambda>s. s\<lparr>m_writeError := True\<rparr>))"

definition onWriteOperation :: "net_error option \<Rightarrow> unit cprog" where
  "onWriteOperation e =
     seq (modify (\<lambda>s. s\<lparr>write_timer := False\<rparr>))
     (seq (case e of None \<Rightarrow> skip | Some e \<Rightarrow> handleWriteError e)
     (bind (gets id) (\<lambda>s.
        if m_connectionState s \<noteq> CONNECTION_STATE_OPEN \<or> m_writeError s then seq closeSocket closeConnection
        else modify (\<lambda>s. s\<lparr>m_pendingWrite := m_pendingWrite s - 1\<rparr>))))"

definition getHandle :: "unit cprog" where
  "getHandle = bind (gets m_socket) (\<lambda>k. if k = Sock_deleted then undefined_behaviour else skip)"

text \<open>\<open>late\<close>: the write took longer than the timer.\<close>

definition internalSend :: "bool \<Rightarrow> write_result \<Rightarrow> unit cprog" where
  "internalSend late o' = seq (modify (\<lambda>s. s\<lparr>m_pendingWrite := m_pendingWrite s + 1\<rparr>))
     (if o' = Write_throws False then modify (\<lambda>s. s\<lparr>m_logError := False\<rparr>)
      else seq (modify (\<lambda>s. s\<lparr>write_timer := True\<rparr>)) (seq getHandle (seq (whenb late expire)
        (case o' of
           Write_ok \<Rightarrow> onWriteOperation None
         | Write_error e \<Rightarrow> seq (onWriteOperation (Some e)) (modify (\<lambda>s. s\<lparr>m_logError := False\<rparr>))
         | Write_throws _ \<Rightarrow> modify (\<lambda>s. s\<lparr>m_logError := False\<rparr>)))))"

definition send :: "bool \<Rightarrow> write_result \<Rightarrow> bool cprog" where
  "send late o' = bind (gets id) (\<lambda>s.
     if m_connectionState s \<noteq> CONNECTION_STATE_OPEN \<or> m_writeError s then ret False
     else seq (if m_pendingWrite s = 0 then seq (tell On_send) (internalSend late o') else tell Auto_send) (ret True))"

definition onReadTimeout :: "unit cprog" where
  "onReadTimeout = bind (gets id) (\<lambda>s. whenb (0 < m_pendingRead s \<or> m_readError s) (seq closeSocket closeConnection))"

definition onWriteTimeout :: "unit cprog" where
  "onWriteTimeout = bind (gets id) (\<lambda>s. whenb (0 < m_pendingWrite s \<or> m_writeError s) (seq closeSocket closeConnection))"

text \<open>The timer's handler; the connection is taken to live.\<close>

definition handleWriteTimeout :: "net_error option \<Rightarrow> unit cprog" where
  "handleWriteTimeout e = whenb (e \<noteq> Some Operation_aborted) onWriteTimeout"

section \<open>Reading\<close>

definition handleReadError :: "net_error \<Rightarrow> unit cprog" where
  "handleReadError e = seq (if e = Operation_aborted then skip else closeConnection)
     (modify (\<lambda>s. s\<lparr>m_readError := True\<rparr>))"

text \<open>
  Starting a read, which may throw. The error is logged once for all connections, and only then
  is the connection closed.
\<close>

definition start_read :: "bool \<Rightarrow> unit cprog" where
  "start_read throws = seq (modify (\<lambda>s. s\<lparr>m_pendingRead := m_pendingRead s + 1\<rparr>)) (seq getHandle
     (if \<not> throws then modify (\<lambda>s. s\<lparr>reads := reads s + 1\<rparr>)
      else bind (gets m_logError) (\<lambda>le. whenb le (seq (modify (\<lambda>s. s\<lparr>m_logError := False\<rparr>)) closeConnection))))"

text \<open>
  What a protocol does with its connection while it handles a call; it may end with an exception.
  \<open>Act_peer\<close> is \<open>getAddress\<close> or \<open>getPort\<close>, which ask the socket.
\<close>

datatype conn_act = Act_close | Act_send bool write_result | Act_peer | Act_throw std_exn

fun acts :: "conn_act list \<Rightarrow> unit cprog" where
  "acts [] = skip"
| "acts (Act_close # as) = seq closeConnection (acts as)"
| "acts (Act_send late o' # as) = bind (send late o') (\<lambda>_. acts as)"
| "acts (Act_peer # as) = seq getHandle (acts as)"
| "acts (Act_throw e # as) = throw e"

definition acceptConnection :: "nat option \<Rightarrow> conn_act list \<Rightarrow> bool \<Rightarrow> unit cprog" where
  "acceptConnection p as throws =
     seq (case p of None \<Rightarrow> skip
          | Some p \<Rightarrow> seq (modify (\<lambda>s. s\<lparr>m_protocol := Some p\<rparr>)) (seq (tell On_connect) (acts as)))
       (start_read throws)"

text \<open>
  \<open>made\<close> is the protocol the service port makes when the connection has none yet. The lock is taken and let
  go by hand: an exception of the protocol leaves it held.
\<close>

definition serve :: "conn_call \<Rightarrow> conn_act list \<Rightarrow> bool \<Rightarrow> unit cprog" where
  "serve c as throws = seq (tell c) (seq (acts as) (start_read throws))"

definition conn_receive :: "nat \<Rightarrow> nat option \<Rightarrow> conn_act list \<Rightarrow> bool \<Rightarrow> unit cprog" where
  "conn_receive n made as throws = bind (gets id) (\<lambda>s.
     if m_connectionState s \<noteq> CONNECTION_STATE_OPEN \<or> m_readError s then closeConnection
     else
       seq (modify (\<lambda>s. s\<lparr>m_pendingRead := m_pendingRead s - 1\<rparr>))
       (if \<not> m_receivedFirst s then
          seq (modify (\<lambda>s. s\<lparr>m_receivedFirst := True\<rparr>))
          (if m_protocol s = None then
             (case made of None \<Rightarrow> closeConnection
              | Some p \<Rightarrow> seq (modify (\<lambda>s. s\<lparr>m_protocol := Some p\<rparr>)) (seq (tell (Set_connection True))
                  (serve (First_message n) as throws)))
           else serve (First_message n) as throws)
        else if m_protocol s = None then undefined_behaviour
        else serve (Recv_message n) as throws))"

definition conn_parsePacket :: "net_error option \<Rightarrow> nat \<Rightarrow> nat option \<Rightarrow> conn_act list \<Rightarrow> bool \<Rightarrow> unit cprog" where
  "conn_parsePacket error n made as throws =
     seq (modify (\<lambda>s. s\<lparr>m_connectionLock := True\<rparr>))
     (seq (case error of None \<Rightarrow> skip | Some e \<Rightarrow> handleReadError e)
     (seq (conn_receive n made as throws) (modify (\<lambda>s. s\<lparr>m_connectionLock := False\<rparr>))))"

definition conn_addRef :: "unit cprog" where
  "conn_addRef = modify (\<lambda>s. s\<lparr>c_refCount := c_refCount s + 1\<rparr>)"

definition conn_unRef :: "unit cprog" where
  "conn_unRef = modify (\<lambda>s. s\<lparr>c_refCount := c_refCount s - 1\<rparr>)"

section \<open>The threads\<close>

text \<open>
  What may happen next: a call from outside, one of the jobs asked for, the end of the timer's time, the end
  of the dispatcher and the scheduler, an error another connection logs. A job that is not there does not
  happen. \<open>Run_io n\<close> runs the handler at place \<open>n\<close> of those ready, after the one under way has come to its
  end. Another session asks for the address through the protocol, which knows the connection as long as the
  connection knows it.
\<close>

datatype conn_job =
  Call_close | Call_send bool write_result | Call_addRef | Call_unRef | Call_peer | Call_close_all
| Run_close_task | Run_release | Run_io nat | Run_read "net_error option" nat "nat option" "conn_act list" bool
| Timer_expires | Tasks_end | Other_error

definition Run_handler :: "nat \<Rightarrow> unit cprog" where
  "Run_handler n = bind (gets id) (\<lambda>s.
     if stopping s then after_stop
     else whenb (n < length (io_queue s))
       (seq (modify (\<lambda>s. s\<lparr>io_queue := take n (io_queue s) @ drop (Suc n) (io_queue s)\<rparr>))
         (case io_queue s ! n of Io_timer \<Rightarrow> handleWriteTimeout None | Io_stop \<Rightarrow> onStopOperation)))"

fun do_job :: "conn_job \<Rightarrow> unit cprog" where
  "do_job Call_close = closeConnection"
| "do_job (Call_send late o') = bind (send late o') (\<lambda>_. skip)"
| "do_job Call_addRef = conn_addRef"
| "do_job Call_unRef = bind (gets c_refCount) (\<lambda>r. whenb (0 < r) conn_unRef)"
| "do_job Call_peer = bind (gets m_protocol) (\<lambda>p. whenb (p \<noteq> None) getHandle)"
| "do_job Call_close_all = closed_by_all"
| "do_job Run_close_task = bind (gets close_tasks) (\<lambda>n. whenb (0 < n)
     (seq (modify (\<lambda>s. s\<lparr>close_tasks := close_tasks s - 1\<rparr>)) closeConnectionTask))"
| "do_job Run_release = bind (gets release_events) (\<lambda>n. whenb (0 < n)
     (seq (modify (\<lambda>s. s\<lparr>release_events := release_events s - 1\<rparr>)) releaseConnection))"
| "do_job (Run_io n) = Run_handler n"
| "do_job (Run_read e n made as throws) = bind (gets reads) (\<lambda>k. whenb (0 < k)
     (seq (modify (\<lambda>s. s\<lparr>reads := reads s - 1\<rparr>)) (conn_parsePacket e n made as throws)))"
| "do_job Timer_expires = bind (gets write_timer) (\<lambda>b. whenb b expire)"
| "do_job Tasks_end = modify (\<lambda>s. s\<lparr>taking := False\<rparr>)"
| "do_job Other_error = modify (\<lambda>s. s\<lparr>m_logError := False\<rparr>)"

text \<open>What the theorem of a connection's life excludes: a handler that overtakes another, and \<open>closeAll\<close>.\<close>

fun usual :: "conn_job \<Rightarrow> bool" where
  "usual (Run_io n) = (n = 0)"
| "usual Call_close_all = False"
| "usual _ = True"

text \<open>The exceptions that callbacks of the protocol end with.\<close>

definition thrown :: "conn_act list \<Rightarrow> std_exn set" where
  "thrown as = {e. Act_throw e \<in> set as}"

fun thrown_by :: "conn_job \<Rightarrow> std_exn set" where
  "thrown_by (Run_read _ _ _ as _) = thrown as"
| "thrown_by _ = {}"

section \<open>The invariant\<close>

text \<open>
  While tasks are taken, a close task is queued exactly while closing is requested, and once closed
  exactly one of a release event, a stop operation and the deleted socket stands for the
  connection; the protocol is released at most once, and an open connection has it once it
  has received. \<open>j\<close> and \<open>r\<close> are the jobs just taken that have not had their effect.
\<close>

definition ends :: "nat \<Rightarrow> conn \<Rightarrow> nat" where
  "ends r s = release_events s + count_list (io_queue s) Io_stop + r + (if m_socket s = Sock_deleted then 1 else 0)"

definition closing_inv :: "nat \<Rightarrow> nat \<Rightarrow> conn \<Rightarrow> bool" where
  "closing_inv j r s \<longleftrightarrow>
     close_tasks s + j \<le> (if m_connectionState s = CONNECTION_STATE_REQUEST_CLOSE then 1 else 0)
   \<and> (m_connectionState s = CONNECTION_STATE_REQUEST_CLOSE \<and> taking s \<longrightarrow> close_tasks s + j = 1)
   \<and> ends r s \<le> (if m_connectionState s = CONNECTION_STATE_CLOSED then 1 else 0)
   \<and> (m_connectionState s = CONNECTION_STATE_CLOSED \<and> taking s \<longrightarrow> ends r s = 1)
   \<and> count_list (log s) Manager_release + (if stopping s then 1 else 0) = (if m_socket s = Sock_deleted then 1 else 0)"

definition protocol_inv :: "conn \<Rightarrow> bool" where
  "protocol_inv s \<longleftrightarrow>
     (m_connectionState s \<in> {CONNECTION_STATE_CLOSING, CONNECTION_STATE_CLOSED} \<longrightarrow> m_protocol s = None)
   \<and> count_list (log s) Release_protocol \<le> 1 \<and> (m_protocol s \<noteq> None \<longrightarrow> count_list (log s) Release_protocol = 0)
   \<and> (m_connectionState s = CONNECTION_STATE_OPEN
        \<longrightarrow> count_list (log s) Release_protocol = 0 \<and> (m_receivedFirst s \<longrightarrow> m_protocol s \<noteq> None))"

text \<open>A time-out that is ready behind the stop operation must find nothing to do.\<close>

definition behind_stop :: "io_handler list \<Rightarrow> bool" where
  "behind_stop q \<longleftrightarrow> Io_timer \<in> set (tl (dropWhile (\<lambda>h. h = Io_timer) q))"

definition timer_inv :: "conn \<Rightarrow> bool" where
  "timer_inv s \<longleftrightarrow>
     (m_writeError s \<longrightarrow> \<not> write_timer s)
   \<and> (m_connectionState s = CONNECTION_STATE_CLOSED \<longrightarrow> m_pendingWrite s = 0 \<or> m_writeError s)
   \<and> (m_writeError s \<or> 0 < m_pendingWrite s \<longrightarrow>
        \<not> behind_stop (io_queue s) \<and> (m_socket s = Sock_deleted \<longrightarrow> Io_timer \<notin> set (io_queue s)))"

definition conn_inv_at :: "nat \<Rightarrow> nat \<Rightarrow> conn \<Rightarrow> bool" where
  "conn_inv_at j r s \<longleftrightarrow> closing_inv j r s \<and> protocol_inv s \<and> timer_inv s"

lemmas conn_invs = conn_inv_at_def closing_inv_def protocol_inv_def timer_inv_def ends_def

abbreviation conn_inv :: "conn \<Rightarrow> bool" where
  "conn_inv \<equiv> conn_inv_at 0 0"

text \<open>The only exceptions are those of \<open>X\<close>.\<close>

abbreviation always :: "std_exn set \<Rightarrow> 'a cprog \<Rightarrow> (conn \<Rightarrow> bool) \<Rightarrow> conn \<Rightarrow> bool" where
  "always X m I s \<equiv> wp m (\<lambda>_. I) (\<lambda>e t. conn_inv t \<and> e \<in> X) s"

lemmas conn_unfold = closeConnection_def closeSocket_def deleteConnectionTask_def releaseConnection_def
  closeConnectionTask_def onStopOperation_def after_stop_def handleWriteError_def onWriteOperation_def getHandle_def
  internalSend_def send_def onReadTimeout_def onWriteTimeout_def handleWriteTimeout_def handleReadError_def
  start_read_def conn_addRef_def conn_unRef_def tell_def expire_def

lemma behind_stop_Cons [simp]:
  "behind_stop (Io_timer # q) = behind_stop q" "behind_stop (Io_stop # q) = (Io_timer \<in> set q)"
  by (simp_all add: behind_stop_def)

lemma no_stop_before [simp]:
  "count_list q Io_stop = 0 \<Longrightarrow> \<not> behind_stop q"
  "count_list q Io_stop = 0 \<Longrightarrow> \<not> behind_stop (q @ [h])"
proof -
  show "count_list q Io_stop = 0 \<Longrightarrow> \<not> behind_stop q" for q
  proof (induction q)
    case (Cons a q)
    then show ?case by (cases a) simp_all
  qed (simp add: behind_stop_def)
  show "count_list q Io_stop = 0 \<Longrightarrow> \<not> behind_stop (q @ [h])"
  proof (induction q)
    case (Cons a q)
    then show ?case by (cases a) simp_all
  qed (simp add: behind_stop_def)
qed

lemma wp_closeConnection: "conn_inv s \<Longrightarrow> always X closeConnection conn_inv s"
  by (cases "m_connectionState s") (simp_all add: conn_unfold wp_simps conn_invs)

lemma wp_closeConnectionTask: "conn_inv_at 1 0 s \<Longrightarrow> always X closeConnectionTask conn_inv s"
  by (cases "m_connectionState s"; cases "m_socket s") (auto simp: conn_unfold wp_simps conn_invs split: if_splits)

lemma wp_releaseConnection: "conn_inv_at 0 1 s \<Longrightarrow> always X releaseConnection conn_inv s"
  by (auto simp: conn_unfold wp_simps conn_invs split: if_splits)

lemma wp_onStopOperation:
  "conn_inv_at 0 1 s \<Longrightarrow> Io_timer \<notin> set (io_queue s) \<or> m_pendingWrite s = 0 \<and> \<not> m_writeError s
     \<Longrightarrow> always X onStopOperation conn_inv s"
  by (cases "m_connectionState s"; cases "m_socket s") (auto simp: conn_unfold wp_simps conn_invs split: if_splits)

lemma wp_after_stop: "conn_inv s \<Longrightarrow> stopping s \<Longrightarrow> always X after_stop conn_inv s"
  by (cases "m_socket s") (auto simp: conn_unfold wp_simps conn_invs)

lemma wp_onWriteTimeout:
  "conn_inv s \<Longrightarrow> m_socket s = Sock_deleted \<longrightarrow> m_pendingWrite s \<le> 0 \<and> \<not> m_writeError s
     \<Longrightarrow> always X onWriteTimeout conn_inv s"
  by (cases "m_connectionState s"; cases "m_socket s") (auto simp: conn_unfold wp_simps conn_invs)

text \<open>What a protocol does never deletes the socket or drops the protocol.\<close>

definition alive :: "conn \<Rightarrow> bool" where
  "alive s \<longleftrightarrow> conn_inv s \<and> m_socket s \<noteq> Sock_deleted"

lemma wp_alive_close: "alive s \<Longrightarrow> always X closeConnection alive s"
  by (cases "m_connectionState s"; cases "m_socket s") (simp_all add: alive_def conn_unfold wp_simps conn_invs)

lemma wp_alive_send: "alive s \<Longrightarrow> always X (send late o') alive s"
  unfolding alive_def
  by (cases "m_connectionState s"; cases o'; cases "m_socket s"; cases late)
    (auto simp: conn_unfold wp_simps conn_invs split: option.split)

lemma always_mono: "always X m I s \<Longrightarrow> (\<And>t. I t \<Longrightarrow> J t) \<Longrightarrow> always X m J s"
  by (erule wp_mono) auto

lemma always_seq: "always X m I s \<Longrightarrow> (\<And>t. I t \<Longrightarrow> always X n J t) \<Longrightarrow> always X (seq m n) J s"
  unfolding wp_seq by (erule wp_mono) auto

lemma wp_alive_acts: "alive s \<Longrightarrow> thrown as \<subseteq> X \<Longrightarrow> always X (acts as) alive s"
proof (induction as arbitrary: s rule: acts.induct)
  case (2 as)
  then show ?case by (auto simp: thrown_def intro!: always_seq [OF wp_alive_close])
next
  case (3 late o' as)
  have "thrown as \<subseteq> X" using 3(3) by (auto simp: thrown_def)
  then show ?case using 3(1,2) unfolding acts.simps wp_bind by (intro wp_mono [OF wp_alive_send]) auto
next
  case (4 as)
  then show ?case by (auto simp: thrown_def alive_def wp_simps getHandle_def)
qed (auto simp: wp_simps alive_def thrown_def)

lemma wp_start_read: "alive s \<Longrightarrow> always X (start_read throws) conn_inv s"
  by (cases "m_connectionState s"; cases throws) (auto simp: alive_def conn_unfold wp_simps conn_invs)

lemma alive_log: "alive s \<Longrightarrow> c \<noteq> Release_protocol \<Longrightarrow> c \<noteq> Manager_release \<Longrightarrow> alive (s\<lparr>log := log s @ [c]\<rparr>)"
  by (cases "m_socket s") (auto simp: alive_def conn_invs)

lemma wp_step:
  "wp (seq (modify f) m) Q R s = wp m Q R (f s)" "wp (seq (tell c) m) Q R s = wp m Q R (s\<lparr>log := log s @ [c]\<rparr>)"
  by (simp_all add: wp_seq wp_unit tell_def)

lemma wp_look: "wp (bind (gets f) g) Q R s = wp (g (f s)) Q R s"
  by (simp add: wp_bind wp_state)

lemma wp_serve:
  "alive s \<Longrightarrow> c \<noteq> Release_protocol \<Longrightarrow> c \<noteq> Manager_release \<Longrightarrow> thrown as \<subseteq> X
     \<Longrightarrow> always X (serve c as throws) conn_inv s"
  unfolding serve_def wp_step by (rule always_seq [OF wp_alive_acts wp_start_read]) (simp_all add: alive_log)

lemma wp_receive:
  assumes t: "conn_inv t" and X: "thrown as \<subseteq> X"
  shows "always X (conn_receive n made as throws) conn_inv t"
proof (cases "m_connectionState t \<noteq> CONNECTION_STATE_OPEN \<or> m_readError t")
  case True
  then show ?thesis using wp_closeConnection [OF t] by (simp add: conn_receive_def wp_look)
next
  case False
  then have o': "m_connectionState t = CONNECTION_STATE_OPEN" "\<not> m_readError t" "m_socket t \<noteq> Sock_deleted"
    using t by (auto simp: conn_invs)
  let ?t = "t\<lparr>m_pendingRead := m_pendingRead t - 1\<rparr>"
  have serve: "alive u \<Longrightarrow> always X (serve (First_message n) as throws) conn_inv u"
    "alive u \<Longrightarrow> always X (serve (Recv_message n) as throws) conn_inv u" for u
    using X by (simp_all add: wp_serve)
  show ?thesis
  proof (cases "m_protocol t")
    case None
    then have fresh: "\<not> m_receivedFirst t" using t o' by (auto simp: conn_invs)
    have "always X closeConnection conn_inv (?t\<lparr>m_receivedFirst := True\<rparr>)"
      using t o' None by (auto simp: conn_unfold wp_simps conn_invs)
    moreover have "alive (?t\<lparr>m_receivedFirst := True, m_protocol := Some p, log := log t @ [Set_connection True]\<rparr>)" for p
      using t o' None by (auto simp: alive_def conn_invs)
    ultimately show ?thesis
      using o' None fresh by (cases made) (simp_all add: conn_receive_def wp_look wp_step serve)
  next
    case (Some p)
    have "alive ?t" "alive (?t\<lparr>m_receivedFirst := True\<rparr>)"
      using t o' Some by (auto simp: alive_def conn_invs)
    then show ?thesis
      using o' Some by (cases "m_receivedFirst t") (simp_all add: conn_receive_def wp_look wp_step serve)
  qed
qed

lemma lock_free [simp]: "conn_inv_at j r (s\<lparr>m_connectionLock := b\<rparr>) = conn_inv_at j r s"
  by (simp add: conn_invs)

lemma wp_parsePacket:
  assumes "conn_inv s" and "thrown as \<subseteq> X"
  shows "always X (conn_parsePacket error n made as throws) conn_inv s"
proof -
  have "always X (case error of None \<Rightarrow> skip | Some e \<Rightarrow> handleReadError e) conn_inv (s\<lparr>m_connectionLock := True\<rparr>)"
    using assms(1) by (cases error; cases "m_connectionState s") (auto simp: conn_unfold wp_simps conn_invs)
  then show ?thesis unfolding conn_parsePacket_def wp_step
    by (rule always_seq) (auto simp: wp_unit intro!: always_seq [OF wp_receive] assms(2))
qed

lemma wp_Run_handler:
  assumes inv: "conn_inv s"
  shows "always X (Run_handler 0) conn_inv s"
proof (cases "io_queue s")
  case Nil
  then show ?thesis using inv by (simp add: Run_handler_def wp_look wp_whenb wp_unit wp_after_stop)
next
  case (Cons h q)
  let ?s = "s\<lparr>io_queue := q\<rparr>"
  have "always X (handleWriteTimeout None) conn_inv ?s" if "h = Io_timer" "\<not> stopping s"
  proof -
    have "closing_inv 0 0 ?s" "protocol_inv ?s" "timer_inv ?s"
      using inv Cons that by (simp_all add: conn_invs)
    moreover have "m_socket ?s = Sock_deleted \<longrightarrow> m_pendingWrite ?s \<le> 0 \<and> \<not> m_writeError ?s"
      using inv Cons that by (auto simp: conn_inv_at_def timer_inv_def)
    ultimately have "conn_inv ?s" "m_socket ?s = Sock_deleted \<longrightarrow> m_pendingWrite ?s \<le> 0 \<and> \<not> m_writeError ?s"
      by (simp_all only: conn_inv_at_def)
    then show ?thesis by (simp add: handleWriteTimeout_def wp_whenb wp_onWriteTimeout)
  qed
  moreover have "always X onStopOperation conn_inv ?s" if "h = Io_stop" "\<not> stopping s"
  proof (rule wp_onStopOperation)
    have "m_connectionState s = CONNECTION_STATE_CLOSED"
      using inv Cons that by (cases "m_connectionState s") (simp_all add: conn_inv_at_def closing_inv_def ends_def)
    then show "conn_inv_at 0 1 ?s" "Io_timer \<notin> set (io_queue ?s) \<or> m_pendingWrite ?s = 0 \<and> \<not> m_writeError ?s"
      using inv Cons that by (auto simp: conn_invs)
  qed
  ultimately show ?thesis
    using inv Cons by (cases h; cases "stopping s") (simp_all add: Run_handler_def wp_look wp_whenb wp_step wp_after_stop)
qed

lemma deleted_closed: "conn_inv_at j r s \<Longrightarrow> m_socket s = Sock_deleted \<Longrightarrow> m_connectionState s = CONNECTION_STATE_CLOSED"
  by (cases "m_connectionState s") (simp_all add: conn_inv_at_def closing_inv_def ends_def)

lemma wp_do_job:
  assumes inv: "conn_inv s" and us: "usual j" and X: "thrown_by j \<subseteq> X"
  shows "always X (do_job j) conn_inv s"
proof (cases j)
  case Call_close
  then show ?thesis by (simp add: wp_closeConnection inv)
next
  case (Call_send late o')
  have "always X (send late o') conn_inv s"
  proof (cases "m_socket s = Sock_deleted")
    case True
    then show ?thesis using inv deleted_closed [OF inv] by (simp add: send_def wp_simps)
  next
    case False
    then have "always X (send late o') alive s" using inv by (intro wp_alive_send) (simp add: alive_def)
    then show ?thesis by (rule always_mono) (simp add: alive_def)
  qed
  then show ?thesis using Call_send by (simp add: wp_bind wp_unit)
next
  case Call_peer
  have "m_protocol s \<noteq> None \<Longrightarrow> m_connectionState s \<noteq> CONNECTION_STATE_CLOSED"
    using inv by (auto simp: conn_inv_at_def protocol_inv_def)
  then have "m_protocol s \<noteq> None \<Longrightarrow> m_socket s \<noteq> Sock_deleted" using deleted_closed [OF inv] by blast
  then show ?thesis using inv Call_peer by (simp add: wp_look wp_whenb wp_unit wp_basic getHandle_def)
next
  case (Run_read e n made as throws)
  have "conn_inv (s\<lparr>reads := k\<rparr>)" for k using inv by (simp add: conn_invs)
  then show ?thesis using inv Run_read X by (simp add: wp_look wp_whenb wp_unit wp_step wp_parsePacket)
next
  case Run_close_task
  have "0 < close_tasks s \<Longrightarrow> conn_inv_at 1 0 (s\<lparr>close_tasks := close_tasks s - 1\<rparr>)"
    using inv by (simp add: conn_invs split: if_splits)
  then show ?thesis using inv Run_close_task wp_closeConnectionTask
    by (simp add: wp_look wp_whenb wp_unit wp_step)
next
  case Run_release
  have "0 < release_events s \<Longrightarrow> conn_inv_at 0 1 (s\<lparr>release_events := release_events s - 1\<rparr>)"
    using inv by (simp add: conn_invs split: if_splits)
  then show ?thesis using inv Run_release wp_releaseConnection
    by (simp add: wp_look wp_whenb wp_unit wp_step)
next
  case (Run_io n)
  then show ?thesis using us by (simp add: wp_Run_handler inv)
next
  case Timer_expires
  have timer: "timer_inv s" using inv by (simp add: conn_inv_at_def)
  have early: "m_connectionState s \<noteq> CONNECTION_STATE_CLOSED
      \<Longrightarrow> count_list (io_queue s) Io_stop = 0 \<and> m_socket s \<noteq> Sock_deleted"
    using inv by (simp add: conn_inv_at_def closing_inv_def ends_def split: if_splits)
  let ?t = "s\<lparr>write_timer := False, io_queue := io_queue s @ [Io_timer]\<rparr>"
  have "timer_inv ?t" if "write_timer s"
    using timer early that by (cases "m_connectionState s = CONNECTION_STATE_CLOSED") (auto simp: timer_inv_def)
  moreover have "closing_inv 0 0 ?t" "protocol_inv ?t"
    using inv by (simp_all add: conn_inv_at_def closing_inv_def ends_def protocol_inv_def)
  ultimately show ?thesis
    using Timer_expires inv by (simp add: wp_look wp_whenb wp_unit expire_def conn_inv_at_def)
qed (use inv us in \<open>auto simp: wp_look wp_whenb conn_addRef_def conn_unRef_def wp_unit conn_invs\<close>)

text \<open>The jobs are the calls of an object that keeps the invariant.\<close>

interpretation connection: object_life do_job conn_inv "\<lambda>j. usual j \<and> thrown_by j \<subseteq> X" X for X
  by unfold_locales (auto intro: wp_do_job)

lemma wp_accept:
  assumes "thrown as \<subseteq> X"
  shows "always X (acceptConnection p as throws) conn_inv (conn_new le)"
proof -
  have new: "alive (conn_new le)" "alive ((conn_new le)\<lparr>m_protocol := Some q, log := [On_connect]\<rparr>)" for q
    by (simp_all add: alive_def conn_new_def conn_invs)
  have "always X (acts as) (always X (start_read throws) conn_inv) ((conn_new le)\<lparr>m_protocol := Some q, log := [On_connect]\<rparr>)" for q
    by (rule always_mono [OF wp_alive_acts wp_start_read]) (rule new assms | assumption)+
  then show ?thesis
    using wp_start_read [OF new(1)] by (cases p) (simp_all add: acceptConnection_def wp_seq wp_unit tell_def conn_new_def)
qed

section \<open>The life of a connection\<close>

text \<open>
  Claim C25: however calls, completions, time-outs and the jobs of the threads follow each other, as long as the
  I/O service runs the handlers that are ready in their order and nobody calls \<open>closeAll\<close>, the
  life of a connection is defined: the deleted socket is never used, not even by a time-out that \<open>cancel\<close> came too late for.
  It goes on until a callback of the protocol throws, which ends it with that exception. At every moment
  at most one close task is queued, only while closing is requested, and then there is one, unless the dispatcher
  has stopped taking tasks; the protocol is released at most once, and the connection does not know it any
  more when it has been; and the connection is handed back to its manager at most once, after the one
  deletion of its socket. Once it is closed, one thing is left to happen, exactly one as long as tasks are taken: a
  release event, a stop operation, or the deleted socket.
\<close>

theorem connection_life:
  assumes "list_all usual js"
  shows "\<exists>s. (seq (acceptConnection p as throws) (for_each js do_job) (conn_new le) = Ret () s
       \<or> (\<exists>e \<in> thrown as \<union> (\<Union>j\<in>set js. thrown_by j).
            seq (acceptConnection p as throws) (for_each js do_job) (conn_new le) = Exn e s))
     \<and> close_tasks s \<le> (if m_connectionState s = CONNECTION_STATE_REQUEST_CLOSE then 1 else 0)
     \<and> (m_connectionState s = CONNECTION_STATE_REQUEST_CLOSE \<and> taking s \<longrightarrow> close_tasks s = 1)
     \<and> count_list (log s) Release_protocol \<le> (if m_protocol s = None then 1 else 0)
     \<and> (m_connectionState s \<in> {CONNECTION_STATE_CLOSING, CONNECTION_STATE_CLOSED} \<longrightarrow> m_protocol s = None)
     \<and> count_list (log s) Manager_release + (if stopping s then 1 else 0) = (if m_socket s = Sock_deleted then 1 else 0)
     \<and> ends 0 s \<le> (if m_connectionState s = CONNECTION_STATE_CLOSED then 1 else 0)
     \<and> (m_connectionState s = CONNECTION_STATE_CLOSED \<and> taking s \<longrightarrow> ends 0 s = 1)"
proof -
  let ?X = "thrown as \<union> (\<Union>j\<in>set js. thrown_by j)" and ?run = "seq (acceptConnection p as throws) (for_each js do_job)"
  have "list_all (\<lambda>j. usual j \<and> thrown_by j \<subseteq> ?X) js" using assms by (auto simp: list_all_iff)
  then have "always ?X ?run conn_inv (conn_new le)"
    by (intro always_seq [OF wp_accept connection.calls_life]) auto
  then obtain s where s: "?run (conn_new le) = Ret () s \<or> (\<exists>e \<in> ?X. ?run (conn_new le) = Exn e s)" "conn_inv s"
    by (auto simp: wp_def split: out.splits)
  then have "closing_inv 0 0 s" "protocol_inv s" by (simp_all add: conn_inv_at_def)
  then show ?thesis
    using s(1) by (intro exI [of _ s] conjI) (auto simp: closing_inv_def protocol_inv_def)
qed

text \<open>A write that takes longer than its timer and fails: the time-out runs, before the stop operation.\<close>

definition late_write :: "conn_job list" where
  "late_write = [Call_send True (Write_error Connection_reset), Run_close_task]"

theorem connection_life_witness:
  "list_all usual (late_write @ [Run_io 0, Run_io 0, Run_io 0])
   \<and> (\<exists>s. seq (acceptConnection (Some 7) [] False) (for_each (late_write @ [Run_io 0, Run_io 0, Run_io 0]) do_job)
         (conn_new True) = Ret () s \<and> count_list (log s) Manager_release \<le> 1)"
proof -
  let ?js = "late_write @ [Run_io 0, Run_io 0, Run_io 0]"
  have us: "list_all usual ?js" and calm: "thrown [] \<union> (\<Union>j\<in>set ?js. thrown_by j) = {}"
    by (simp_all add: late_write_def thrown_def)
  from connection_life [OF us, of "Some 7" "[]" False True] obtain s where
    s: "seq (acceptConnection (Some 7) [] False) (for_each ?js do_job) (conn_new True) = Ret () s"
      "count_list (log s) Manager_release + (if stopping s then 1 else 0) = (if m_socket s = Sock_deleted then 1 else 0)"
    unfolding calm by blast
  from s(2) have "count_list (log s) Manager_release \<le> 1" by (simp split: if_splits)
  with us s(1) show ?thesis by blast
qed

text \<open>
  The order of the handlers matters: if the stop operation overtakes the time-out, this one closes the deleted socket.
\<close>

theorem late_time_out_uses_deleted_socket:
  "seq (acceptConnection (Some 7) [] False) (for_each (late_write @ [Run_io 1, Run_io 0, Run_io 0]) do_job) (conn_new True)
     = Undefined"
  by code_simp

text \<open>
  So does \<open>closeAll\<close>: it looks at the sockets of all connections the manager lists, without their locks, and
  one whose socket is deleted is still listed for a moment.
\<close>

theorem close_all_uses_deleted_socket:
  "seq (acceptConnection (Some 7) [] False) (for_each [Call_close, Run_close_task, Run_io 0, Call_close_all] do_job)
     (conn_new True) = Undefined"
  by code_simp

text \<open>
  An exception of the protocol while it handles a packet leaves the lock of the connection held; nothing between
  there and the loop of the I/O service catches it.
\<close>

theorem callback_exception_keeps_lock:
  assumes "conn_parsePacket None n made (Act_throw e # as) throws s = Exn e' t"
  shows "m_connectionLock t \<and> e' = e"
  using assms
  by (auto simp: conn_parsePacket_def conn_receive_def serve_def closeConnection_def tell_def seq_def bind_def prog_eval
      split: if_splits option.splits out.splits)

end
