(* ===== verification/Peers.thy ===== *)
theory Peers
  imports Connection NetMessage
begin

text \<open>
  What a connection tells about its peer (\<open>src/Network/Connection.cpp\<close>), the queries and the debug
  output of a protocol (\<open>src/Network/Protocol.cpp\<close>). The peer of the socket and the resolver of host
  names are parameters.
\<close>

section \<open>Address, port and host name\<close>

record peer_conn = conn +
  hostName :: string

type_synonym 'a peerprog = "(std_exn, peer_conn, 'a) prog"

type_synonym endpoint = "string \<times> u16"

definition any_address :: string where "any_address = ''0.0.0.0''"

text \<open>
  \<open>remote_endpoint\<close> gives an error (\<open>None\<close>) or the peer; the call on a deleted socket is undefined.
\<close>

definition getAddress :: "endpoint option \<Rightarrow> string peerprog" where
  "getAddress ep = bind (gets m_socket) (\<lambda>k. if k = Sock_deleted then undefined_behaviour
     else ret (case ep of None \<Rightarrow> any_address | Some (a, _) \<Rightarrow> a))"

definition getPort :: "endpoint option \<Rightarrow> u16 peerprog" where
  "getPort ep = bind (gets m_socket) (\<lambda>k. if k = Sock_deleted then undefined_behaviour
     else ret (case ep of None \<Rightarrow> 0 | Some (_, p) \<Rightarrow> p))"

text \<open>
  The error of \<open>remote_endpoint\<close> is not looked at: the default end point is resolved then. The resolver
  throws (\<open>None\<close>) or gives a name, which is kept. The timer armed for the resolution belongs to an I/O service
  that is never run, so its handler is never called.
\<close>

definition getHostname :: "endpoint option \<Rightarrow> (endpoint \<Rightarrow> string option) \<Rightarrow> string peerprog" where
  "getHostname ep resolve = bind (gets hostName) (\<lambda>h.
     if h \<noteq> [] then ret h
     else bind (gets m_socket) (\<lambda>k. if k = Sock_deleted then undefined_behaviour
       else seq (case resolve (case ep of None \<Rightarrow> (any_address, 0) | Some e \<Rightarrow> e) of
                   None \<Rightarrow> skip | Some n \<Rightarrow> modify (\<lambda>s. s\<lparr>hostName := n\<rparr>))
            (gets hostName)))"

definition onResolveTimeout :: "unit peerprog" where
  "onResolveTimeout = skip"

text \<open>The connection is taken to live.\<close>

definition handleResolveTimeout :: "net_error option \<Rightarrow> unit peerprog" where
  "handleResolveTimeout e = whenb (e \<noteq> Some Operation_aborted) onResolveTimeout"

definition handleReadTimeout :: "net_error option \<Rightarrow> unit cprog" where
  "handleReadTimeout e = whenb (e \<noteq> Some Operation_aborted) onReadTimeout"

text \<open>A protocol without a connection gives the defaults.\<close>

definition ask_connection :: "bool \<Rightarrow> 'a \<Rightarrow> 'a peerprog \<Rightarrow> 'a peerprog" where
  "ask_connection has_connection d m = (if has_connection then m else ret d)"

definition Protocol_getAddress :: "bool \<Rightarrow> endpoint option \<Rightarrow> string peerprog" where
  "Protocol_getAddress c ep = ask_connection c any_address (getAddress ep)"

definition Protocol_getPort :: "bool \<Rightarrow> endpoint option \<Rightarrow> u16 peerprog" where
  "Protocol_getPort c ep = ask_connection c 0 (getPort ep)"

definition Protocol_getHostname :: "bool \<Rightarrow> endpoint option \<Rightarrow> (endpoint \<Rightarrow> string option) \<Rightarrow> string peerprog" where
  "Protocol_getHostname c ep resolve = ask_connection c [] (getHostname ep resolve)"

definition Protocol_disconnect :: "bool \<Rightarrow> unit cprog" where
  "Protocol_disconnect has_connection = (if has_connection then closeConnection else skip)"

section \<open>Debug output\<close>

text \<open>The result is the numbers printed.\<close>

fun debug_loop :: "nat \<Rightarrow> u8 \<Rightarrow> (std_exn, netmsg, nat list) prog" where
  "debug_loop 0 x = ret []"
| "debug_loop (Suc n) x =
     (if 0 < n then bind GetByte (\<lambda>y. bind (debug_loop n y) (\<lambda>ys. ret (unat x # ys)))
      else ret [unat x])"

definition parseDebug :: "(std_exn, netmsg, nat list) prog" where
  "parseDebug = bind (gets id) (\<lambda>m.
     bind (if m_MsgSize m \<noteq> 0 then bind GetByte (\<lambda>x. debug_loop (unat (m_MsgSize m)) x) else ret [])
       (\<lambda>out. seq (modify (setReadPos (m_ReadPos m))) (ret out)))"

section \<open>Properties\<close>

text \<open>
  A name that was resolved is kept: later calls give it whatever the resolver says. One that was not is
  asked for again, and the answer is empty, without an exception.
\<close>

theorem hostname_resolved_once:
  assumes "m_socket s \<noteq> Sock_deleted" and "hostName s = []"
  shows "case resolve (case ep of None \<Rightarrow> (any_address, 0) | Some e \<Rightarrow> e) of
      None \<Rightarrow> getHostname ep resolve s = Ret [] s
    | Some n \<Rightarrow> (\<exists>t. getHostname ep resolve s = Ret n t \<and> conn.truncate t = conn.truncate s
        \<and> (n \<noteq> [] \<longrightarrow> (\<forall>ep' resolve'. getHostname ep' resolve' t = Ret n t)))"
  using assms by (auto simp: getHostname_def bind_def seq_def prog_eval conn.truncate_def split: option.split)

lemma hostname_resolved_once_witness:
  "\<exists>t. getHostname (Some (''1.2.3.4'', 5)) (\<lambda>_. Some ''h'') (conn.extend (conn_new True) \<lparr>hostName = []\<rparr>) = Ret ''h'' t
     \<and> getHostname None (\<lambda>_. None) t = Ret ''h'' t"
  using hostname_resolved_once [where s = "conn.extend (conn_new True) \<lparr>hostName = []\<rparr>"
      and resolve = "\<lambda>_. Some ''h''" and ep = "Some (''1.2.3.4'', 5)"]
  by (auto simp: conn_new_def conn.extend_def)

lemma GetByte_eval:
  "unat (m_ReadPos m) < length (m_MsgBuf m) \<Longrightarrow>
     GetByte m = Ret (m_MsgBuf m ! unat (m_ReadPos m)) (m\<lparr>m_ReadPos := m_ReadPos m + 1\<rparr>)"
  by (simp add: GetByte_def get_le_def peek_def bind_def prog_eval take_Suc_conv_app_nth [of 0, simplified] hd_drop_conv_nth)

lemma debug_loop_eval:
  assumes "length (m_MsgBuf m) = MAXSIZE" "unat (m_ReadPos m) + n \<le> MAXSIZE"
  shows "debug_loop (Suc n) x m = Ret (unat x # map unat (take n (drop (unat (m_ReadPos m)) (m_MsgBuf m))))
     (m\<lparr>m_ReadPos := m_ReadPos m + of_nat n\<rparr>)"
  using assms
proof (induction n arbitrary: m x)
  case (Suc n)
  let ?m = "m\<lparr>m_ReadPos := m_ReadPos m + 1\<rparr>"
  have lt: "unat (m_ReadPos m) < length (m_MsgBuf m)" using Suc.prems by simp
  have pos: "unat (m_ReadPos m + 1) = unat (m_ReadPos m) + 1"
    using Suc.prems by (subst unat_add_lem [THEN iffD1]) (simp_all add: MAXSIZE_def)
  then have "debug_loop (Suc n) y ?m = Ret (unat y # map unat (take n (drop (unat (m_ReadPos m + 1)) (m_MsgBuf m))))
      (?m\<lparr>m_ReadPos := m_ReadPos m + 1 + of_nat n\<rparr>)" for y
    using Suc.IH [of ?m y] Suc.prems by simp
  then show ?case
    using lt pos by (simp add: GetByte_eval bind_def prog_eval Cons_nth_drop_Suc [symmetric] add.assoc del: debug_loop.simps(2))
      (simp add: GetByte_eval bind_def prog_eval Cons_nth_drop_Suc [symmetric] add.assoc)
qed (simp add: prog_eval)

text \<open>
  The debug output leaves the message as it was and prints as many bytes as the message has. It prints them
  from the read position on: once something has been read, it prints bytes behind the message's end.
\<close>

theorem parseDebug_prints:
  assumes "length (m_MsgBuf m) = MAXSIZE" "unat (m_ReadPos m) + unat (m_MsgSize m) \<le> MAXSIZE"
  shows "parseDebug m = Ret (map unat (take (unat (m_MsgSize m)) (drop (unat (m_ReadPos m)) (m_MsgBuf m)))) m"
proof (cases "m_MsgSize m = 0")
  case True
  then show ?thesis by (simp add: parseDebug_def bind_def seq_def prog_eval setReadPos_def)
next
  case False
  then obtain k where k: "unat (m_MsgSize m) = Suc k" by (metis not0_implies_Suc unat_eq_zero)
  let ?m = "m\<lparr>m_ReadPos := m_ReadPos m + 1\<rparr>"
  have lt: "unat (m_ReadPos m) < length (m_MsgBuf m)" using assms k by simp
  have pos: "unat (m_ReadPos m + 1) = unat (m_ReadPos m) + 1"
    using assms k by (subst unat_add_lem [THEN iffD1]) (simp_all add: MAXSIZE_def)
  have "debug_loop (Suc k) x ?m = Ret (unat x # map unat (take k (drop (unat (m_ReadPos m + 1)) (m_MsgBuf m))))
      (?m\<lparr>m_ReadPos := m_ReadPos m + 1 + of_nat k\<rparr>)" for x
    using debug_loop_eval [of ?m k x] assms k pos by simp
  then show ?thesis using False k lt pos
    by (simp add: parseDebug_def GetByte_eval bind_def seq_def prog_eval setReadPos_def Cons_nth_drop_Suc [symmetric]
        del: debug_loop.simps)
qed

theorem parseDebug_prints_witness:
  "parseDebug \<lparr>m_MsgSize = 2, m_ReadPos = 1, m_MsgBuf = [7, 8, 9] @ replicate 15337 0\<rparr>
     = Ret [8, 9] \<lparr>m_MsgSize = 2, m_ReadPos = 1, m_MsgBuf = [7, 8, 9] @ replicate 15337 0\<rparr>"
  using parseDebug_prints [of "\<lparr>m_MsgSize = 2, m_ReadPos = 1, m_MsgBuf = [7, 8, 9] @ replicate 15337 0\<rparr>"]
  by (simp add: MAXSIZE_def)

end
