(* ===== verification/OutputPool.thy ===== *)
theory OutputPool
  imports NetMessage StdMap
begin

text \<open>
  \<open>src/Network/OutputMessage.cpp\<close>, with the parts of \<open>Protocol.cpp\<close> that use it: the pool of
  output messages, their shared pointers, and the reference counts they hold on their protocol and
  their connection. A message is its address; the count of a shared pointer is given by the places
  that hold one, and the deleter runs when the last of them lets go. The answer of
  \<open>Connection::send\<close> (the connection itself is in \<open>Connection\<close>) is an argument.
\<close>

section \<open>The objects\<close>

datatype omsg_state = STATE_FREE | STATE_ALLOCATED | STATE_ALLOCATED_NO_AUTOSEND | STATE_WAITING

record omsg = netmsg +
  m_protocol :: "nat option"
  m_connection :: "nat option"
  m_outputBufferStart :: u32
  m_frame :: u64
  m_state :: omsg_state

record pool_prot =
  m_outputBuffer :: "nat option"
  getConnection :: "nat option"
  m_refCount :: u32

text \<open>
  \<open>held\<close> are the shared pointers of callers, \<open>release_tasks\<close> the messages whose
  \<open>internalReleaseMessage\<close> is queued in the dispatcher, and \<open>sent\<close> the messages connections took.
\<close>

record pool =
  m_outputMessages :: "nat list"
  m_autoSendOutputMessages :: "nat list"
  m_toAddQueue :: "nat list"
  m_frameTime :: u64
  m_isOpen :: bool
  omsg_at :: "nat \<Rightarrow> omsg"
  omsg_count :: nat
  held :: "nat list"
  release_tasks :: "nat list"
  pool_prots :: "(nat, pool_prot) smap"
  conn_refs :: "nat \<Rightarrow> u32"
  sent :: "nat list"

type_synonym 'a pprog = "(std_exn, pool, 'a) prog"

definition OUTPUT_POOL_SIZE :: nat where "OUTPUT_POOL_SIZE = 100"

definition freeMessage :: "omsg \<Rightarrow> omsg" where
  "freeMessage o' = o'\<lparr>m_connection := None, m_protocol := None, m_frame := 0, m_outputBufferStart := 0,
     m_state := STATE_FREE\<rparr>"

definition OutputMessage_new :: "u8 list \<Rightarrow> omsg" where
  "OutputMessage_new garbage = freeMessage (Reset \<lparr>m_MsgSize = 0, m_ReadPos = 0, m_MsgBuf = garbage,
     m_protocol = None, m_connection = None, m_outputBufferStart = 0, m_frame = 0, m_state = STATE_FREE\<rparr>)"

definition OutputMessagePool_new :: "u8 list \<Rightarrow> u64 \<Rightarrow> pool" where
  "OutputMessagePool_new garbage now = \<lparr>m_outputMessages = [0..<OUTPUT_POOL_SIZE],
     m_autoSendOutputMessages = [], m_toAddQueue = [], m_frameTime = now, m_isOpen = False,
     omsg_at = (\<lambda>_. OutputMessage_new garbage), omsg_count = OUTPUT_POOL_SIZE, held = [], release_tasks = [],
     pool_prots = [], conn_refs = (\<lambda>_. 0), sent = []\<rparr>"

section \<open>Shared pointers\<close>

definition users_of :: "pool \<Rightarrow> nat set" where
  "users_of s = set (m_autoSendOutputMessages s) \<union> set (m_toAddQueue s) \<union> set (held s)
     \<union> {m. \<exists>(p, r) \<in> set (pool_prots s). m_outputBuffer r = Some m}"

text \<open>
  \<open>releaseMessage\<close>, the deleter: it goes to the front of the dispatcher's queue. A dispatcher that
  does not run drops it; the message then stays among those on their way back, and no task fetches it.
\<close>

definition releaseMessage :: "nat \<Rightarrow> unit pprog" where
  "releaseMessage m = modify (\<lambda>s. s\<lparr>release_tasks := m # release_tasks s\<rparr>)"

text \<open>A shared pointer to \<open>m\<close> has been given up.\<close>

definition let_go :: "nat \<Rightarrow> unit pprog" where
  "let_go m = bind (gets users_of) (\<lambda>us. whenb (m \<notin> us) (releaseMessage m))"

definition drop_handle :: "nat \<Rightarrow> unit pprog" where
  "drop_handle m = seq (modify (\<lambda>s. s\<lparr>held := remove1 m (held s)\<rparr>)) (let_go m)"

definition upd_msg :: "nat \<Rightarrow> (omsg \<Rightarrow> omsg) \<Rightarrow> unit pprog" where
  "upd_msg m f = modify (\<lambda>s. s\<lparr>omsg_at := (omsg_at s)(m := f (omsg_at s m))\<rparr>)"

text \<open>Access to a protocol; the pointer to a deleted one is undefined.\<close>

definition prot_at :: "nat \<Rightarrow> pool_prot pprog" where
  "prot_at p = bind (gets pool_prots) (\<lambda>m. case map_find m p of None \<Rightarrow> undefined_behaviour | Some r \<Rightarrow> ret r)"

definition upd_prot :: "nat \<Rightarrow> (pool_prot \<Rightarrow> pool_prot) \<Rightarrow> unit pprog" where
  "upd_prot p f = bind (prot_at p) (\<lambda>r. modify (\<lambda>s. s\<lparr>pool_prots := map_put p (f r) (pool_prots s)\<rparr>))"

definition msg_prot :: "nat \<Rightarrow> nat pprog" where
  "msg_prot m = bind (gets (\<lambda>s. m_protocol (omsg_at s m)))
     (\<lambda>p. case p of None \<Rightarrow> undefined_behaviour | Some p \<Rightarrow> ret p)"

section \<open>Sending\<close>

definition startExecutionFrame :: "u64 \<Rightarrow> unit pprog" where
  "startExecutionFrame now = modify (\<lambda>s. s\<lparr>m_frameTime := now, m_isOpen := True\<rparr>)"

definition pool_stop :: "unit pprog" where
  "pool_stop = modify (\<lambda>s. s\<lparr>m_isOpen := False\<rparr>)"

definition addToAutoSend :: "nat \<Rightarrow> unit pprog" where
  "addToAutoSend m = modify (\<lambda>s. s\<lparr>m_toAddQueue := m_toAddQueue s @ [m]\<rparr>)"

text \<open>\<open>Protocol::onSendMessage\<close>; its caller holds the message.\<close>

definition onSendMessage :: "nat \<Rightarrow> nat \<Rightarrow> unit pprog" where
  "onSendMessage p m = bind (prot_at p) (\<lambda>r.
     whenb (m_outputBuffer r = Some m) (upd_prot p (\<lambda>r. r\<lparr>m_outputBuffer := None\<rparr>)))"

text \<open>
  What \<open>Connection::send\<close> does with the pool: it takes the message, queues it behind a pending
  write, or refuses it.
\<close>

datatype send_result = Sent | Queued | Refused

definition connection_send :: "send_result \<Rightarrow> nat \<Rightarrow> bool pprog" where
  "connection_send r m = (case r of
     Sent \<Rightarrow> bind (msg_prot m) (\<lambda>p. seq (onSendMessage p m)
       (seq (modify (\<lambda>s. s\<lparr>sent := sent s @ [m]\<rparr>)) (ret True)))
   | Queued \<Rightarrow> seq (addToAutoSend m) (ret True)
   | Refused \<Rightarrow> ret False)"

definition send_one :: "send_result \<Rightarrow> nat \<Rightarrow> unit pprog" where
  "send_one r m = bind (gets (\<lambda>s. m_connection (omsg_at s m))) (\<lambda>c.
     if c = None then skip
     else bind (connection_send r m) (\<lambda>ok. if ok then skip else bind (msg_prot m) (\<lambda>p. onSendMessage p m)))"

definition pool_send :: "send_result \<Rightarrow> nat \<Rightarrow> unit pprog" where
  "pool_send r m = bind (gets (\<lambda>s. m_state (omsg_at s m))) (\<lambda>st.
     if st = STATE_ALLOCATED_NO_AUTOSEND then send_one r m else skip)"

text \<open>The age is computed in 64 bits without sign: a frame time ahead of the clock is very old.\<close>

definition read_timeout :: nat where "read_timeout = 30"

definition too_old :: "u64 \<Rightarrow> omsg \<Rightarrow> bool" where
  "too_old now o' = (of_nat (read_timeout * 1000) < now - m_frame o')"

text \<open>
  The two loops of \<open>sendAll\<close>. An old message is erased from the queue it stands in; \<open>out i\<close> is
  the answer of the connection to the \<open>i\<close>-th message of the round.
\<close>

fun take_queued :: "u64 \<Rightarrow> nat list \<Rightarrow> unit pprog" where
  "take_queued now [] = skip"
| "take_queued now (m # ms) = bind (gets (\<lambda>s. too_old now (omsg_at s m))) (\<lambda>old.
     if old then
       seq (bind (msg_prot m) (\<lambda>p. onSendMessage p m))
       (seq (modify (\<lambda>s. s\<lparr>m_toAddQueue := remove1 m (m_toAddQueue s)\<rparr>))
       (seq (let_go m) (take_queued now ms)))
     else
       seq (upd_msg m (\<lambda>o'. o'\<lparr>m_state := STATE_ALLOCATED\<rparr>))
       (seq (modify (\<lambda>s. s\<lparr>m_autoSendOutputMessages := m_autoSendOutputMessages s @ [m]\<rparr>)) (take_queued now ms)))"

fun send_queue :: "(nat \<Rightarrow> send_result) \<Rightarrow> nat \<Rightarrow> nat list \<Rightarrow> unit pprog" where
  "send_queue out i [] = skip"
| "send_queue out i (m # ms) =
     seq (send_one (out i) m)
     (seq (modify (\<lambda>s. s\<lparr>m_autoSendOutputMessages := ms\<rparr>))
     (seq (let_go m) (send_queue out (i + 1) ms)))"

text \<open>\<open>clear\<close> of the queue gives up pointers to messages that stand in the other list now.\<close>

definition sendAll :: "u64 \<Rightarrow> (nat \<Rightarrow> send_result) \<Rightarrow> unit pprog" where
  "sendAll now out =
     seq (bind (gets m_toAddQueue) (take_queued now))
     (seq (modify (\<lambda>s. s\<lparr>m_toAddQueue := []\<rparr>))
     (bind (gets m_autoSendOutputMessages) (send_queue out 0)))"

section \<open>Getting and releasing messages\<close>

definition configureOutputMessage :: "nat \<Rightarrow> nat \<Rightarrow> bool \<Rightarrow> unit pprog" where
  "configureOutputMessage m p autosend =
     seq (upd_msg m Reset)
     (seq (if autosend then
             seq (upd_msg m (\<lambda>o'. o'\<lparr>m_state := STATE_ALLOCATED\<rparr>))
               (modify (\<lambda>s. s\<lparr>m_autoSendOutputMessages := m_autoSendOutputMessages s @ [m]\<rparr>))
           else upd_msg m (\<lambda>o'. o'\<lparr>m_state := STATE_ALLOCATED_NO_AUTOSEND\<rparr>))
     (bind (prot_at p) (\<lambda>r. case getConnection r of
        None \<Rightarrow> undefined_behaviour
      | Some c \<Rightarrow>
          seq (upd_msg m (\<lambda>o'. o'\<lparr>m_protocol := Some p\<rparr>))
          (seq (upd_prot p (\<lambda>r. r\<lparr>m_refCount := m_refCount r + 1\<rparr>))
          (seq (upd_msg m (\<lambda>o'. o'\<lparr>m_connection := Some c\<rparr>))
          (seq (modify (\<lambda>s. s\<lparr>conn_refs := (conn_refs s)(c := conn_refs s c + 1)\<rparr>))
          (bind (gets m_frameTime) (\<lambda>t. upd_msg m (\<lambda>o'. o'\<lparr>m_frame := t\<rparr>)))))))))"

definition new_message :: "u8 list \<Rightarrow> unit pprog" where
  "new_message garbage = modify (\<lambda>s. s\<lparr>omsg_at := (omsg_at s)(omsg_count s := OutputMessage_new garbage),
     m_outputMessages := m_outputMessages s @ [omsg_count s], omsg_count := omsg_count s + 1\<rparr>)"

definition getOutputMessage :: "u8 list \<Rightarrow> nat \<Rightarrow> bool \<Rightarrow> nat option pprog" where
  "getOutputMessage garbage p autosend = bind (gets m_isOpen) (\<lambda>open'.
     if \<not> open' then ret None
     else bind (prot_at p) (\<lambda>r.
       if getConnection r = None then ret None
       else
         seq (bind (gets m_outputMessages) (\<lambda>f. whenb (f = []) (new_message garbage)))
         (bind (gets m_outputMessages) (\<lambda>f.
           seq (modify (\<lambda>s. s\<lparr>held := last f # held s, m_outputMessages := butlast f\<rparr>))
           (seq (configureOutputMessage (last f) p autosend) (ret (Some (last f))))))))"

definition internalReleaseMessage :: "nat \<Rightarrow> unit pprog" where
  "internalReleaseMessage m = bind (gets (\<lambda>s. omsg_at s m)) (\<lambda>o'.
     seq (case m_protocol o' of None \<Rightarrow> skip | Some p \<Rightarrow> upd_prot p (\<lambda>r. r\<lparr>m_refCount := m_refCount r - 1\<rparr>))
     (seq (case m_connection o' of None \<Rightarrow> skip
           | Some c \<Rightarrow> modify (\<lambda>s. s\<lparr>conn_refs := (conn_refs s)(c := conn_refs s c - 1)\<rparr>))
     (seq (upd_msg m freeMessage)
       (modify (\<lambda>s. s\<lparr>m_outputMessages := m_outputMessages s @ [m]\<rparr>)))))"

section \<open>Protocols\<close>

definition getOutputBuffer :: "u8 list \<Rightarrow> nat \<Rightarrow> nat option pprog" where
  "getOutputBuffer garbage p = bind (prot_at p) (\<lambda>r. bind (gets id) (\<lambda>s.
     case m_outputBuffer r of
       Some m \<Rightarrow>
         if m_MsgSize (omsg_at s m) < of_nat (MAXSIZE - 4096)
         then seq (modify (\<lambda>s. s\<lparr>held := m # held s\<rparr>)) (ret (Some m))
         else if getConnection r = None then ret None
         else bind (getOutputMessage garbage p True) (\<lambda>x.
           seq (upd_prot p (\<lambda>r. r\<lparr>m_outputBuffer := x\<rparr>)) (seq (let_go m) (ret x)))
     | None \<Rightarrow>
         if getConnection r = None then ret None
         else bind (getOutputMessage garbage p True) (\<lambda>x.
           seq (upd_prot p (\<lambda>r. r\<lparr>m_outputBuffer := x\<rparr>)) (ret x))))"

text \<open>\<open>build\<close> writes the text; a null message or connection is dereferenced.\<close>

definition on_msg :: "nat \<Rightarrow> (std_exn, omsg, unit) prog \<Rightarrow> unit pprog" where
  "on_msg m build s = (case build (omsg_at s m) of
     Ret _ o' \<Rightarrow> Ret () (s\<lparr>omsg_at := (omsg_at s)(m := o')\<rparr>)
   | Exn e o' \<Rightarrow> Exn e (s\<lparr>omsg_at := (omsg_at s)(m := o')\<rparr>)
   | Undefined \<Rightarrow> Undefined
   | Hang \<Rightarrow> Hang)"

definition protocol_write :: "u8 list \<Rightarrow> nat \<Rightarrow> string \<Rightarrow> send_result \<Rightarrow> unit pprog" where
  "protocol_write garbage p str r = bind (getOutputMessage garbage p False) (\<lambda>x. case x of
     None \<Rightarrow> undefined_behaviour
   | Some m \<Rightarrow> seq (on_msg m (AddString str)) (bind (prot_at p) (\<lambda>q. case getConnection q of
       None \<Rightarrow> undefined_behaviour
     | Some _ \<Rightarrow> seq (bind (connection_send r m) (\<lambda>_. skip)) (drop_handle m))))"

text \<open>
  The release of a protocol: it waits for its references to go (\<open>False\<close>: asked again later) and
  then deletes the object. The assertion of \<open>deleteProtocolTask\<close> repeats the test.
\<close>

definition setConnection :: "nat \<Rightarrow> nat option \<Rightarrow> unit pprog" where
  "setConnection p c = upd_prot p (\<lambda>r. r\<lparr>getConnection := c\<rparr>)"

definition protocol_delete :: "nat \<Rightarrow> unit pprog" where
  "protocol_delete p = bind (prot_at p) (\<lambda>r.
     if m_refCount r \<noteq> 0 then undefined_behaviour
     else seq (setConnection p None)
       (seq (modify (\<lambda>s. s\<lparr>pool_prots := map_erase p (pool_prots s)\<rparr>))
       (case m_outputBuffer r of None \<Rightarrow> skip | Some m \<Rightarrow> let_go m)))"

definition protocol_release :: "nat \<Rightarrow> bool pprog" where
  "protocol_release p = bind (prot_at p) (\<lambda>r.
     if 0 < m_refCount r then ret False else seq (protocol_delete p) (ret True))"

end
