(* ===== verification/PoolSafety.thy ===== *)
theory PoolSafety
  imports OutputPool
begin

text \<open>
  The pool of output messages keeps its books: no message is lost or in two places, the reference
  counts of protocols and connections are the numbers of messages that name them, and a protocol is
  deleted only when no message names it.
\<close>

section \<open>Counting\<close>

definition named :: "(nat \<Rightarrow> nat option) \<Rightarrow> nat \<Rightarrow> nat \<Rightarrow> nat" where
  "named f n p = card {m. m < n \<and> f m = Some p}"

lemma named_set:
  assumes "m < n" "f m = None"
  shows "named (f(m := Some q)) n p = named f n p + (if p = q then 1 else 0)"
proof (cases "p = q")
  case True
  then have "{k. k < n \<and> (f(m := Some q)) k = Some p} = insert m {k. k < n \<and> f k = Some p}"
    using assms(1) by auto
  then show ?thesis using True assms(2) by (simp add: named_def)
next
  case False
  then have "{k. k < n \<and> (f(m := Some q)) k = Some p} = {k. k < n \<and> f k = Some p}"
    using assms(2) by auto
  then show ?thesis using False by (simp add: named_def)
qed

lemma named_clear:
  assumes "m < n" "f m = Some q"
  shows "named f n p = named (f(m := None)) n p + (if p = q then 1 else 0)"
proof -
  have "f = (f(m := None))(m := Some q)" using assms(2) by (simp add: fun_eq_iff)
  then show ?thesis using named_set [of m n "f(m := None)" q p] assms(1) by simp
qed

lemma named_more: "f n = None \<Longrightarrow> named f (Suc n) p = named f n p"
  unfolding named_def by (rule arg_cong [where f = card]) (auto simp: less_Suc_eq)

lemma named_zero: "named f n p = 0 \<Longrightarrow> m < n \<Longrightarrow> f m \<noteq> Some p"
  by (auto simp: named_def)

lemma named_le: "named f n p \<le> n"
  unfolding named_def using card_mono [of "{..<n}" "{m. m < n \<and> f m = Some p}"] by auto

section \<open>The invariant\<close>

abbreviation prot_of :: "pool \<Rightarrow> nat \<Rightarrow> nat option" where
  "prot_of s \<equiv> \<lambda>m. m_protocol (omsg_at s m)"

abbreviation conn_of :: "pool \<Rightarrow> nat \<Rightarrow> nat option" where
  "conn_of s \<equiv> \<lambda>m. m_connection (omsg_at s m)"

text \<open>Every message is free, waits for its release, or is pointed to; \<open>X\<close> are pointers about to go.\<close>

definition pool_mem :: "nat set \<Rightarrow> pool \<Rightarrow> bool" where
  "pool_mem X s \<longleftrightarrow> distinct (m_outputMessages s @ release_tasks s)
     \<and> set (m_outputMessages s @ release_tasks s) \<subseteq> {..<omsg_count s}
     \<and> users_of s \<union> X = {..<omsg_count s} - set (m_outputMessages s @ release_tasks s)"

definition pool_ref :: "pool \<Rightarrow> bool" where
  "pool_ref s \<longleftrightarrow> map_ok (pool_prots s)
     \<and> (\<forall>m < omsg_count s. buf_ok (omsg_at s m))
     \<and> (\<forall>m \<in> set (m_outputMessages s). prot_of s m = None \<and> conn_of s m = None)
     \<and> (\<forall>m < omsg_count s. m \<notin> set (m_outputMessages s) \<longrightarrow> prot_of s m \<noteq> None \<and> conn_of s m \<noteq> None)
     \<and> (\<forall>m < omsg_count s. \<forall>p. prot_of s m = Some p \<longrightarrow> map_find (pool_prots s) p \<noteq> None)
     \<and> (\<forall>p r. map_find (pool_prots s) p = Some r
          \<longrightarrow> m_refCount r = of_nat (named (prot_of s) (omsg_count s) p)
            \<and> (\<forall>m. m_outputBuffer r = Some m \<longrightarrow> m < omsg_count s \<and> prot_of s m = Some p))
     \<and> (\<forall>c. conn_refs s c = of_nat (named (conn_of s) (omsg_count s) c))"

definition pool_inv :: "nat set \<Rightarrow> pool \<Rightarrow> bool" where
  "pool_inv X s \<longleftrightarrow> pool_mem X s \<and> pool_ref s"

abbreviation holds :: "'a pprog \<Rightarrow> ('a \<Rightarrow> pool \<Rightarrow> bool) \<Rightarrow> pool \<Rightarrow> bool" where
  "holds m Q s \<equiv> wp m Q (\<lambda>_ _. False) s"

text \<open>The pointers outside the protocols, and states that differ only in them.\<close>

definition listed :: "pool \<Rightarrow> nat set" where
  "listed s = set (m_autoSendOutputMessages s) \<union> set (m_toAddQueue s) \<union> set (held s)"

definition buffer_of :: "pool \<Rightarrow> nat \<Rightarrow> nat option" where
  "buffer_of s p = Option.bind (map_find (pool_prots s) p) m_outputBuffer"

lemma users_split: "map_ok (pool_prots s) \<Longrightarrow> users_of s = listed s \<union> ran (buffer_of s)"
  by (auto simp: users_of_def listed_def buffer_of_def ran_def map_find_iff bind_eq_Some_conv)

lemma buffer_of_put:
  "buffer_of (s\<lparr>pool_prots := map_put p r (pool_prots s)\<rparr>) = (buffer_of s)(p := m_outputBuffer r)"
  by (simp add: buffer_of_def find_put_any fun_eq_iff)

lemma ran_clear:
  assumes "f p = Some m"
  shows "insert m (ran (f(p := None))) = ran f"
proof -
  have "f = (f(p := None))(p := Some m)" using assms by (simp add: fun_eq_iff)
  then have "ran f = insert m (ran (f(p := None)))" by (metis ran_map_upd fun_upd_same)
  then show ?thesis by simp
qed

lemma pool_moved:
  assumes "pool_inv X s" "pool_ref t" "users_of t \<union> Y = users_of s \<union> X"
    "m_outputMessages t = m_outputMessages s" "release_tasks t = release_tasks s" "omsg_count t = omsg_count s"
  shows "pool_inv Y t"
  using assms by (simp add: pool_inv_def pool_mem_def)

lemma pool_ref_lists:
  "pool_ref (s\<lparr>m_autoSendOutputMessages := as\<rparr>) = pool_ref s" "pool_ref (s\<lparr>m_toAddQueue := as\<rparr>) = pool_ref s"
  "pool_ref (s\<lparr>held := as\<rparr>) = pool_ref s" "pool_ref (s\<lparr>sent := as\<rparr>) = pool_ref s"
  "pool_ref (s\<lparr>release_tasks := as\<rparr>) = pool_ref s" "pool_ref (s\<lparr>m_isOpen := b\<rparr>) = pool_ref s"
  "pool_ref (s\<lparr>m_frameTime := t\<rparr>) = pool_ref s"
  by (simp_all add: pool_ref_def)

lemma users_simps [simp]:
  "users_of (s\<lparr>sent := as\<rparr>) = users_of s" "users_of (s\<lparr>m_isOpen := b\<rparr>) = users_of s"
  "users_of (s\<lparr>m_frameTime := t\<rparr>) = users_of s" "users_of (s\<lparr>release_tasks := as\<rparr>) = users_of s"
  "users_of (s\<lparr>omsg_at := f\<rparr>) = users_of s" "users_of (s\<lparr>conn_refs := g\<rparr>) = users_of s"
  "users_of (s\<lparr>m_outputMessages := as\<rparr>) = users_of s" "users_of (s\<lparr>omsg_count := n\<rparr>) = users_of s"
  by (simp_all add: users_of_def)

lemma pool_used:
  assumes "pool_inv X s" "m \<in> users_of s \<union> X"
  shows "m < omsg_count s" "m \<notin> set (m_outputMessages s)" "m \<notin> set (release_tasks s)"
  using assms by (auto simp: pool_inv_def pool_mem_def)

lemma buffered_user: "map_find (pool_prots s) k = Some q \<Longrightarrow> m_outputBuffer q = Some m \<Longrightarrow> m \<in> users_of s"
  by (drule map_find_Some_in) (force simp: users_of_def)

lemma unfree_named:
  assumes "pool_ref s" "m < omsg_count s" "m \<notin> set (m_outputMessages s)"
  shows "\<exists>p r c. prot_of s m = Some p \<and> map_find (pool_prots s) p = Some r \<and> conn_of s m = Some c"
  using assms by (auto simp: pool_ref_def)

lemma pool_named:
  assumes "pool_inv X s" "m \<in> users_of s \<union> X"
  shows "\<exists>p r c. prot_of s m = Some p \<and> map_find (pool_prots s) p = Some r \<and> conn_of s m = Some c"
  using unfree_named [OF _ pool_used(1,2) [OF assms]] assms(1) by (simp add: pool_inv_def)

section \<open>The operations keep it\<close>

lemma let_go_inv:
  assumes inv: "pool_inv (insert m X) s" and m: "m \<notin> X"
  shows "holds (let_go m) (\<lambda>_ t. pool_inv X t \<and> (\<exists>rs. t = s\<lparr>release_tasks := rs\<rparr>)) s"
proof (cases "m \<in> users_of s")
  case True
  then have "pool_inv X s" using inv by (auto simp: pool_inv_def pool_mem_def)
  moreover have "\<exists>rs. s = s\<lparr>release_tasks := rs\<rparr>" by (rule exI [of _ "release_tasks s"]) simp
  ultimately show ?thesis using True unfolding let_go_def by (simp add: wp_simps)
next
  case False
  let ?S = "set (m_outputMessages s @ release_tasks s)"
  have mem: "distinct (m_outputMessages s @ release_tasks s)" "?S \<subseteq> {..<omsg_count s}"
    "users_of s \<union> insert m X = {..<omsg_count s} - ?S"
    using inv unfolding pool_inv_def pool_mem_def by blast+
  have "users_of s \<union> X = {..<omsg_count s} - insert m ?S" using mem(3) m False by blast
  moreover have "m \<notin> ?S" "m < omsg_count s" using pool_used [OF inv, of m] by simp_all
  ultimately have "pool_mem X (s\<lparr>release_tasks := m # release_tasks s\<rparr>)"
    using mem(1,2) unfolding pool_mem_def by simp
  then have "pool_inv X (s\<lparr>release_tasks := m # release_tasks s\<rparr>)"
    using inv by (simp add: pool_inv_def pool_ref_lists)
  then show ?thesis using False unfolding let_go_def releaseMessage_def by (auto simp: wp_simps)
qed

lemma prot_at_inv: "map_find (pool_prots s) p = Some r \<Longrightarrow> wp (prot_at p) Q R s = Q r s"
  by (simp add: prot_at_def wp_simps)

lemma upd_prot_wp:
  "map_find (pool_prots s) p = Some r
     \<Longrightarrow> wp (upd_prot p f) Q R s = Q () (s\<lparr>pool_prots := map_put p (f r) (pool_prots s)\<rparr>)"
  by (simp add: upd_prot_def wp_bind prot_at_inv wp_unit)

lemma msg_prot_wp: "prot_of s m = Some p \<Longrightarrow> wp (msg_prot m) Q R s = Q p s"
  by (simp add: msg_prot_def wp_simps)

text \<open>Giving up the pointer of a protocol to a message that is listed.\<close>

lemma clear_buffer_ref:
  assumes "pool_ref s" "map_find (pool_prots s) p = Some r"
  shows "pool_ref (s\<lparr>pool_prots := map_put p (r\<lparr>m_outputBuffer := None\<rparr>) (pool_prots s)\<rparr>)"
  using assms by (auto simp: pool_ref_def map_ok_put find_put_any)

lemma clear_buffer_users:
  assumes "pool_ref s" "map_find (pool_prots s) p = Some r" "m_outputBuffer r = Some m" "m \<in> listed s \<union> X"
  shows "users_of (s\<lparr>pool_prots := map_put p (r\<lparr>m_outputBuffer := None\<rparr>) (pool_prots s)\<rparr>) \<union> X = users_of s \<union> X"
proof -
  let ?t = "s\<lparr>pool_prots := map_put p (r\<lparr>m_outputBuffer := None\<rparr>) (pool_prots s)\<rparr>"
  have ok: "map_ok (pool_prots s)" "map_ok (pool_prots ?t)" using assms(1) by (simp_all add: pool_ref_def map_ok_put)
  have "buffer_of s p = Some m" using assms(2,3) by (simp add: buffer_of_def)
  then have "insert m (ran (buffer_of ?t)) = ran (buffer_of s)" unfolding buffer_of_put by (simp add: ran_clear)
  moreover have "listed ?t = listed s" by (simp add: listed_def)
  ultimately show ?thesis using assms(4) users_split [OF ok(1)] users_split [OF ok(2)] by auto
qed

lemma onSendMessage_inv:
  assumes inv: "pool_inv X s" and p: "map_find (pool_prots s) p = Some r" and m: "m \<in> listed s \<union> X"
  shows "holds (onSendMessage p m) (\<lambda>_ t. pool_inv X t \<and> (\<exists>q. t = s\<lparr>pool_prots := q\<rparr>)) s"
proof (cases "m_outputBuffer r = Some m")
  case True
  let ?t = "s\<lparr>pool_prots := map_put p (r\<lparr>m_outputBuffer := None\<rparr>) (pool_prots s)\<rparr>"
  have ref: "pool_ref s" using inv by (simp add: pool_inv_def)
  have "pool_inv X ?t"
    by (rule pool_moved [OF inv clear_buffer_ref [OF ref p] clear_buffer_users [OF ref p True m]]) simp_all
  then show ?thesis using True p by (auto simp: onSendMessage_def wp_bind wp_whenb prot_at_inv upd_prot_wp)
next
  case False
  have "\<exists>q. s = s\<lparr>pool_prots := q\<rparr>" by (rule exI [of _ "pool_prots s"]) simp
  then show ?thesis using False inv p by (simp add: onSendMessage_def wp_bind wp_whenb prot_at_inv)
qed

definition took :: "send_result \<Rightarrow> nat \<Rightarrow> pool \<Rightarrow> pool \<Rightarrow> bool" where
  "took r m s t \<longleftrightarrow> (\<exists>q. t = s\<lparr>pool_prots := q, sent := sent s @ (if r = Sent then [m] else []),
     m_toAddQueue := m_toAddQueue s @ (if r = Queued then [m] else [])\<rparr>)"

lemma queue_inv: "pool_inv X s \<Longrightarrow> m \<in> users_of s \<union> X \<Longrightarrow> pool_inv X (s\<lparr>m_toAddQueue := m_toAddQueue s @ [m]\<rparr>)"
  using pool_moved [of X s "s\<lparr>m_toAddQueue := m_toAddQueue s @ [m]\<rparr>" X]
  by (auto simp: pool_ref_lists pool_inv_def users_of_def)

lemma listed_users: "listed s \<subseteq> users_of s"
  by (auto simp: listed_def users_of_def)

lemma sent_inv: "pool_inv X (s\<lparr>sent := as\<rparr>) = pool_inv X s"
  by (simp add: pool_inv_def pool_mem_def pool_ref_lists)

lemma connection_send_inv:
  assumes inv: "pool_inv X s" and m: "m \<in> listed s \<union> X"
  shows "holds (connection_send r m) (\<lambda>ok t. ok = (r \<noteq> Refused) \<and> pool_inv X t \<and> took r m s t) s"
proof -
  have u: "m \<in> users_of s \<union> X" using m listed_users by blast
  obtain p v where p: "prot_of s m = Some p" "map_find (pool_prots s) p = Some v"
    using pool_named [OF inv u] by blast
  have same: "took Refused m s s" unfolding took_def by (rule exI [of _ "pool_prots s"]) simp
  show ?thesis
  proof (cases r)
    case Sent
    have "holds (onSendMessage p m) (\<lambda>_ t. pool_inv X (t\<lparr>sent := sent t @ [m]\<rparr>) \<and> took Sent m s (t\<lparr>sent := sent t @ [m]\<rparr>)) s"
      by (rule wp_mono [OF onSendMessage_inv [OF inv p(2) m]]) (auto simp: sent_inv took_def)
    then show ?thesis using p(1) Sent by (simp add: connection_send_def wp_bind wp_seq wp_unit wp_basic msg_prot_wp)
  next
    case Queued
    have "took Queued m s (s\<lparr>m_toAddQueue := m_toAddQueue s @ [m]\<rparr>)"
      unfolding took_def by (rule exI [of _ "pool_prots s"]) simp
    then show ?thesis using Queued queue_inv [OF inv u]
      by (simp add: connection_send_def addToAutoSend_def wp_seq wp_unit wp_basic)
  next
    case Refused
    then show ?thesis using inv same by (simp add: connection_send_def wp_basic)
  qed
qed

lemma send_one_inv:
  assumes inv: "pool_inv X s" and m: "m \<in> listed s \<union> X"
  shows "holds (send_one r m) (\<lambda>_ t. pool_inv X t \<and> took r m s t) s"
proof -
  have u: "m \<in> users_of s \<union> X" using m listed_users by blast
  obtain p v c where p: "prot_of s m = Some p" "map_find (pool_prots s) p = Some v" "conn_of s m = Some c"
    using pool_named [OF inv u] by blast
  have refused: "holds (bind (msg_prot m) (\<lambda>p. onSendMessage p m)) (\<lambda>_ t. pool_inv X t \<and> took Refused m s t) s"
    using p(1) by (auto simp: wp_bind msg_prot_wp took_def intro: wp_mono [OF onSendMessage_inv [OF inv p(2) m]])
  have "holds (if ok then skip else bind (msg_prot m) (\<lambda>p. onSendMessage p m)) (\<lambda>_ t. pool_inv X t \<and> took r m s t) t"
    if "ok = (r \<noteq> Refused) \<and> pool_inv X t \<and> took r m s t" "r = Refused \<Longrightarrow> t = s" for ok t
    using that refused by (cases "r = Refused") (auto simp: wp_unit)
  moreover have "holds (connection_send r m) (\<lambda>ok t. (ok = (r \<noteq> Refused) \<and> pool_inv X t \<and> took r m s t) \<and> (r = Refused \<longrightarrow> t = s)) s"
    using connection_send_inv [OF inv m, of r] by (cases r) (auto simp: connection_send_def wp_basic elim: wp_mono)
  ultimately show ?thesis using p(3)
    by (simp add: send_one_def wp_bind wp_state) (erule wp_mono, auto)
qed

lemma pool_send_inv:
  assumes "pool_inv X s" and "m \<in> listed s \<union> X"
  shows "holds (pool_send r m) (\<lambda>_ t. pool_inv X t \<and> held t = held s \<and> omsg_count t = omsg_count s) s"
proof -
  have "holds (send_one r m) (\<lambda>_ t. pool_inv X t \<and> held t = held s \<and> omsg_count t = omsg_count s) s"
    by (rule wp_mono [OF send_one_inv [OF assms]]) (auto simp: took_def)
  then show ?thesis using assms(1) by (simp add: pool_send_def wp_bind wp_state wp_unit)
qed

section \<open>Sending everything\<close>

lemma pool_ref_cong:
  assumes "\<And>x. prot_of t x = prot_of s x" "\<And>x. conn_of t x = conn_of s x"
    "\<And>x. buf_ok (omsg_at t x) = buf_ok (omsg_at s x)"
    "m_outputMessages t = m_outputMessages s" "omsg_count t = omsg_count s" "pool_prots t = pool_prots s"
    "conn_refs t = conn_refs s"
  shows "pool_ref t = pool_ref s"
  unfolding pool_ref_def assms ..

lemma set_state_ref:
  "pool_ref (s\<lparr>omsg_at := (omsg_at s)(m := (omsg_at s m)\<lparr>m_state := st\<rparr>)\<rparr>) = pool_ref s"
  by (rule pool_ref_cong) (simp_all add: buf_ok_def)

abbreviation kept_of :: "u64 \<Rightarrow> pool \<Rightarrow> nat list \<Rightarrow> nat list" where
  "kept_of now s ms \<equiv> filter (\<lambda>m. \<not> too_old now (omsg_at s m)) ms"

lemma take_queued_inv:
  assumes "pool_inv {} s" "m_toAddQueue s = kept @ ms" "set kept \<subseteq> set (m_autoSendOutputMessages s)"
    "\<forall>k \<in> set kept. \<not> too_old now (omsg_at s k)"
  shows "holds (take_queued now ms) (\<lambda>_ t. pool_inv {} t
    \<and> m_autoSendOutputMessages t = m_autoSendOutputMessages s @ kept_of now s ms
    \<and> set (m_toAddQueue t) \<subseteq> set (m_autoSendOutputMessages t)
    \<and> sent t = sent s \<and> held t = held s \<and> omsg_count t = omsg_count s) s"
  using assms
proof (induction ms arbitrary: s kept)
  case Nil
  then show ?case by (auto simp: wp_unit)
next
  case (Cons m ms)
  have m: "m \<in> listed s \<union> {}" using Cons.prems(2) by (simp add: listed_def)
  have u: "m \<in> users_of s \<union> {}" using m listed_users by blast
  obtain p v where p: "prot_of s m = Some p" "map_find (pool_prots s) p = Some v"
    using pool_named [OF Cons.prems(1) u] by blast
  show ?case
  proof (cases "too_old now (omsg_at s m)")
    case True
    let ?Q = "\<lambda>(_ :: unit) t. pool_inv {} t
      \<and> m_autoSendOutputMessages t = m_autoSendOutputMessages s @ kept_of now s ms
      \<and> set (m_toAddQueue t) \<subseteq> set (m_autoSendOutputMessages t)
      \<and> sent t = sent s \<and> held t = held s \<and> omsg_count t = omsg_count s"
    have notin: "m \<notin> set kept" using True Cons.prems(4) by blast
    have rest: "holds (seq (let_go m) (take_queued now ms)) ?Q (t\<lparr>m_toAddQueue := remove1 m (m_toAddQueue t)\<rparr>)"
      if t: "pool_inv {} t" "t = s\<lparr>pool_prots := q\<rparr>" for t q
    proof -
      let ?t = "t\<lparr>m_toAddQueue := kept @ ms\<rparr>"
      have rm: "remove1 m (m_toAddQueue t) = kept @ ms" using t(2) Cons.prems(2) notin by (simp add: remove1_append)
      have "users_of ?t \<union> {m} = users_of t" using t(2) Cons.prems(2) by (auto simp: users_of_def)
      then have "pool_inv {m} ?t" using pool_moved [OF t(1), of ?t "{m}"] t(1)
        by (simp add: pool_ref_lists pool_inv_def)
      then have "holds (let_go m) (\<lambda>_ v. pool_inv {} v \<and> (\<exists>rs. v = ?t\<lparr>release_tasks := rs\<rparr>)) ?t"
        by (intro let_go_inv) simp_all
      then show ?thesis unfolding wp_seq rm
      proof (rule wp_mono)
        fix v assume v: "pool_inv {} v \<and> (\<exists>rs. v = ?t\<lparr>release_tasks := rs\<rparr>)"
        then have "omsg_at v = omsg_at s" "m_autoSendOutputMessages v = m_autoSendOutputMessages s" "sent v = sent s"
          "held v = held s" "omsg_count v = omsg_count s" "m_toAddQueue v = kept @ ms" using t(2) by auto
        then show "holds (take_queued now ms) ?Q v"
          using Cons.IH [of v kept] v Cons.prems(3,4) by simp
      qed simp
    qed
    have "holds (onSendMessage p m) (\<lambda>_ t. holds (seq (let_go m) (take_queued now ms)) ?Q
        (t\<lparr>m_toAddQueue := remove1 m (m_toAddQueue t)\<rparr>)) s"
      by (rule wp_mono [OF onSendMessage_inv [OF Cons.prems(1) p(2) m]]) (use rest in auto)
    then show ?thesis using True p(1)
      by (simp add: wp_bind wp_state wp_seq [of "bind _ _"] wp_seq [of "modify _"] wp_unit msg_prot_wp)
  next
    case False
    let ?s = "s\<lparr>omsg_at := (omsg_at s)(m := (omsg_at s m)\<lparr>m_state := STATE_ALLOCATED\<rparr>),
        m_autoSendOutputMessages := m_autoSendOutputMessages s @ [m]\<rparr>"
    have old: "too_old now (omsg_at ?s x) = too_old now (omsg_at s x)" for x by (simp add: too_old_def)
    have "users_of ?s = users_of s" using u by (auto simp: users_of_def)
    then have "pool_inv {} ?s" using pool_moved [OF Cons.prems(1), of ?s "{}"] Cons.prems(1)
      by (simp add: pool_ref_lists set_state_ref pool_inv_def)
    then have "holds (take_queued now ms) (\<lambda>_ t. pool_inv {} t
        \<and> m_autoSendOutputMessages t = m_autoSendOutputMessages ?s @ kept_of now ?s ms
        \<and> set (m_toAddQueue t) \<subseteq> set (m_autoSendOutputMessages t)
        \<and> sent t = sent ?s \<and> held t = held ?s \<and> omsg_count t = omsg_count ?s) ?s"
      by (rule Cons.IH [of ?s "kept @ [m]"]) (use Cons.prems(2-4) False old in auto)
    then show ?thesis using False old
      by (simp add: wp_bind wp_state wp_seq [of "upd_msg _ _"] wp_seq [of "modify _"] wp_unit upd_msg_def)
  qed
qed

fun answered :: "(nat \<Rightarrow> send_result) \<Rightarrow> send_result \<Rightarrow> nat \<Rightarrow> nat list \<Rightarrow> nat list" where
  "answered out r i [] = []"
| "answered out r i (m # ms) = (if out i = r then [m] else []) @ answered out r (i + 1) ms"

lemma send_queue_inv:
  assumes "pool_inv {} s" "m_autoSendOutputMessages s = ms"
  shows "holds (send_queue out i ms) (\<lambda>_ t. pool_inv {} t \<and> m_autoSendOutputMessages t = []
    \<and> sent t = sent s @ answered out Sent i ms \<and> m_toAddQueue t = m_toAddQueue s @ answered out Queued i ms
    \<and> held t = held s \<and> omsg_count t = omsg_count s) s"
  using assms
proof (induction out i ms arbitrary: s rule: send_queue.induct)
  case (1 out i)
  then show ?case by (simp add: wp_unit)
next
  case (2 out i m ms)
  let ?Q = "\<lambda>(_ :: unit) t. pool_inv {} t \<and> m_autoSendOutputMessages t = []
    \<and> sent t = sent s @ answered out Sent i (m # ms) \<and> m_toAddQueue t = m_toAddQueue s @ answered out Queued i (m # ms)
    \<and> held t = held s \<and> omsg_count t = omsg_count s"
  have m: "m \<in> listed s \<union> {}" using "2.prems"(2) by (simp add: listed_def)
  have rest: "holds (seq (let_go m) (send_queue out (i + 1) ms)) ?Q (t\<lparr>m_autoSendOutputMessages := ms\<rparr>)"
    if t: "pool_inv {} t" "took (out i) m s t" for t
  proof -
    let ?t = "t\<lparr>m_autoSendOutputMessages := ms\<rparr>"
    have "m_autoSendOutputMessages t = m # ms" using t(2) "2.prems"(2) by (auto simp: took_def)
    then have "users_of ?t \<union> {m} = users_of t" by (auto simp: users_of_def)
    then have "pool_inv {m} ?t" using pool_moved [OF t(1), of ?t "{m}"] t(1)
      by (simp add: pool_ref_lists pool_inv_def)
    then have "holds (let_go m) (\<lambda>_ v. pool_inv {} v \<and> (\<exists>rs. v = ?t\<lparr>release_tasks := rs\<rparr>)) ?t"
      by (intro let_go_inv) simp_all
    then show ?thesis unfolding wp_seq
    proof (rule wp_mono)
      fix v assume v: "pool_inv {} v \<and> (\<exists>rs. v = ?t\<lparr>release_tasks := rs\<rparr>)"
      then have "holds (send_queue out (i + 1) ms) (\<lambda>_ t. pool_inv {} t \<and> m_autoSendOutputMessages t = []
          \<and> sent t = sent v @ answered out Sent (i + 1) ms \<and> m_toAddQueue t = m_toAddQueue v @ answered out Queued (i + 1) ms
          \<and> held t = held v \<and> omsg_count t = omsg_count v) v"
        by (intro "2.IH") auto
      then show "holds (send_queue out (i + 1) ms) ?Q v"
        using v t(2) by (elim wp_mono) (auto simp: took_def)
    qed simp
  qed
  have "holds (send_one (out i) m) (\<lambda>_ t. holds (seq (let_go m) (send_queue out (i + 1) ms)) ?Q
      (t\<lparr>m_autoSendOutputMessages := ms\<rparr>)) s"
    by (rule wp_mono [OF send_one_inv [OF "2.prems"(1) m]]) (use rest in auto)
  then show ?case by (simp add: wp_seq [of "send_one _ _"] wp_seq [of "modify _"] wp_unit)
qed

lemma sendAll_inv:
  assumes inv: "pool_inv {} s"
  shows "holds (sendAll now out) (\<lambda>_ t. let q = m_autoSendOutputMessages s @ kept_of now s (m_toAddQueue s) in
    pool_inv {} t \<and> m_autoSendOutputMessages t = [] \<and> sent t = sent s @ answered out Sent 0 q
    \<and> m_toAddQueue t = answered out Queued 0 q \<and> held t = held s \<and> omsg_count t = omsg_count s) s"
proof -
  let ?q = "m_autoSendOutputMessages s @ kept_of now s (m_toAddQueue s)"
  let ?Q = "\<lambda>(_ :: unit) t. pool_inv {} t \<and> m_autoSendOutputMessages t = [] \<and> sent t = sent s @ answered out Sent 0 ?q
    \<and> m_toAddQueue t = answered out Queued 0 ?q \<and> held t = held s \<and> omsg_count t = omsg_count s"
  have rest: "holds (bind (gets m_autoSendOutputMessages) (send_queue out 0)) ?Q (t\<lparr>m_toAddQueue := []\<rparr>)"
    if t: "pool_inv {} t" "m_autoSendOutputMessages t = ?q" "set (m_toAddQueue t) \<subseteq> set (m_autoSendOutputMessages t)"
      "sent t = sent s" "held t = held s" "omsg_count t = omsg_count s" for t
  proof -
    let ?t = "t\<lparr>m_toAddQueue := []\<rparr>"
    have "users_of ?t = users_of t" using t(3) by (auto simp: users_of_def)
    then have "pool_inv {} ?t" using pool_moved [OF t(1), of ?t "{}"] t(1)
      by (simp add: pool_ref_lists pool_inv_def)
    from send_queue_inv [OF this refl, of out 0] show ?thesis using t by (simp add: wp_bind wp_state)
  qed
  have "holds (take_queued now (m_toAddQueue s)) (\<lambda>_ t. holds (bind (gets m_autoSendOutputMessages) (send_queue out 0)) ?Q
      (t\<lparr>m_toAddQueue := []\<rparr>)) s"
    by (rule wp_mono [OF take_queued_inv [OF inv, of "[]"]]) (use rest in auto)
  then show ?thesis
    by (simp add: sendAll_def Let_def wp_seq [of "bind _ _"] wp_seq [of "modify _"] wp_bind [of "gets _"] wp_state wp_unit)
qed

section \<open>Getting and releasing\<close>

lemma named_new: "named (f(n := None)) (Suc n) p = named f n p"
  unfolding named_def by (rule arg_cong [where f = card]) (auto simp: less_Suc_eq)

lemma new_message_inv:
  assumes inv: "pool_inv X s" and g: "length g = MAXSIZE"
  shows "holds (new_message g) (\<lambda>_ t. pool_inv X t \<and> m_outputMessages t \<noteq> [] \<and> held t = held s
    \<and> pool_prots t = pool_prots s \<and> m_isOpen t = m_isOpen s \<and> sent t = sent s \<and> m_toAddQueue t = m_toAddQueue s
    \<and> omsg_count t = omsg_count s + 1) s"
proof -
  let ?n = "omsg_count s"
  let ?t = "s\<lparr>omsg_at := (omsg_at s)(?n := OutputMessage_new g),
     m_outputMessages := m_outputMessages s @ [?n], omsg_count := ?n + 1\<rparr>"
  have new: "m_protocol (OutputMessage_new g) = None" "m_connection (OutputMessage_new g) = None" "buf_ok (OutputMessage_new g)"
    using g by (simp_all add: OutputMessage_new_def freeMessage_def Reset_def buf_ok_def)
  have mem: "distinct (m_outputMessages s @ release_tasks s)" "set (m_outputMessages s @ release_tasks s) \<subseteq> {..<?n}"
    "users_of s \<union> X = {..<?n} - set (m_outputMessages s @ release_tasks s)" and ref: "pool_ref s"
    using inv unfolding pool_inv_def pool_mem_def by blast+
  have fresh: "?n \<notin> set (m_outputMessages s @ release_tasks s)" using mem(2) by blast
  have "{..<?n + 1} - set (m_outputMessages ?t @ release_tasks ?t) = {..<?n} - set (m_outputMessages s @ release_tasks s)"
    by (auto simp: less_Suc_eq)
  moreover have "users_of ?t = users_of s" by (simp add: users_of_def)
  moreover have "set (m_outputMessages ?t @ release_tasks ?t) \<subseteq> {..<?n + 1}" using mem(2) by (auto intro: less_SucI)
  ultimately have "pool_mem X ?t" using mem(1,3) fresh unfolding pool_mem_def by simp
  moreover have "pool_ref ?t"
  proof -
    have f: "prot_of ?t x = ((prot_of s)(?n := None)) x" "conn_of ?t x = ((conn_of s)(?n := None)) x" for x
      using new by simp_all
    have b: "buf_ok (omsg_at ?t x) = (x = ?n \<or> buf_ok (omsg_at s x))" for x using new by simp
    have q: "pool_prots ?t = pool_prots s" "conn_refs ?t = conn_refs s" "omsg_count ?t = Suc ?n"
      "m_outputMessages ?t = m_outputMessages s @ [?n]" by simp_all
    show ?thesis unfolding pool_ref_def f b q
      using ref fresh by (auto simp: pool_ref_def less_Suc_eq named_new [unfolded fun_upd_def]; blast)
  qed
  ultimately have "pool_inv X ?t" by (simp add: pool_inv_def)
  then show ?thesis by (simp add: new_message_def wp_unit)
qed

text \<open>The message and the state after \<open>getOutputMessage\<close> took the last free message.\<close>

definition configured :: "bool \<Rightarrow> nat \<Rightarrow> nat \<Rightarrow> u64 \<Rightarrow> omsg \<Rightarrow> omsg" where
  "configured autosend p c t o' = (Reset o')\<lparr>m_protocol := Some p, m_connection := Some c, m_frame := t,
     m_state := (if autosend then STATE_ALLOCATED else STATE_ALLOCATED_NO_AUTOSEND)\<rparr>"

definition got :: "bool \<Rightarrow> nat \<Rightarrow> pool_prot \<Rightarrow> nat \<Rightarrow> nat \<Rightarrow> pool \<Rightarrow> pool" where
  "got autosend p r c m s = s\<lparr>held := m # held s, m_outputMessages := butlast (m_outputMessages s),
     m_autoSendOutputMessages := m_autoSendOutputMessages s @ (if autosend then [m] else []),
     pool_prots := map_put p (r\<lparr>m_refCount := m_refCount r + 1\<rparr>) (pool_prots s),
     conn_refs := (conn_refs s)(c := conn_refs s c + 1),
     omsg_at := (omsg_at s)(m := configured autosend p c (m_frameTime s) (omsg_at s m))\<rparr>"

lemma configure_wp:
  assumes "map_find (pool_prots s) p = Some r" "getConnection r = Some c"
  shows "wp (seq (modify (\<lambda>s. s\<lparr>held := m # held s, m_outputMessages := butlast (m_outputMessages s)\<rparr>))
    (seq (configureOutputMessage m p autosend) (ret (Some m)))) Q R s = Q (Some m) (got autosend p r c m s)"
proof -
  have "configured autosend p c t o' = (Reset o')\<lparr>m_state := (if autosend then STATE_ALLOCATED else STATE_ALLOCATED_NO_AUTOSEND),
     m_protocol := Some p, m_connection := Some c, m_frame := t\<rparr>" for t o'
    by (simp add: configured_def)
  then show ?thesis using assms
    by (cases autosend)
      (simp_all add: configureOutputMessage_def wp_simps upd_msg_def prot_at_inv upd_prot_wp got_def)
qed

lemma got_inv:
  assumes inv: "pool_inv X s" and free: "m_outputMessages s = fs @ [m]"
    and p: "map_find (pool_prots s) p = Some r"
  shows "pool_inv X (got autosend p r c m s)"
proof -
  let ?t = "got autosend p r c m s"
  have mem: "distinct (m_outputMessages s @ release_tasks s)" "set (m_outputMessages s @ release_tasks s) \<subseteq> {..<omsg_count s}"
    "users_of s \<union> X = {..<omsg_count s} - set (m_outputMessages s @ release_tasks s)" and ref: "pool_ref s"
    using inv unfolding pool_inv_def pool_mem_def by blast+
  have m: "m < omsg_count s" "prot_of s m = None" "conn_of s m = None" "m \<notin> set fs"
    using mem(1,2) ref free by (auto simp: pool_ref_def)
  have free_t: "m_outputMessages ?t = fs" "release_tasks ?t = release_tasks s" "omsg_count ?t = omsg_count s"
    using free by (simp_all add: got_def)
  have ok: "map_ok (pool_prots s)" "map_ok (pool_prots ?t)" using ref by (simp_all add: pool_ref_def got_def map_ok_put)
  have "buffer_of ?t = buffer_of s"
    using p by (simp add: fun_eq_iff buffer_of_def got_def find_put_any)
  moreover have "listed ?t = insert m (listed s)" by (auto simp: listed_def got_def)
  ultimately have "users_of ?t = insert m (users_of s)" using users_split [OF ok(1)] users_split [OF ok(2)] by auto
  moreover have "m \<notin> set fs \<union> set (release_tasks s)" using mem(1) free by auto
  ultimately have "pool_mem X ?t" using mem m(1) free unfolding pool_mem_def free_t by auto
  moreover have "pool_ref ?t"
  proof -
    have f: "prot_of ?t x = ((prot_of s)(m := Some p)) x" "conn_of ?t x = ((conn_of s)(m := Some c)) x" for x
      by (simp_all add: got_def configured_def)
    have b: "buf_ok (omsg_at ?t x) = buf_ok (omsg_at s x)" for x
      by (simp add: got_def configured_def buf_ok_def Reset_def)
    have q: "pool_prots ?t = map_put p (r\<lparr>m_refCount := m_refCount r + 1\<rparr>) (pool_prots s)"
      "conn_refs ?t = (conn_refs s)(c := conn_refs s c + 1)" by (simp_all add: got_def)
    show ?thesis unfolding pool_ref_def f b free_t q
      using ref p m free by (auto simp: pool_ref_def map_ok_put find_put_any named_set [unfolded fun_upd_def])
  qed
  ultimately show ?thesis by (simp add: pool_inv_def)
qed

definition gotten :: "bool \<Rightarrow> nat \<Rightarrow> pool_prot \<Rightarrow> pool \<Rightarrow> nat option \<Rightarrow> pool \<Rightarrow> bool" where
  "gotten autosend p r s x t \<longleftrightarrow> (case x of
     None \<Rightarrow> t = s \<and> \<not> (m_isOpen s \<and> getConnection r \<noteq> None)
   | Some m \<Rightarrow> m_isOpen s \<and> m \<in> set (held t) \<and> prot_of t m = Some p \<and> msg_ok (omsg_at t m)
       \<and> written (omsg_at t m) = [] \<and> conn_of t m = getConnection r \<and> getConnection r \<noteq> None \<and> sent t = sent s \<and> m_toAddQueue t = m_toAddQueue s
       \<and> m_state (omsg_at t m) = (if autosend then STATE_ALLOCATED else STATE_ALLOCATED_NO_AUTOSEND)
       \<and> (\<exists>n. map_find (pool_prots t) p = Some (r\<lparr>m_refCount := n\<rparr>)))"

lemma got_gotten:
  assumes "m_isOpen s0" "pool_ref s" "m < omsg_count s" "sent s = sent s0 \<and> m_toAddQueue s = m_toAddQueue s0" "getConnection r = Some c"
  shows "gotten autosend p r s0 (Some m) (got autosend p r c m s)"
  using assms
  by (auto simp: gotten_def got_def configured_def find_put_any msg_ok_def Reset_def buf_ok_def pool_ref_def MAXSIZE_def
      written_def)

lemma getOutputMessage_inv:
  assumes inv: "pool_inv X s" and p: "map_find (pool_prots s) p = Some r" and g: "length g = MAXSIZE"
  shows "holds (getOutputMessage g p autosend)
    (\<lambda>x t. pool_inv X t \<and> omsg_count t \<le> omsg_count s + 1 \<and> gotten autosend p r s x t) s"
proof (cases "m_isOpen s \<and> getConnection r \<noteq> None")
  case False
  then show ?thesis using inv p
    by (auto simp: getOutputMessage_def wp_bind wp_state wp_basic prot_at_inv gotten_def)
next
  case True
  then obtain c where c: "getConnection r = Some c" by blast
  let ?Q = "\<lambda>x t. pool_inv X t \<and> omsg_count t \<le> omsg_count s + 1 \<and> gotten autosend p r s x t"
  have take: "holds (bind (gets m_outputMessages) (\<lambda>f.
        seq (modify (\<lambda>s. s\<lparr>held := last f # held s, m_outputMessages := butlast f\<rparr>))
        (seq (configureOutputMessage (last f) p autosend) (ret (Some (last f)))))) ?Q t"
    if t: "pool_inv X t" "m_outputMessages t \<noteq> []" "pool_prots t = pool_prots s" "omsg_count t \<le> omsg_count s + 1"
      "sent t = sent s \<and> m_toAddQueue t = m_toAddQueue s" for t
  proof -
    let ?m = "last (m_outputMessages t)"
    have f: "m_outputMessages t = butlast (m_outputMessages t) @ [?m]" using t(2) by simp
    have pt: "map_find (pool_prots t) p = Some r" using t(3) p by simp
    have "?m \<in> set (m_outputMessages t)" using t(2) by simp
    then have "?m < omsg_count t" using t(1) by (auto simp: pool_inv_def pool_mem_def)
    then have "?Q (Some ?m) (got autosend p r c ?m t)"
      using got_inv [OF t(1) f pt] got_gotten True t(1,4,5) c by (simp add: pool_inv_def got_def)
    then show ?thesis
      by (simp only: wp_bind wp_state configure_wp [OF pt c])
        (use configure_wp [OF pt c] in \<open>simp add: wp_seq wp_unit\<close>)
  qed
  have "holds (bind (gets m_outputMessages) (\<lambda>f. whenb (f = []) (new_message g)))
      (\<lambda>_ t. pool_inv X t \<and> m_outputMessages t \<noteq> [] \<and> pool_prots t = pool_prots s \<and> omsg_count t \<le> omsg_count s + 1
        \<and> sent t = sent s \<and> m_toAddQueue t = m_toAddQueue s) s"
    using inv by (auto simp: wp_bind wp_state wp_whenb intro: wp_mono [OF new_message_inv [OF inv g]])
  then have "holds (seq (bind (gets m_outputMessages) (\<lambda>f. whenb (f = []) (new_message g)))
      (bind (gets m_outputMessages) (\<lambda>f.
        seq (modify (\<lambda>s. s\<lparr>held := last f # held s, m_outputMessages := butlast f\<rparr>))
        (seq (configureOutputMessage (last f) p autosend) (ret (Some (last f))))))) ?Q s"
    unfolding wp_seq [of "bind _ _"] by (rule wp_mono) (use take in auto)
  then show ?thesis using True c p
    by (simp add: getOutputMessage_def wp_bind [of "prot_at p"] wp_bind [of "gets m_isOpen"] wp_state prot_at_inv)
qed

lemma drop_handle_inv:
  assumes inv: "pool_inv {} s" and m: "m \<in> set (held s)"
  shows "holds (drop_handle m) (\<lambda>_ t. pool_inv {} t \<and> omsg_count t = omsg_count s) s"
proof -
  let ?t = "s\<lparr>held := remove1 m (held s)\<rparr>"
  have "set (remove1 m (held s)) \<union> {m} = set (held s)"
    using m set_remove1_subset [of m "held s"] by (auto, metis in_set_remove1)
  then have "users_of ?t \<union> {m} = users_of s" by (auto simp: users_of_def)
  then have "pool_inv {m} ?t" using pool_moved [OF inv, of ?t "{m}"] inv
    by (simp add: pool_ref_lists pool_inv_def)
  then have "holds (let_go m) (\<lambda>_ t. pool_inv {} t \<and> omsg_count t = omsg_count s) ?t"
    by (intro wp_mono [OF let_go_inv]) auto
  then show ?thesis by (simp add: drop_handle_def wp_seq wp_unit)
qed

lemma AddString_frame:
  "AddString str (o' :: omsg) = Ret () v \<Longrightarrow> m_protocol v = m_protocol o' \<and> m_connection v = m_connection o'"
  by (auto simp: AddString_def AddByte_def put_bytes_def poke_def Let_def split: if_splits option.splits)

lemma on_msg_inv:
  assumes inv: "pool_inv X s" and m: "msg_ok (omsg_at s m)" and len: "length str < 2 ^ 31"
  shows "holds (on_msg m (AddString str)) (\<lambda>_ t. pool_inv X t \<and> (\<exists>f. t = s\<lparr>omsg_at := f\<rparr>) \<and> prot_of t m = prot_of s m) s"
proof -
  have "length (c_str str) < 2 ^ 32 - 1" using len length_takeWhile_le [of "\<lambda>c. c \<noteq> NUL" str] by (simp add: c_str_def)
  then obtain v where v: "AddString str (omsg_at s m) = Ret () v" "msg_ok v"
    using AddString_spec [OF m, of str] by (auto simp: wrote_def)
  let ?t = "s\<lparr>omsg_at := (omsg_at s)(m := v)\<rparr>"
  have "pool_ref ?t = pool_ref s"
    by (rule pool_ref_cong) (use v m AddString_frame [OF v(1)] in \<open>simp_all add: msg_ok_def\<close>)
  moreover have "pool_mem X ?t = pool_mem X s" by (simp add: pool_mem_def)
  ultimately have "pool_inv X ?t" using inv by (simp add: pool_inv_def)
  then show ?thesis using v(1) AddString_frame [OF v(1)] by (auto simp: wp_def on_msg_def)
qed

lemma protocol_write_inv:
  assumes inv: "pool_inv {} s" and p: "map_find (pool_prots s) p = Some r" and g: "length g = MAXSIZE"
    and len: "length str < 2 ^ 31" and up: "m_isOpen s" "getConnection r \<noteq> None"
  shows "holds (protocol_write g p str res) (\<lambda>_ t. pool_inv {} t \<and> omsg_count t \<le> omsg_count s + 1) s"
proof -
  let ?Q = "\<lambda>(_ :: unit) t. pool_inv {} t \<and> omsg_count t \<le> omsg_count s + 1"
  have finish: "holds (seq (bind (connection_send res m) (\<lambda>_. skip)) (drop_handle m)) ?Q t"
    if t: "pool_inv {} t" "m \<in> set (held t)" "omsg_count t \<le> omsg_count s + 1" for m t
  proof -
    have "m \<in> listed t \<union> {}" using t(2) by (simp add: listed_def)
    then have "holds (connection_send res m) (\<lambda>_ v. pool_inv {} v \<and> m \<in> set (held v) \<and> omsg_count v \<le> omsg_count s + 1) t"
      by (rule wp_mono [OF connection_send_inv [OF t(1)]]) (use t in \<open>auto simp: took_def\<close>)
    then show ?thesis unfolding wp_seq wp_bind wp_unit
      by (rule wp_mono) (auto intro: wp_mono [OF drop_handle_inv])
  qed
  have "holds (case x of None \<Rightarrow> undefined_behaviour
     | Some m \<Rightarrow> seq (on_msg m (AddString str)) (bind (prot_at p) (\<lambda>q. case getConnection q of
         None \<Rightarrow> undefined_behaviour
       | Some _ \<Rightarrow> seq (bind (connection_send res m) (\<lambda>_. skip)) (drop_handle m)))) ?Q t"
    if t: "pool_inv {} t \<and> omsg_count t \<le> omsg_count s + 1 \<and> gotten False p r s x t" for x t
  proof -
    obtain m n where x: "x = Some m" "m \<in> set (held t)" "msg_ok (omsg_at t m)"
      "map_find (pool_prots t) p = Some (r\<lparr>m_refCount := n\<rparr>)"
      using t up by (auto simp: gotten_def split: option.splits)
    have "holds (on_msg m (AddString str)) (\<lambda>_ v. holds (bind (prot_at p) (\<lambda>q. case getConnection q of
         None \<Rightarrow> undefined_behaviour
       | Some _ \<Rightarrow> seq (bind (connection_send res m) (\<lambda>_. skip)) (drop_handle m))) ?Q v) t"
    proof (rule wp_mono [OF on_msg_inv [OF _ x(3) len]])
      fix v assume v: "pool_inv {} v \<and> (\<exists>f. v = t\<lparr>omsg_at := f\<rparr>) \<and> prot_of v m = prot_of t m"
      then have "map_find (pool_prots v) p = Some (r\<lparr>m_refCount := n\<rparr>)" "m \<in> set (held v)" "omsg_count v \<le> omsg_count s + 1"
        using x t by auto
      then show "holds (bind (prot_at p) (\<lambda>q. case getConnection q of None \<Rightarrow> undefined_behaviour
          | Some _ \<Rightarrow> seq (bind (connection_send res m) (\<lambda>_. skip)) (drop_handle m))) ?Q v"
        using finish v up(2) by (auto simp: wp_bind [of "prot_at p"] prot_at_inv)
    qed (use t in auto)
    then show ?thesis using x(1) by (simp add: wp_seq [of "on_msg _ _"])
  qed
  then show ?thesis unfolding protocol_write_def wp_bind [of "getOutputMessage _ _ _"]
    by (intro wp_mono [OF getOutputMessage_inv [OF inv p g]]) auto
qed

lemma write_closed:
  "map_find (pool_prots s) p = Some r \<Longrightarrow> \<not> (m_isOpen s \<and> getConnection r \<noteq> None) \<Longrightarrow> protocol_write g p str res s = Undefined"
  by (cases "m_isOpen s") (simp_all add: protocol_write_def getOutputMessage_def prot_at_def bind_def prog_eval)

lemma release_inv:
  assumes inv: "pool_inv {} s" and rel: "release_tasks s = m # ms"
  shows "holds (internalReleaseMessage m) (\<lambda>_ t. pool_inv {} t \<and> omsg_count t = omsg_count s) (s\<lparr>release_tasks := ms\<rparr>)"
proof -
  have mem: "distinct (m_outputMessages s @ release_tasks s)" "set (m_outputMessages s @ release_tasks s) \<subseteq> {..<omsg_count s}"
    "users_of s = {..<omsg_count s} - set (m_outputMessages s @ release_tasks s)" and ref: "pool_ref s"
    using inv unfolding pool_inv_def pool_mem_def by blast+
  have m: "m < omsg_count s" "m \<notin> set (m_outputMessages s)" "m \<notin> users_of s" using mem rel by auto
  then obtain p r c where p: "prot_of s m = Some p" "map_find (pool_prots s) p = Some r" "conn_of s m = Some c"
    using unfree_named [OF ref m(1,2)] by blast
  let ?t = "s\<lparr>release_tasks := ms, pool_prots := map_put p (r\<lparr>m_refCount := m_refCount r - 1\<rparr>) (pool_prots s),
     conn_refs := (conn_refs s)(c := conn_refs s c - 1), omsg_at := (omsg_at s)(m := freeMessage (omsg_at s m)),
     m_outputMessages := m_outputMessages s @ [m]\<rparr>"
  have ok: "map_ok (pool_prots s)" "map_ok (pool_prots ?t)" using ref by (simp_all add: pool_ref_def map_ok_put)
  have "buffer_of ?t = buffer_of s" using p(2) by (simp add: fun_eq_iff buffer_of_def find_put_any)
  moreover have "listed ?t = listed s" by (simp add: listed_def)
  ultimately have users: "users_of ?t = users_of s" using users_split [OF ok(1)] users_split [OF ok(2)] by simp
  then have "pool_mem {} ?t" using mem rel m unfolding pool_mem_def by auto
  moreover have "pool_ref ?t"
  proof -
    have f: "prot_of ?t x = ((prot_of s)(m := None)) x" "conn_of ?t x = ((conn_of s)(m := None)) x" for x
      by (simp_all add: freeMessage_def)
    have b: "buf_ok (omsg_at ?t x) = buf_ok (omsg_at s x)" for x by (simp add: freeMessage_def buf_ok_def)
    have unbuf: "m_outputBuffer q \<noteq> Some m" if "map_find (pool_prots s) k = Some q" for k q
      using m(3) that buffered_user by blast
    have q: "pool_prots ?t = map_put p (r\<lparr>m_refCount := m_refCount r - 1\<rparr>) (pool_prots s)"
      "conn_refs ?t = (conn_refs s)(c := conn_refs s c - 1)" "omsg_count ?t = omsg_count s"
      "m_outputMessages ?t = m_outputMessages s @ [m]" by simp_all
    have n: "of_nat (named (prot_of s) (omsg_count s) k) - 1 = (of_nat (named ((prot_of s)(m := None)) (omsg_count s) k) :: u32)"
      if "k = p" for k using named_clear [where f = "prot_of s" and p = k, OF m(1) p(1)] that by simp
    have n': "named (prot_of s) (omsg_count s) k = named ((prot_of s)(m := None)) (omsg_count s) k" if "k \<noteq> p" for k
      using named_clear [where f = "prot_of s" and p = k, OF m(1) p(1)] that by simp
    have c: "of_nat (named (conn_of s) (omsg_count s) k) - 1 = (of_nat (named ((conn_of s)(m := None)) (omsg_count s) k) :: u32)"
      if "k = c" for k using named_clear [where f = "conn_of s" and p = k, OF m(1) p(3)] that by simp
    have c': "named (conn_of s) (omsg_count s) k = named ((conn_of s)(m := None)) (omsg_count s) k" if "k \<noteq> c" for k
      using named_clear [where f = "conn_of s" and p = k, OF m(1) p(3)] that by simp
    have "\<forall>k q. map_find (pool_prots s) k = Some q \<longrightarrow> m_refCount q = of_nat (named (prot_of s) (omsg_count s) k)
        \<and> (\<forall>j. m_outputBuffer q = Some j \<longrightarrow> j < omsg_count s \<and> prot_of s j = Some k)"
      "\<forall>k. conn_refs s k = of_nat (named (conn_of s) (omsg_count s) k)" using ref by (simp_all add: pool_ref_def)
    then have refs: "\<forall>k q. map_find (pool_prots ?t) k = Some q \<longrightarrow> m_refCount q = of_nat (named ((prot_of s)(m := None)) (omsg_count s) k)
        \<and> (\<forall>j. m_outputBuffer q = Some j \<longrightarrow> j < omsg_count s \<and> ((prot_of s)(m := None)) j = Some k)"
      "\<forall>k. conn_refs ?t k = of_nat (named ((conn_of s)(m := None)) (omsg_count s) k)"
      unfolding q using p(2) unbuf n n' c c' by (auto simp: find_put_any simp del: fun_upd_apply; simp add: fun_upd_apply)+
    note unfree = ref [unfolded pool_ref_def]
    show ?thesis unfolding pool_ref_def f b q(3,4)
    proof (intro conjI)
      show "\<forall>x < omsg_count s. \<forall>k. ((prot_of s)(m := None)) x = Some k \<longrightarrow> map_find (pool_prots ?t) k \<noteq> None"
        using unfree by (simp add: find_put_any)
      show "\<forall>x \<in> set (m_outputMessages s @ [m]). ((prot_of s)(m := None)) x = None \<and> ((conn_of s)(m := None)) x = None"
        using unfree by simp
      show "\<forall>x < omsg_count s. x \<notin> set (m_outputMessages s @ [m])
          \<longrightarrow> ((prot_of s)(m := None)) x \<noteq> None \<and> ((conn_of s)(m := None)) x \<noteq> None"
        using unfree by simp
    qed (use unfree ok(2) refs in blast)+
  qed
  ultimately have "pool_inv {} ?t" by (simp add: pool_inv_def)
  then show ?thesis using p
    by (simp add: internalReleaseMessage_def wp_simps upd_prot_wp upd_msg_def)
qed

section \<open>Protocols\<close>

lemma put_prot_ref:
  assumes ref: "pool_ref s" and p: "map_find (pool_prots s) p = Some r" and n: "m_refCount r' = m_refCount r"
    and b: "\<And>m. m_outputBuffer r' = Some m \<Longrightarrow> m < omsg_count s \<and> prot_of s m = Some p"
  shows "pool_ref (s\<lparr>pool_prots := map_put p r' (pool_prots s)\<rparr>)"
  using assms by (auto simp: pool_ref_def map_ok_put find_put_any)

lemma put_prot_users:
  assumes "pool_ref s"
  shows "users_of (s\<lparr>pool_prots := map_put p r' (pool_prots s)\<rparr>) = listed s \<union> ran ((buffer_of s)(p := m_outputBuffer r'))"
proof -
  let ?t = "s\<lparr>pool_prots := map_put p r' (pool_prots s)\<rparr>"
  have "map_ok (pool_prots ?t)" using assms by (simp add: pool_ref_def map_ok_put)
  then show ?thesis using users_split [of ?t] unfolding buffer_of_put by (simp add: listed_def)
qed

lemma users_of_ref: "pool_ref s \<Longrightarrow> users_of s = listed s \<union> ran (buffer_of s)"
  by (simp add: users_split pool_ref_def)

lemma setConnection_inv:
  assumes inv: "pool_inv X s" and p: "map_find (pool_prots s) p = Some r"
  shows "holds (setConnection p c) (\<lambda>_ t. pool_inv X t \<and> omsg_count t = omsg_count s) s"
proof -
  let ?r = "r\<lparr>getConnection := c\<rparr>"
  let ?t = "s\<lparr>pool_prots := map_put p ?r (pool_prots s)\<rparr>"
  have ref: "pool_ref s" using inv by (simp add: pool_inv_def)
  have buf: "m_outputBuffer ?r = Some m \<Longrightarrow> m < omsg_count s \<and> prot_of s m = Some p" for m
    using ref p by (auto simp: pool_ref_def)
  have "(buffer_of s)(p := m_outputBuffer ?r) = buffer_of s" using p by (simp add: fun_eq_iff buffer_of_def)
  then have "users_of ?t = users_of s" using put_prot_users [OF ref] users_of_ref [OF ref] by simp
  moreover have "pool_ref ?t" by (rule put_prot_ref [OF ref p _ buf]) simp
  ultimately have "pool_inv X ?t" using pool_moved [OF inv, of ?t X] by simp
  then show ?thesis using p by (simp add: setConnection_def upd_prot_wp)
qed

text \<open>The buffer of a protocol is replaced by a message of its own; the old one may go.\<close>

lemma set_buffer_inv:
  assumes inv: "pool_inv {} t" and p: "map_find (pool_prots t) p = Some r"
    and x: "x = None \<or> (\<exists>m. x = Some m \<and> m \<in> set (held t) \<and> prot_of t m = Some p)"
  shows "pool_inv (set_option (m_outputBuffer r) - users_of (t\<lparr>pool_prots := map_put p (r\<lparr>m_outputBuffer := x\<rparr>) (pool_prots t)\<rparr>))
    (t\<lparr>pool_prots := map_put p (r\<lparr>m_outputBuffer := x\<rparr>) (pool_prots t)\<rparr>)"
proof -
  let ?r = "r\<lparr>m_outputBuffer := x\<rparr>"
  let ?t = "t\<lparr>pool_prots := map_put p ?r (pool_prots t)\<rparr>"
  have ref: "pool_ref t" using inv by (simp add: pool_inv_def)
  have held: "set (held t) \<subseteq> listed t" by (simp add: listed_def)
  have buf: "m < omsg_count t \<and> prot_of t m = Some p" if "m_outputBuffer ?r = Some m" for m
  proof -
    have "m \<in> set (held t)" "prot_of t m = Some p" using x that by auto
    moreover from this(1) have "m \<in> users_of t \<union> {}" using held listed_users by blast
    ultimately show ?thesis using pool_used(1) [OF inv] by blast
  qed
  have "pool_ref ?t" by (rule put_prot_ref [OF ref p _ buf]) simp
  moreover have "users_of ?t \<union> (set_option (m_outputBuffer r) - users_of ?t) = users_of t \<union> {}"
  proof -
    have "(buffer_of s)(p := x) = ((buffer_of s)(p := None))(p := x)" for s by simp
    have b: "buffer_of t p = m_outputBuffer r" using p by (simp add: buffer_of_def)
    have old: "ran (buffer_of t) = ran ((buffer_of t)(p := None)) \<union> set_option (m_outputBuffer r)"
      using ran_clear [of "buffer_of t" p] b by (cases "m_outputBuffer r") (auto simp: fun_upd_idem)
    have new: "ran ((buffer_of t)(p := x)) = ran ((buffer_of t)(p := None)) \<union> set_option x"
      using ran_clear [of "(buffer_of t)(p := x)" p] by (cases x) auto
    have "set_option x \<subseteq> listed t" using x held by auto
    then show ?thesis
      unfolding put_prot_users [OF ref] users_of_ref [OF ref] using old new by auto
  qed
  ultimately show ?thesis using pool_moved [OF inv, of ?t] by simp
qed

lemma let_go_maybe:
  assumes inv: "pool_inv ({m} - users_of s) s"
  shows "holds (let_go m) (\<lambda>_ t. pool_inv {} t \<and> omsg_count t = omsg_count s) s"
proof (cases "m \<in> users_of s")
  case True
  then show ?thesis using inv by (simp add: let_go_def wp_simps)
next
  case False
  then have "pool_inv {m} s" using inv by (simp add: insert_Diff_if)
  then show ?thesis by (intro wp_mono [OF let_go_inv [of m "{}" s]]) auto
qed

lemma renew_buffer_inv:
  assumes inv: "pool_inv {} s" and p: "map_find (pool_prots s) p = Some r" and g: "length g = MAXSIZE"
  shows "holds (bind (getOutputMessage g p True) (\<lambda>x. seq (upd_prot p (\<lambda>r. r\<lparr>m_outputBuffer := x\<rparr>))
      (seq (case m_outputBuffer r of None \<Rightarrow> skip | Some m \<Rightarrow> let_go m) (ret x))))
    (\<lambda>_ t. pool_inv {} t \<and> omsg_count t \<le> omsg_count s + 1) s"
proof -
  have "holds (seq (upd_prot p (\<lambda>r. r\<lparr>m_outputBuffer := x\<rparr>))
      (seq (case m_outputBuffer r of None \<Rightarrow> skip | Some m \<Rightarrow> let_go m) (ret x)))
    (\<lambda>_ t. pool_inv {} t \<and> omsg_count t \<le> omsg_count s + 1) t"
    if t: "pool_inv {} t" "omsg_count t \<le> omsg_count s + 1" "gotten True p r s x t" for x t
  proof -
    obtain r' where r': "map_find (pool_prots t) p = Some r'" "m_outputBuffer r' = m_outputBuffer r"
      using t(3) p by (auto simp: gotten_def split: option.splits)
    let ?u = "t\<lparr>pool_prots := map_put p (r'\<lparr>m_outputBuffer := x\<rparr>) (pool_prots t)\<rparr>"
    have "x = None \<or> (\<exists>m. x = Some m \<and> m \<in> set (held t) \<and> prot_of t m = Some p)"
      using t(3) by (auto simp: gotten_def split: option.splits)
    then have u: "pool_inv (set_option (m_outputBuffer r) - users_of ?u) ?u"
      using set_buffer_inv [OF t(1) r'(1)] r'(2) by simp
    have "holds (case m_outputBuffer r of None \<Rightarrow> skip | Some m \<Rightarrow> let_go m)
        (\<lambda>_ v. pool_inv {} v \<and> omsg_count v \<le> omsg_count s + 1) ?u"
    proof (cases "m_outputBuffer r")
      case None
      then show ?thesis using u t(2) by (simp add: wp_unit)
    next
      case (Some m)
      then have "pool_inv ({m} - users_of ?u) ?u" using u by simp
      then show ?thesis using Some t(2) by (auto intro: wp_mono [OF let_go_maybe])
    qed
    then show ?thesis using r'(1) by (simp add: wp_seq wp_basic upd_prot_wp)
  qed
  then show ?thesis unfolding wp_bind [of "getOutputMessage _ _ _"]
    by (intro wp_mono [OF getOutputMessage_inv [OF inv p g]]) auto
qed

lemma getOutputBuffer_inv:
  assumes inv: "pool_inv {} s" and p: "map_find (pool_prots s) p = Some r" and g: "length g = MAXSIZE"
  shows "holds (getOutputBuffer g p) (\<lambda>_ t. pool_inv {} t \<and> omsg_count t \<le> omsg_count s + 1) s"
proof (cases "m_outputBuffer r")
  case None
  have "seq skip (ret x) = (ret x :: nat option pprog)" for x by (simp add: seq_def bind_def fun_eq_iff prog_eval)
  then show ?thesis using None inv p renew_buffer_inv [OF inv p g]
    by (simp add: getOutputBuffer_def wp_bind [of "prot_at p"] wp_bind [of "gets id"] wp_state wp_basic prot_at_inv)
next
  case (Some m)
  have "m \<in> users_of s" by (rule buffered_user [OF p Some])
  then have "users_of (s\<lparr>held := m # held s\<rparr>) = users_of s" by (auto simp: users_of_def)
  then have "pool_inv {} (s\<lparr>held := m # held s\<rparr>)"
    using pool_moved [OF inv, of "s\<lparr>held := m # held s\<rparr>" "{}"] inv by (simp add: pool_ref_lists pool_inv_def)
  then show ?thesis using Some inv p renew_buffer_inv [OF inv p g]
    by (simp add: getOutputBuffer_def wp_bind [of "prot_at p"] wp_bind [of "gets id"] wp_state wp_basic wp_seq [of "modify _"] wp_unit prot_at_inv)
qed

text \<open>A protocol whose count is zero is named by no message.\<close>

lemma unreferenced:
  assumes "pool_inv {} s" "map_find (pool_prots s) p = Some r" "m_refCount r = 0" "omsg_count s < 2 ^ 32"
  shows "named (prot_of s) (omsg_count s) p = 0" "m_outputBuffer r = None"
proof -
  let ?n = "named (prot_of s) (omsg_count s) p"
  have ref: "of_nat ?n = (0 :: u32)" "\<forall>m. m_outputBuffer r = Some m \<longrightarrow> m < omsg_count s \<and> prot_of s m = Some p"
    using assms(1-3) by (auto simp: pool_inv_def pool_ref_def)
  have "?n < 2 ^ 32" using named_le [of "prot_of s" "omsg_count s" p] assms(4) by linarith
  then have "?n = unat (of_nat ?n :: u32)" using unat_of_nat_u32 by simp
  then show z: "?n = 0" using ref(1) by simp
  then show "m_outputBuffer r = None" using ref(2) named_zero by (metis not_None_eq)
qed

lemma protocol_delete_inv:
  assumes inv: "pool_inv {} s" and p: "map_find (pool_prots s) p = Some r" and z: "m_refCount r = 0" "omsg_count s < 2 ^ 32"
  shows "holds (protocol_delete p) (\<lambda>_ t. pool_inv {} t \<and> omsg_count t = omsg_count s) s"
proof -
  note un = unreferenced [OF inv p z]
  let ?t = "s\<lparr>pool_prots := map_erase p (map_put p (r\<lparr>getConnection := None\<rparr>) (pool_prots s))\<rparr>"
  have ref: "pool_ref s" and ok: "map_ok (pool_prots s)" using inv by (auto simp: pool_inv_def pool_ref_def)
  have find: "map_find (pool_prots ?t) q = (if q = p then None else map_find (pool_prots s) q)" for q
    using ok by (simp add: find_erase map_ok_put find_put_any)
  have ok': "map_ok (pool_prots ?t)" using ok by (simp add: map_ok_erase map_ok_put)
  have "pool_ref ?t"
    using ref ok' named_zero [OF un(1)] unfolding pool_ref_def find by auto
  moreover have "users_of ?t = users_of s"
  proof -
    have "buffer_of ?t = buffer_of s"
      using un(2) p by (simp only: fun_eq_iff buffer_of_def find) simp
    moreover have "listed ?t = listed s" by (simp add: listed_def)
    ultimately show ?thesis using users_split [OF ok] users_split [OF ok'] by simp
  qed
  ultimately have "pool_inv {} ?t" using pool_moved [OF inv, of ?t "{}"] by simp
  then show ?thesis using p z un(2)
    by (simp add: protocol_delete_def setConnection_def wp_simps prot_at_inv upd_prot_wp)
qed

section \<open>Any history\<close>

text \<open>
  What can happen to the pool. A caller uses pointers it holds and protocols that live; a write
  needs an open pool and a connected protocol. \<open>Run_release\<close> is the dispatcher taking the next
  release from its queue.
\<close>

datatype pool_op =
  Frame u64 | Close | Get nat bool | Buffer nat | Give_up nat | Send nat send_result
| Write nat string send_result | Send_all u64 "nat \<Rightarrow> send_result" | Run_release
| New_protocol nat "nat option" | Set_connection nat "nat option" | Release_protocol nat

definition on_prot :: "nat \<Rightarrow> (pool_prot \<Rightarrow> unit pprog) \<Rightarrow> unit pprog" where
  "on_prot p f = bind (gets pool_prots) (\<lambda>m. case map_find m p of None \<Rightarrow> skip | Some r \<Rightarrow> f r)"

definition on_held :: "nat \<Rightarrow> unit pprog \<Rightarrow> unit pprog" where
  "on_held m f = bind (gets held) (\<lambda>h. whenb (m \<in> set h) f)"

fun do_op :: "u8 list \<Rightarrow> pool_op \<Rightarrow> unit pprog" where
  "do_op g (Frame now) = startExecutionFrame now"
| "do_op g Close = pool_stop"
| "do_op g (Get p autosend) = on_prot p (\<lambda>_. bind (getOutputMessage g p autosend) (\<lambda>_. skip))"
| "do_op g (Buffer p) = on_prot p (\<lambda>_. bind (getOutputBuffer g p) (\<lambda>_. skip))"
| "do_op g (Give_up m) = on_held m (drop_handle m)"
| "do_op g (Send m r) = on_held m (pool_send r m)"
| "do_op g (Write p str r) = on_prot p (\<lambda>q. bind (gets m_isOpen) (\<lambda>open'.
     whenb (open' \<and> getConnection q \<noteq> None \<and> length str < 2 ^ 31) (protocol_write g p str r)))"
| "do_op g (Send_all now out) = sendAll now out"
| "do_op g Run_release = bind (gets release_tasks) (\<lambda>ms. case ms of [] \<Rightarrow> skip
     | m # ms \<Rightarrow> seq (modify (\<lambda>s. s\<lparr>release_tasks := ms\<rparr>)) (internalReleaseMessage m))"
| "do_op g (New_protocol p c) = bind (gets pool_prots) (\<lambda>m. whenb (map_find m p = None)
     (modify (\<lambda>s. s\<lparr>pool_prots := map_put p \<lparr>m_outputBuffer = None, getConnection = c, m_refCount = 0\<rparr> (pool_prots s)\<rparr>)))"
| "do_op g (Set_connection p c) = on_prot p (\<lambda>_. setConnection p c)"
| "do_op g (Release_protocol p) = on_prot p (\<lambda>_. bind (protocol_release p) (\<lambda>_. skip))"

lemma on_prot_wp: "(\<And>r. map_find (pool_prots s) p = Some r \<Longrightarrow> holds (f r) Q s) \<Longrightarrow> Q () s \<Longrightarrow> holds (on_prot p f) Q s"
  by (cases "map_find (pool_prots s) p") (simp_all add: on_prot_def wp_bind wp_state wp_unit)

lemma on_held_wp: "(m \<in> set (held s) \<Longrightarrow> holds f Q s) \<Longrightarrow> Q () s \<Longrightarrow> holds (on_held m f) Q s"
  by (simp add: on_held_def wp_bind wp_state wp_whenb wp_unit)

lemma new_protocol_inv:
  assumes inv: "pool_inv {} s" and p: "map_find (pool_prots s) p = None"
  shows "pool_inv {} (s\<lparr>pool_prots := map_put p \<lparr>m_outputBuffer = None, getConnection = c, m_refCount = 0\<rparr> (pool_prots s)\<rparr>)"
proof -
  let ?t = "s\<lparr>pool_prots := map_put p \<lparr>m_outputBuffer = None, getConnection = c, m_refCount = 0\<rparr> (pool_prots s)\<rparr>"
  have ref: "pool_ref s" using inv by (simp add: pool_inv_def)
  have "\<forall>m < omsg_count s. prot_of s m \<noteq> Some p" using ref p by (auto simp: pool_ref_def)
  then have "{m. m < omsg_count s \<and> prot_of s m = Some p} = {}" by blast
  then have "named (prot_of s) (omsg_count s) p = 0" by (simp only: named_def card.empty)
  then have "pool_ref ?t" using ref p by (auto simp: pool_ref_def map_ok_put find_put_any)
  moreover have "(buffer_of s)(p := None) = buffer_of s" using p by (simp add: fun_eq_iff buffer_of_def)
  then have "users_of ?t = users_of s" using put_prot_users [OF ref] users_of_ref [OF ref] by simp
  ultimately show ?thesis using pool_moved [OF inv, of ?t "{}"] by simp
qed

definition pool_good :: "nat \<Rightarrow> pool \<Rightarrow> bool" where
  "pool_good n s \<longleftrightarrow> pool_inv {} s \<and> omsg_count s + n < 2 ^ 32"

lemma pool_goodI: "pool_inv {} t \<and> omsg_count t \<le> omsg_count s + 1 \<Longrightarrow> pool_good (Suc n) s \<Longrightarrow> pool_good n t"
  by (auto simp: pool_good_def)

lemma do_op_good:
  assumes good: "pool_good (Suc n) s" and g: "length g = MAXSIZE"
  shows "holds (do_op g op) (\<lambda>_ t. pool_good n t) s"
proof -
  have inv: "pool_inv {} s" and small: "omsg_count s < 2 ^ 32" using good by (simp_all add: pool_good_def)
  have here: "pool_good n s" using good by (simp add: pool_good_def)
  have plain: "holds m (\<lambda>_ t. pool_good n t) s" if "holds m (\<lambda>_ t. pool_inv {} t \<and> omsg_count t \<le> omsg_count s + 1) s" for m :: "unit pprog"
    by (rule wp_mono [OF that]) (use good pool_goodI in auto)
  have result: "holds (bind m (\<lambda>_. skip)) (\<lambda>_ t. pool_good n t) s"
    if "holds m (\<lambda>_ t. pool_inv {} t \<and> omsg_count t \<le> omsg_count s + 1) s" for m :: "'x pprog"
    unfolding wp_bind wp_unit by (rule wp_mono [OF that]) (use good pool_goodI in auto)
  have listed: "m \<in> set (held s) \<Longrightarrow> m \<in> listed s \<union> {}" for m by (simp add: listed_def)
  show ?thesis
  proof (cases op)
    case (Frame now)
    then show ?thesis using here by (simp add: startExecutionFrame_def wp_unit pool_good_def pool_inv_def pool_mem_def pool_ref_def)
  next
    case Close
    then show ?thesis using here by (simp add: pool_stop_def wp_unit pool_good_def pool_inv_def pool_mem_def pool_ref_lists)
  next
    case (Get p autosend)
    have "holds (getOutputMessage g p autosend) (\<lambda>_ t. pool_inv {} t \<and> omsg_count t \<le> omsg_count s + 1) s"
      if "map_find (pool_prots s) p = Some r" for r
      by (rule wp_mono [OF getOutputMessage_inv [OF inv that g]]) auto
    then show ?thesis using Get by (auto intro!: on_prot_wp result here inv)
  next
    case (Buffer p)
    then show ?thesis using getOutputBuffer_inv [OF inv _ g] by (auto intro!: on_prot_wp result here inv)
  next
    case (Give_up m)
    have "holds (drop_handle m) (\<lambda>_ t. pool_inv {} t \<and> omsg_count t \<le> omsg_count s + 1) s" if "m \<in> set (held s)"
      by (rule wp_mono [OF drop_handle_inv [OF inv that]]) auto
    then show ?thesis using Give_up by (auto intro!: on_held_wp plain here inv)
  next
    case (Send m r)
    have "holds (pool_send r m) (\<lambda>_ t. pool_inv {} t \<and> omsg_count t \<le> omsg_count s + 1) s" if "m \<in> set (held s)"
      by (rule wp_mono [OF pool_send_inv [OF inv listed [OF that]]]) auto
    then show ?thesis using Send by (auto intro!: on_held_wp plain here inv)
  next
    case (Write p str r)
    then show ?thesis using protocol_write_inv [OF inv _ g] here
      by (auto intro!: on_prot_wp plain inv simp: wp_bind wp_state wp_whenb)
  next
    case (Send_all now out)
    have "holds (sendAll now out) (\<lambda>_ t. pool_inv {} t \<and> omsg_count t \<le> omsg_count s + 1) s"
      by (rule wp_mono [OF sendAll_inv [OF inv]]) (auto simp: Let_def)
    then show ?thesis using Send_all plain by simp
  next
    case Run_release
    have "holds (internalReleaseMessage m) (\<lambda>_ t. pool_good n t) (s\<lparr>release_tasks := ms\<rparr>)" if "release_tasks s = m # ms" for m ms
      by (rule wp_mono [OF release_inv [OF inv that]]) (use good in \<open>auto simp: pool_good_def\<close>)
    then show ?thesis using Run_release here
      by (cases "release_tasks s") (simp_all add: wp_bind wp_state wp_seq [of "modify _"] wp_unit)
  next
    case (New_protocol p c)
    then show ?thesis using new_protocol_inv [OF inv, of p c] good here
      by (auto simp: wp_bind wp_state wp_whenb wp_unit pool_good_def)
  next
    case (Set_connection p c)
    have "holds (setConnection p c) (\<lambda>_ t. pool_inv {} t \<and> omsg_count t \<le> omsg_count s + 1) s"
      if "map_find (pool_prots s) p = Some r" for r
      by (rule wp_mono [OF setConnection_inv [OF inv that]]) auto
    then show ?thesis using Set_connection by (auto intro!: on_prot_wp plain here inv)
  next
    case (Release_protocol p)
    have "holds (protocol_release p) (\<lambda>_ t. pool_inv {} t \<and> omsg_count t \<le> omsg_count s + 1) s"
      if p: "map_find (pool_prots s) p = Some r" for r
    proof (cases "m_refCount r = 0")
      case True
      have "holds (protocol_delete p) (\<lambda>_ t. pool_inv {} t \<and> omsg_count t \<le> omsg_count s + 1) s"
        by (rule wp_mono [OF protocol_delete_inv [OF inv p True small]]) auto
      then show ?thesis using True p by (simp add: protocol_release_def wp_bind wp_seq wp_basic prot_at_inv)
    qed (use p inv in \<open>simp add: protocol_release_def wp_bind wp_basic prot_at_inv word_neq_0_conv\<close>)
    then show ?thesis using Release_protocol by (auto intro!: on_prot_wp result here inv)
  qed
qed

lemma pool_new_good:
  assumes "length g = MAXSIZE" and "n < 2 ^ 31"
  shows "pool_good n (OutputMessagePool_new g now)"
proof -
  let ?s = "OutputMessagePool_new g now"
  have new: "m_protocol (OutputMessage_new g) = None" "m_connection (OutputMessage_new g) = None" "buf_ok (OutputMessage_new g)"
    using assms(1) by (simp_all add: OutputMessage_new_def freeMessage_def Reset_def buf_ok_def)
  have "named (\<lambda>_. None) k p = 0" for k p by (simp add: named_def)
  then have "pool_ref ?s" using new by (simp add: pool_ref_def OutputMessagePool_new_def)
  moreover have "pool_mem {} ?s" by (auto simp: pool_mem_def OutputMessagePool_new_def users_of_def)
  moreover have "omsg_count ?s + n < 2 ^ 32" using assms(2) by (simp add: OutputMessagePool_new_def OUTPUT_POOL_SIZE_def)
  ultimately show ?thesis by (simp add: pool_good_def pool_inv_def)
qed

lemma do_ops_good:
  "pool_good (length ops) s \<Longrightarrow> length g = MAXSIZE \<Longrightarrow> holds (for_each ops (do_op g)) (\<lambda>_ t. pool_good 0 t) s"
proof (induction ops arbitrary: s)
  case (Cons op ops)
  then have "holds (do_op g op) (\<lambda>_ t. pool_good (length ops) t) s" by (intro do_op_good) simp_all
  then show ?case using Cons by (auto simp: wp_seq elim: wp_mono)
qed (simp add: wp_unit)

text \<open>
  Claim C31: whatever is asked of the pool (fewer than two thousand million requests), it is
  defined and keeps its books. Every message is in exactly one state: free, on its way back to
  the pool, or pointed to by someone; one that is pointed to names a protocol that still exists, and a
  protocol's reference count is the number of messages that name it, so that a protocol is never
  deleted while a message refers to it.
\<close>

theorem pool_keeps_books:
  assumes "length garbage = MAXSIZE" and "length ops < 2 ^ 31"
  shows "\<exists>s. for_each ops (do_op garbage) (OutputMessagePool_new garbage now) = Ret () s
    \<and> distinct (m_outputMessages s @ release_tasks s)
    \<and> users_of s = {..<omsg_count s} - set (m_outputMessages s @ release_tasks s)
    \<and> (\<forall>m \<in> users_of s. \<exists>p r. m_protocol (omsg_at s m) = Some p \<and> map_find (pool_prots s) p = Some r)
    \<and> (\<forall>(p, r) \<in> set (pool_prots s). unat (m_refCount r) = card {m. m < omsg_count s \<and> m_protocol (omsg_at s m) = Some p})"
proof -
  obtain s where s: "for_each ops (do_op garbage) (OutputMessagePool_new garbage now) = Ret () s" "pool_good 0 s"
    using do_ops_good [OF pool_new_good [OF assms] assms(1)] by (auto simp: wp_Ret)
  then have inv: "pool_inv {} s" and small: "omsg_count s < 2 ^ 32" by (simp_all add: pool_good_def)
  have "\<forall>m \<in> users_of s. \<exists>p r. m_protocol (omsg_at s m) = Some p \<and> map_find (pool_prots s) p = Some r"
    using pool_named [OF inv] by blast
  moreover have "unat (m_refCount r) = named (prot_of s) (omsg_count s) p" if "(p, r) \<in> set (pool_prots s)" for p r
  proof -
    have "map_ok (pool_prots s)" using inv by (simp add: pool_inv_def pool_ref_def)
    then have "map_find (pool_prots s) p = Some r" using that by (rule in_set_find)
    then have "m_refCount r = of_nat (named (prot_of s) (omsg_count s) p)" using inv by (simp add: pool_inv_def pool_ref_def)
    moreover have "named (prot_of s) (omsg_count s) p < 2 ^ 32" using named_le [of "prot_of s" "omsg_count s" p] small by linarith
    ultimately show ?thesis by (simp add: unat_of_nat_u32)
  qed
  ultimately show ?thesis using s(1) inv unfolding pool_inv_def pool_mem_def named_def by auto
qed

theorem pool_keeps_books_witness:
  "\<exists>s. for_each [Frame 5, New_protocol 1 (Some 2), Get 1 True, Send_all 6 (\<lambda>_. Sent), Give_up 99, Run_release, Release_protocol 1]
       (do_op (replicate MAXSIZE 0)) (OutputMessagePool_new (replicate MAXSIZE 0) 0) = Ret () s"
  using pool_keeps_books [of "replicate MAXSIZE 0"
      "[Frame 5, New_protocol 1 (Some 2), Get 1 True, Send_all 6 (\<lambda>_. Sent), Give_up 99, Run_release, Release_protocol 1]" 0]
  by auto

text \<open>
  Claim C32: \<open>sendAll\<close> offers its connection every message of the automatic queue and then every
  queued message that is at most thirty seconds old, each once and in order; afterwards the queue
  holds exactly those a connection put off. So a message put off once goes out behind messages made
  after it.
\<close>

theorem sendAll_order:
  assumes "pool_inv {} s"
  shows "\<exists>t. sendAll now out s = Ret () t \<and> m_autoSendOutputMessages t = []
    \<and> sent t = sent s @ answered out Sent 0 (m_autoSendOutputMessages s @ filter (\<lambda>m. \<not> too_old now (omsg_at s m)) (m_toAddQueue s))
    \<and> m_toAddQueue t = answered out Queued 0 (m_autoSendOutputMessages s @ filter (\<lambda>m. \<not> too_old now (omsg_at s m)) (m_toAddQueue s))"
  using sendAll_inv [OF assms, of now out] by (auto simp: wp_Ret Let_def)

definition sample_pool :: pool where
  "sample_pool = got True 1 \<lparr>m_outputBuffer = None, getConnection = Some 2, m_refCount = 0\<rparr> 2 99
     ((OutputMessagePool_new (replicate MAXSIZE 0) 0)\<lparr>pool_prots :=
        [(1, \<lparr>m_outputBuffer = None, getConnection = Some 2, m_refCount = 0\<rparr>)]\<rparr>)"

lemma sample_pool_inv: "pool_inv {} sample_pool"
proof -
  let ?s = "OutputMessagePool_new (replicate MAXSIZE 0) 0"
  let ?r = "\<lparr>m_outputBuffer = None, getConnection = Some 2, m_refCount = 0\<rparr>"
  have "pool_inv {} ?s" using pool_new_good [of "replicate MAXSIZE 0" 0 0] by (simp add: pool_good_def)
  moreover have "pool_prots ?s = []" by (simp add: OutputMessagePool_new_def)
  ultimately have one: "pool_inv {} (?s\<lparr>pool_prots := [(1, ?r)]\<rparr>)" using new_protocol_inv [of ?s 1 "Some 2"] by simp
  have "m_outputMessages (?s\<lparr>pool_prots := [(1, ?r)]\<rparr>) = [0..<99] @ [99]"
    using upt_Suc_append [of 0 99] by (simp add: OutputMessagePool_new_def OUTPUT_POOL_SIZE_def)
  then show ?thesis unfolding sample_pool_def by (rule got_inv [OF one]) simp
qed

theorem sendAll_order_witness:
  "\<exists>t. sendAll 3 (\<lambda>_. Sent) sample_pool = Ret () t \<and> sent t = [99] \<and> m_toAddQueue t = []"
  using sendAll_order [OF sample_pool_inv, of 3 "\<lambda>_. Sent"]
  by (auto simp: sample_pool_def got_def OutputMessagePool_new_def)

end
