(* ===== verification/TelnetOutput.thy ===== *)
theory TelnetOutput
  imports PoolSafety UserState
begin

text \<open>
  The send methods of \<open>src/Network/Protocols/Telnet.cpp\<close>: each takes a message of the pool that is
  not sent by itself, writes it and sends it. \<open>None\<close> where the pool gives no message is the null
  pointer these methods call a member of.
\<close>

section \<open>The methods\<close>

definition send_ops :: "u8 list \<Rightarrow> nat \<Rightarrow> msg_op list \<Rightarrow> send_result \<Rightarrow> unit pprog" where
  "send_ops garbage p ops r = bind (getOutputMessage garbage p False) (\<lambda>x. case x of
     None \<Rightarrow> undefined_behaviour
   | Some m \<Rightarrow> seq (on_msg m (for_each ops run_op)) (seq (pool_send r m) (drop_handle m)))"

definition cmd :: "nat \<Rightarrow> msg_op" where
  "cmd n = OpByte (of_nat n)"

text \<open>\<open>onConnect\<close>: the name of the server, its version and the address of the peer.\<close>

definition greeting :: "string \<Rightarrow> string \<Rightarrow> string \<Rightarrow> msg_op list" where
  "greeting serverName version adr =
     [OpString [NL], OpString serverName, OpString [NL], OpString ''Lotos++'', OpString '' version '',
      OpString version, OpString [NL], OpString ([NL, NL] @ ''connection from: ''), OpString adr, OpString [NL],
      cmd TELCMD_IAC, cmd TELCMD_WILL, cmd TELOPT_SGA,
      cmd TELCMD_IAC, cmd TELCMD_WILL, cmd TELOPT_ECHO,
      cmd TELCMD_IAC, cmd TELCMD_DO, cmd TELOPT_TERM,
      cmd TELCMD_IAC, cmd TELCMD_DO, cmd TELOPT_NAWS]"

definition onConnect :: "u8 list \<Rightarrow> nat \<Rightarrow> string \<Rightarrow> string \<Rightarrow> string \<Rightarrow> send_result \<Rightarrow> unit pprog" where
  "onConnect garbage p serverName version adr r = send_ops garbage p (greeting serverName version adr) r"

definition sendEchoOn :: "u8 list \<Rightarrow> nat \<Rightarrow> send_result \<Rightarrow> unit pprog" where
  "sendEchoOn garbage p r = send_ops garbage p [cmd TELCMD_IAC, cmd TELCMD_WONT, cmd TELOPT_ECHO] r"

definition sendEchoOff :: "u8 list \<Rightarrow> nat \<Rightarrow> send_result \<Rightarrow> unit pprog" where
  "sendEchoOff garbage p r = send_ops garbage p [cmd TELCMD_IAC, cmd TELCMD_WILL, cmd TELOPT_ECHO] r"

definition setXtermTitle :: "u8 list \<Rightarrow> nat \<Rightarrow> string \<Rightarrow> send_result \<Rightarrow> unit pprog" where
  "setXtermTitle garbage p title r =
     send_ops garbage p [OpString (char_of (27 :: nat) # '']0;''), OpString title, OpByte 0x07] r"

definition sendTermCoords :: "u8 list \<Rightarrow> nat \<Rightarrow> send_result \<Rightarrow> unit pprog" where
  "sendTermCoords garbage p r = send_ops garbage p [cmd TELCMD_IAC, cmd TELCMD_DO, cmd TELOPT_NAWS] r"

definition enableLineWrap :: "u8 list \<Rightarrow> nat \<Rightarrow> send_result \<Rightarrow> unit pprog" where
  "enableLineWrap garbage p r = protocol_write garbage p (char_of (27 :: nat) # ''[7h'') r"

definition disableLineWrap :: "u8 list \<Rightarrow> nat \<Rightarrow> send_result \<Rightarrow> unit pprog" where
  "disableLineWrap garbage p r = protocol_write garbage p (char_of (27 :: nat) # ''[7l'') r"

text \<open>
  \<open>disconnectClient\<close> sends only when it is given a message; it returns whether \<open>disconnect\<close> finds a
  connection to close.
\<close>

definition disconnectClient :: "u8 list \<Rightarrow> nat \<Rightarrow> string \<Rightarrow> send_result \<Rightarrow> bool pprog" where
  "disconnectClient garbage p text r =
     seq (bind (getOutputMessage garbage p False) (\<lambda>x. case x of
            None \<Rightarrow> skip
          | Some m \<Rightarrow> seq (on_msg m (AddString text)) (seq (pool_send r m) (drop_handle m))))
       (bind (prot_at p) (\<lambda>q. ret (getConnection q \<noteq> None)))"

section \<open>What reaches the connection\<close>

lemma run_op_frame:
  "run_op x (o' :: omsg) = Ret () v \<Longrightarrow>
     m_protocol v = m_protocol o' \<and> m_connection v = m_connection o' \<and> m_state v = m_state o'"
  by (cases x)
    (auto simp: AddString_def AddByte_def AddU16_def AddU32_def AddU64_def AddBytes_def put_bytes_def poke_def Let_def
      split: if_splits option.splits)

lemma run_ops_frame:
  "for_each ops run_op (o' :: omsg) = Ret () v \<Longrightarrow>
     m_protocol v = m_protocol o' \<and> m_connection v = m_connection o' \<and> m_state v = m_state o'"
proof (induction ops arbitrary: o')
  case (Cons x ops)
  then obtain u where "run_op x o' = Ret () u" "for_each ops run_op u = Ret () v"
    by (auto simp: seq_def bind_Ret_iff)
  then show ?case using Cons.IH [of u] run_op_frame [of x o' u] by simp
qed (simp add: prog_eval)

lemma on_ops_inv:
  assumes inv: "pool_inv X s" and m: "msg_ok (omsg_at s m)" "written (omsg_at s m) = []" and ops: "list_all op_addressable ops"
  shows "holds (on_msg m (for_each ops run_op)) (\<lambda>_ t. pool_inv X t \<and> (\<exists>f. t = s\<lparr>omsg_at := f\<rparr>)
    \<and> m_state (omsg_at t m) = m_state (omsg_at s m) \<and> conn_of t m = conn_of s m
    \<and> written (omsg_at t m) = foldl append_op [] ops) s"
proof -
  obtain v where v: "for_each ops run_op (omsg_at s m) = Ret () v" "msg_ok v" "written v = foldl append_op [] ops"
    using run_ops_spec [OF m(1) ops] m(2) by auto
  note fr = run_ops_frame [OF v(1)]
  let ?t = "s\<lparr>omsg_at := (omsg_at s)(m := v)\<rparr>"
  have "pool_ref ?t = pool_ref s"
    by (rule pool_ref_cong) (use v m fr in \<open>simp_all add: msg_ok_def\<close>)
  moreover have "pool_mem X ?t = pool_mem X s" by (simp add: pool_mem_def)
  ultimately have "pool_inv X ?t" using inv by (simp add: pool_inv_def)
  then show ?thesis using v fr by (auto simp: wp_def on_msg_def)
qed

lemma pool_send_took:
  assumes "pool_inv {} s" and "m \<in> set (held s)" and "m_state (omsg_at s m) = STATE_ALLOCATED_NO_AUTOSEND"
  shows "holds (pool_send r m) (\<lambda>_ t. pool_inv {} t \<and> took r m s t) s"
  using send_one_inv [of "{}" s m r] assms by (simp add: pool_send_def wp_bind wp_state listed_def)

lemma drop_handle_frame:
  assumes "pool_inv {} s" and "m \<in> set (held s)"
  shows "holds (drop_handle m) (\<lambda>_ t. pool_inv {} t \<and> sent t = sent s \<and> m_toAddQueue t = m_toAddQueue s \<and> omsg_at t = omsg_at s) s"
proof -
  have "holds (drop_handle m) (\<lambda>_ t. sent t = sent s \<and> m_toAddQueue t = m_toAddQueue s \<and> omsg_at t = omsg_at s) s"
    by (simp add: drop_handle_def let_go_def releaseMessage_def wp_simps)
  with drop_handle_inv [OF assms] show ?thesis by (auto simp: wp_Ret)
qed

lemma send_ops_spec:
  assumes inv: "pool_inv {} s" and p: "map_find (pool_prots s) p = Some r" and g: "length g = MAXSIZE"
    and up: "m_isOpen s" "getConnection r \<noteq> None" and ops: "list_all op_addressable ops"
  shows "holds (send_ops g p ops Sent) (\<lambda>_ t. pool_inv {} t
    \<and> (\<exists>m. sent t = sent s @ [m] \<and> written (omsg_at t m) = foldl append_op [] ops)) s"
proof -
  let ?Q = "\<lambda>(_ :: unit) t. pool_inv {} t \<and> (\<exists>m. sent t = sent s @ [m] \<and> written (omsg_at t m) = foldl append_op [] ops)"
  have finish: "holds (seq (pool_send Sent m) (drop_handle m)) ?Q t"
    if t: "pool_inv {} t" "m \<in> set (held t)" "m_state (omsg_at t m) = STATE_ALLOCATED_NO_AUTOSEND" "sent t = sent s"
      "written (omsg_at t m) = foldl append_op [] ops" for m t
    unfolding wp_seq
  proof (rule wp_mono [OF pool_send_took [OF t(1-3)]])
    fix u assume u: "pool_inv {} u \<and> took Sent m t u"
    then have "m \<in> set (held u)" "sent u = sent s @ [m]" "omsg_at u = omsg_at t" using t by (auto simp: took_def)
    then show "holds (drop_handle m) ?Q u"
      using u t(5) by (intro wp_mono [OF drop_handle_frame]) auto
  qed simp
  have "holds (case x of None \<Rightarrow> undefined_behaviour
      | Some m \<Rightarrow> seq (on_msg m (for_each ops run_op)) (seq (pool_send Sent m) (drop_handle m))) ?Q t"
    if t: "pool_inv {} t \<and> omsg_count t \<le> omsg_count s + 1 \<and> gotten False p r s x t" for x t
  proof -
    obtain m where x: "x = Some m" "m \<in> set (held t)" "msg_ok (omsg_at t m)" "written (omsg_at t m) = []"
      "m_state (omsg_at t m) = STATE_ALLOCATED_NO_AUTOSEND" "sent t = sent s"
      using t up by (auto simp: gotten_def split: option.splits)
    have "holds (on_msg m (for_each ops run_op)) (\<lambda>_ u. holds (seq (pool_send Sent m) (drop_handle m)) ?Q u) t"
      by (rule wp_mono [OF on_ops_inv [OF _ x(3,4) ops]]) (use t x finish in auto)
    then show ?thesis using x(1) by (simp add: wp_seq [of "on_msg _ _"])
  qed
  then show ?thesis unfolding send_ops_def wp_bind [of "getOutputMessage _ _ _"]
    by (intro wp_mono [OF getOutputMessage_inv [OF inv p g]]) auto
qed

text \<open>
  On an open pool and a connected client, \<open>sendEchoOff\<close> and \<open>sendEchoOn\<close> send one message
  each, the three bytes IAC WILL ECHO and IAC WONT ECHO, and keep the books of the pool.
\<close>

theorem echo_bytes:
  assumes inv: "pool_inv {} s" and p: "map_find (pool_prots s) p = Some r" and g: "length g = MAXSIZE"
    and up: "m_isOpen s" "getConnection r \<noteq> None"
  shows "(\<exists>t m. sendEchoOff g p Sent s = Ret () t \<and> pool_inv {} t \<and> sent t = sent s @ [m]
      \<and> written (omsg_at t m) = [255, 251, 1])
    \<and> (\<exists>t m. sendEchoOn g p Sent s = Ret () t \<and> pool_inv {} t \<and> sent t = sent s @ [m]
      \<and> written (omsg_at t m) = [255, 252, 1])"
proof -
  have "foldl append_op [] [cmd TELCMD_IAC, cmd TELCMD_WILL, cmd TELOPT_ECHO] = [255, 251, 1]"
    "foldl append_op [] [cmd TELCMD_IAC, cmd TELCMD_WONT, cmd TELOPT_ECHO] = [255, 252, 1]"
    by (simp_all add: append_op_def cmd_def MAXSIZE_def TELCMD_IAC_def TELCMD_WILL_def TELCMD_WONT_def TELOPT_ECHO_def)
  moreover have "list_all op_addressable [cmd a, cmd b, cmd c]" for a b c
    by (simp add: op_addressable_def cmd_def)
  ultimately show ?thesis
    using send_ops_spec [OF inv p g up, of "[cmd TELCMD_IAC, cmd TELCMD_WILL, cmd TELOPT_ECHO]"]
      send_ops_spec [OF inv p g up, of "[cmd TELCMD_IAC, cmd TELCMD_WONT, cmd TELOPT_ECHO]"]
    by (simp add: wp_Ret sendEchoOff_def sendEchoOn_def)
qed

lemma sample_open:
  "pool_inv {} (sample_pool\<lparr>m_isOpen := True\<rparr>)" "sent (sample_pool\<lparr>m_isOpen := True\<rparr>) = []"
  "map_find (pool_prots (sample_pool\<lparr>m_isOpen := True\<rparr>)) 1
     = Some \<lparr>m_outputBuffer = None, getConnection = Some 2, m_refCount = 1\<rparr>"
proof -
  have "pool_mem {} (sample_pool\<lparr>m_isOpen := True\<rparr>) = pool_mem {} sample_pool" by (simp add: pool_mem_def)
  then show "pool_inv {} (sample_pool\<lparr>m_isOpen := True\<rparr>)" using sample_pool_inv by (simp add: pool_inv_def pool_ref_lists)
qed (simp_all add: sample_pool_def got_def OutputMessagePool_new_def)

theorem echo_bytes_witness:
  "\<exists>t m. sendEchoOn (replicate MAXSIZE 0) 1 Sent (sample_pool\<lparr>m_isOpen := True\<rparr>) = Ret () t \<and> sent t = [m]
     \<and> written (omsg_at t m) = [255, 252, 1]"
  using echo_bytes [OF sample_open(1,3), of "replicate MAXSIZE 0"] sample_open(2) by auto

lemma fitting_ops:
  "length w + length (concat (map op_bytes ops)) < MAXSIZE \<Longrightarrow> \<forall>x \<in> set ops. length (op_bytes x) \<le> op_limit x
     \<Longrightarrow> foldl append_op w ops = w @ concat (map op_bytes ops)"
proof (induction ops arbitrary: w)
  case (Cons x ops)
  then have "append_op w x = w @ op_bytes x" by (simp add: append_op_def)
  then show ?case using Cons by simp
qed simp

definition zstr :: "string \<Rightarrow> u8 list" where
  "zstr s = map byte_of_char (c_str s) @ [0]"

text \<open>
  Claim C33: the greeting of a new connection is one message: the texts, each with the zero byte that
  \<open>AddString\<close> puts behind it, and the offers and requests of options IAC WILL SGA, IAC WILL ECHO,
  IAC DO TERM, IAC DO NAWS.
\<close>

theorem greeting_bytes:
  assumes inv: "pool_inv {} s" and p: "map_find (pool_prots s) p = Some r" and g: "length g = MAXSIZE"
    and up: "m_isOpen s" "getConnection r \<noteq> None"
    and short: "length serverName \<le> 4000" "length version \<le> 4000" "length adr \<le> 4000"
  shows "\<exists>t m. onConnect g p serverName version adr Sent s = Ret () t \<and> sent t = sent s @ [m]
    \<and> written (omsg_at t m) = zstr [NL] @ zstr serverName @ zstr [NL] @ zstr ''Lotos++'' @ zstr '' version '' @ zstr version
        @ zstr [NL] @ zstr ([NL, NL] @ ''connection from: '') @ zstr adr @ zstr [NL]
        @ [255, 251, 3, 255, 251, 1, 255, 253, 24, 255, 253, 31]"
proof -
  let ?ops = "greeting serverName version adr"
  have c: "length (c_str x) \<le> length x" for x by (simp add: c_str_def length_takeWhile_le)
  have len: "length (c_str serverName) \<le> 4000" "length (c_str version) \<le> 4000" "length (c_str adr) \<le> 4000"
    using short c order_trans by blast+
  have nl: "c_str (NL # x) = NL # c_str x" "c_str [] = []" for x by (simp_all add: c_str_def NL_def NUL_def)
  have addr: "list_all op_addressable ?ops"
    using len by (simp add: greeting_def op_addressable_def cmd_def nl c_str_def NUL_def)
  have "foldl append_op [] ?ops = [] @ concat (map op_bytes ?ops)"
    by (rule fitting_ops) (use len in \<open>simp_all add: greeting_def cmd_def nl c_str_def NUL_def NL_def MAXSIZE_def\<close>)
  then have "foldl append_op [] ?ops = zstr [NL] @ zstr serverName @ zstr [NL] @ zstr ''Lotos++'' @ zstr '' version '' @ zstr version
        @ zstr [NL] @ zstr ([NL, NL] @ ''connection from: '') @ zstr adr @ zstr [NL]
        @ [255, 251, 3, 255, 251, 1, 255, 253, 24, 255, 253, 31]"
    by (simp add: greeting_def cmd_def zstr_def TELCMD_IAC_def TELCMD_WILL_def TELCMD_DO_def TELOPT_SGA_def TELOPT_ECHO_def
        TELOPT_TERM_def TELOPT_NAWS_def)
  then show ?thesis using send_ops_spec [OF inv p g up addr] by (auto simp: wp_Ret onConnect_def)
qed

theorem greeting_bytes_witness:
  "\<exists>t m. onConnect (replicate MAXSIZE 0) 1 ''srv'' ''1'' ''::1'' Sent (sample_pool\<lparr>m_isOpen := True\<rparr>) = Ret () t \<and> sent t = [m]
     \<and> length (written (omsg_at t m)) = 68"
  using greeting_bytes [OF sample_open(1,3), of "replicate MAXSIZE 0" "''srv''" "''1''" "''::1''"] sample_open(2)
  by (auto simp: zstr_def c_str_def NUL_def NL_def)

text \<open>
  Once the pool is stopped (as \<open>ServiceManager::stop\<close> does, three seconds before the server
  ends), every output to a client is undefined: the null message is used. Only
  \<open>disconnectClient\<close> tests for it.
\<close>

theorem output_after_stop:
  assumes "map_find (pool_prots s) p = Some r"
  shows "seq pool_stop (sendEchoOn g p res) s = Undefined \<and> seq pool_stop (onConnect g p n v a res) s = Undefined
    \<and> seq pool_stop (protocol_write g p str res) s = Undefined
    \<and> seq pool_stop (disconnectClient g p str res) s = Ret (getConnection r \<noteq> None) (s\<lparr>m_isOpen := False\<rparr>)"
  using assms
  by (simp add: sendEchoOn_def onConnect_def send_ops_def protocol_write_def disconnectClient_def getOutputMessage_def
      pool_stop_def prot_at_def seq_def bind_def prog_eval)

theorem output_after_stop_witness:
  "seq pool_stop (sendEchoOn [] 1 Sent) sample_pool = Undefined"
proof -
  have "map_find (pool_prots sample_pool) 1 = Some \<lparr>m_outputBuffer = None, getConnection = Some 2, m_refCount = 1\<rparr>"
    by (simp add: sample_pool_def got_def OutputMessagePool_new_def)
  from output_after_stop [OF this] show ?thesis by blast
qed

end
