(* ===== verification/Tracking.thy ===== *)
theory Tracking
  imports Prelude
begin

text \<open>
  Two small classes: the diagnostics of a message (\<open>OutputMessage\<close> under \<open>__TRACK_NETWORK__\<close>,
  \<open>src/Network/OutputMessage.h\<close>), which remember the last places it was used at, and the object
  that is made when it is first asked for (\<open>src/Common/Singleton.h\<close>).
\<close>

section \<open>The last uses of a message\<close>

definition use_text :: "string \<Rightarrow> int \<Rightarrow> string \<Rightarrow> string" where
  "use_text file line func = file @ '':line '' @ show_int line @ '' '' @ func"

definition Track :: "string \<Rightarrow> int \<Rightarrow> string \<Rightarrow> string list \<Rightarrow> string list" where
  "Track file line func last_uses = (if 25 \<le> length last_uses then tl last_uses else last_uses) @ [use_text file line func]"

definition clearTrack :: "string list \<Rightarrow> string list" where
  "clearTrack last_uses = []"

text \<open>The newest use comes first; the result is what is printed.\<close>

definition PrintTrace :: "string list \<Rightarrow> string" where
  "PrintTrace last_uses = concat (map (\<lambda>(n, use). [CHR 0x09] @ show_nat n @ [CHR ''.'', CHR 0x09] @ use @ [CHR 0x0A])
     (zip [1..<length last_uses + 1] (rev last_uses)))"

datatype track_call = Call_track string int string | Call_clear

fun track_step :: "string list \<Rightarrow> track_call \<Rightarrow> string list" where
  "track_step us (Call_track file line func) = Track file line func us"
| "track_step us Call_clear = clearTrack us"

text \<open>The specification: every use since the last \<open>clearTrack\<close>.\<close>

fun all_uses :: "string list \<Rightarrow> track_call \<Rightarrow> string list" where
  "all_uses us (Call_track file line func) = us @ [use_text file line func]"
| "all_uses us Call_clear = []"

definition last_25 :: "'a list \<Rightarrow> 'a list" where
  "last_25 us = drop (length us - 25) us"

lemma last_25_step: "track_step (last_25 us) c = last_25 (all_uses us c)"
proof (cases c)
  case (Call_track f l g)
  show ?thesis
  proof (cases "25 \<le> length us")
    case True
    then have "Suc (length us - 25) = length us - 24" by linarith
    then have "tl (drop (length us - 25) us) = drop (Suc (length us) - 25) us"
      by (simp add: drop_Suc [symmetric] tl_drop drop_tl)
    then show ?thesis using Call_track True by (simp add: Track_def last_25_def)
  next
    case False
    then show ?thesis using Call_track by (simp add: Track_def last_25_def)
  qed
qed (simp add: clearTrack_def last_25_def)

text \<open>
  Claim C40: however a message is used, what it remembers is bounded: at most 25 uses, and exactly the last
  25 since it was cleared, in order.
\<close>

theorem track_keeps_last_25:
  "let us = foldl track_step [] cs in length us \<le> 25 \<and> us = last_25 (foldl all_uses [] cs)"
proof -
  have "foldl track_step (last_25 us) cs = last_25 (foldl all_uses us cs)" for us
    by (induction cs arbitrary: us) (simp_all add: last_25_step)
  from this [of "[]"] have "foldl track_step [] cs = last_25 (foldl all_uses [] cs)" by (simp add: last_25_def)
  then show ?thesis by (simp add: last_25_def)
qed

text \<open>A trace has one line for each use.\<close>

lemma PrintTrace_sample: "PrintTrace [''a'', ''b''] = [CHR 0x09] @ ''1.'' @ [CHR 0x09] @ ''b'' @ [CHR 0x0A, CHR 0x09] @ ''2.'' @ [CHR 0x09] @ ''a'' @ [CHR 0x0A]"
  by code_simp

section \<open>Objects made once\<close>

text \<open>
  The pointer is set by the first call whose constructor returns; when it throws, the next call tries
  again. The state is the pointer and what the constructor works on.
\<close>

definition singleton_get :: "('e, 's, 'a) prog \<Rightarrow> ('e, 'a option \<times> 's, 'a) prog" where
  "singleton_get new s = (case s of
     (Some p, w) \<Rightarrow> Ret p s
   | (None, w) \<Rightarrow> (case new w of
        Ret p w' \<Rightarrow> Ret p (Some p, w') | Exn e w' \<Rightarrow> Exn e (None, w') | Undefined \<Rightarrow> Undefined | Hang \<Rightarrow> Hang))"

text \<open>Once an instance has been given out, every later call gives the same one and constructs nothing.\<close>

theorem singleton_made_once:
  assumes "singleton_get new s = Ret p t"
  shows "singleton_get new' t = Ret p t"
  using assms by (auto simp: singleton_get_def split: prod.splits option.splits out.splits)

lemma singleton_made_once_witness:
  "singleton_get (\<lambda>n :: nat. Ret n (Suc n)) (None, 3) = Ret 3 (Some 3, 4)
   \<and> singleton_get (\<lambda>n :: nat. Ret n (Suc n)) (Some 3, 4) = (Ret 3 (Some 3, 4) :: (unit, nat option \<times> nat, nat) out)"
  using singleton_made_once [of "\<lambda>n :: nat. Ret n (Suc n)" "(None, 3)" 3 "(Some 3, 4)"] by (simp add: singleton_get_def)

end
