(* ===== verification/BlowfishPortable.thy ===== *)
theory BlowfishPortable
  imports Blowfish "HOL-Library.Monad_Syntax"
begin

text \<open>
  The variant of \<open>BF_ROUND\<close> in \<open>src/Security/Blowfish.cpp\<close> for processors other than x86, Alpha and HPPA (\<open>BF_SCALE\<close> is
  0). It computes byte offsets, four times the indices of the other variant, and reads a word at an
  address. The macro \<open>BF_INDEX\<close> casts its argument \<open>S\<close> to a pointer; the rounds give it the \<^emph>\<open>value\<close> of
  a table entry, \<open>data.ctx.S[0x300]\<close>, where the entry's address is meant. \<open>mem\<close> is the memory: the word at an
  address, if it can be read.
\<close>

unbundle bit_operations_syntax

definition BF_INDEX :: "(nat \<Rightarrow> u32 option) \<Rightarrow> u32 \<Rightarrow> u32 \<Rightarrow> u32 option" where
  "BF_INDEX mem S i = mem (unat S + unat i)"

definition BF_ROUND_offsets :: "(nat \<Rightarrow> u32 option) \<Rightarrow> bf_ctx \<Rightarrow> u32 \<Rightarrow> u32 \<Rightarrow> nat \<Rightarrow> u32 option" where
  "BF_ROUND_offsets mem ctx L R N = do {
     s1 \<leftarrow> BF_INDEX mem (bf_S ctx ! 0x300) (push_bit 2 (L AND 0xFF));
     s2 \<leftarrow> BF_INDEX mem (bf_S ctx ! 0x200) (drop_bit 6 L AND 0x3FC);
     s3 \<leftarrow> BF_INDEX mem (bf_S ctx ! 0x100) (drop_bit 14 L AND 0x3FC);
     s4 \<leftarrow> BF_INDEX mem (bf_S ctx ! 0) (drop_bit 22 L AND 0x3FC);
     Some ((R XOR bf_P ctx ! (N + 1)) XOR (((s3 + s4) XOR s2) + s1)) }"

lemma ff_mask: "w AND 0xFF = take_bit 8 w" for w :: u32
  by (simp add: take_bit_eq_mask mask_eq_decr_exp)

lemma byte_bound: "unat (w AND 0xFF :: u32) < 256"
  by (simp add: ff_mask unsigned_take_bit_eq) (simp add: take_bit_eq_mod)

lemma four_times: "unat (push_bit 2 (w AND 0xFF :: u32)) = 4 * unat (w AND 0xFF)"
  using byte_bound [of w] by (simp add: push_bit_eq_mult unat_word_ariths)

lemma scaled_byte: "drop_bit n L AND 0x3FC = push_bit 2 (drop_bit (n + 2) L AND 0xFF)" for L :: u32
proof -
  have "(0x3FC :: u32) = push_bit 2 (mask 8)" by (simp add: mask_eq_decr_exp push_bit_eq_mult)
  then show ?thesis unfolding ff_mask
    by (intro bit_eqI) (auto simp only: bit_simps, auto dest!: le_Suc_ex)
qed

lemma top_byte: "drop_bit 24 L AND 0xFF = drop_bit 24 L" for L :: u32
  unfolding ff_mask by (intro bit_eqI) (auto simp: bit_simps dest: bit_imp_le_length)

text \<open>A table that can be read at an address: entry \<open>k\<close> is the word four times \<open>k\<close> behind it.\<close>

definition table_at :: "(nat \<Rightarrow> u32 option) \<Rightarrow> nat \<Rightarrow> u32 list \<Rightarrow> nat \<Rightarrow> bool" where
  "table_at mem a S i \<longleftrightarrow> (\<forall>k < 256. mem (a + 4 * k) = Some (S ! (i + k)))"

text \<open>
  The offsets are right: both variants agree when each of the four values used as a pointer is the address of its
  table. Nothing in the program makes it so; for other memory the round reads whatever is there.
\<close>

theorem offsets_agree:
  assumes "\<forall>i \<in> {0, 0x100, 0x200, 0x300}. table_at mem (unat (bf_S ctx ! i)) (bf_S ctx) i"
  shows "BF_ROUND_offsets mem ctx L R N = Some (BF_ROUND ctx L R N)"
proof -
  have read: "BF_INDEX mem (bf_S ctx ! i) (push_bit 2 (w AND 0xFF)) = Some (bf_S ctx ! (i + unat (w AND 0xFF)))"
    if "i \<in> {0, 0x100, 0x200, 0x300}" for i w
    using assms that byte_bound [of w] by (auto simp: table_at_def BF_INDEX_def four_times simp del: push_bit_and)
  show ?thesis
    using read [of "0x300" L] read [of "0x200" "drop_bit 8 L"]
      read [of "0x100" "drop_bit 16 L"] read [of "0" "drop_bit 24 L"]
    by (simp add: BF_ROUND_offsets_def BF_ROUND_def Let_def scaled_byte top_byte del: push_bit_and)
qed

text \<open>With a cleared table, as the pages at address 0 cannot be read, the round fails for every block.\<close>

theorem cleared_table_fails:
  assumes "\<forall>a < 1024. mem a = None" and "bf_S ctx ! 0x300 = 0"
  shows "BF_ROUND_offsets mem ctx L R N = None"
  using assms byte_bound [of L] by (simp add: BF_ROUND_offsets_def BF_INDEX_def four_times del: push_bit_and)

end
