(* ===== verification/Tasks.thy ===== *)
theory Tasks
  imports Prelude "HOL-Library.Multiset"
begin

text \<open>
  The task machinery: \<open>Task\<close> (\<open>src/Common/Task.h\<close>), the \<open>Scheduler\<close> of delayed events and the
  \<open>Dispatcher\<close> that runs tasks one after the other (\<open>src/Common/Scheduler.cpp\<close>,
  \<open>Dispatcher.cpp\<close>). Times are milliseconds, \<open>None\<close> is \<open>not_a_date_time\<close>; a task's function is a
  parameter type. What a thread does under a lock is one step.
\<close>

section \<open>Task\<close>

record 'f task =
  m_expiration :: "nat option"
  m_f :: 'f

definition createTask :: "'f \<Rightarrow> 'f task" where
  "createTask f = \<lparr>m_expiration = None, m_f = f\<rparr>"

definition createExpiringTask :: "nat \<Rightarrow> u32 \<Rightarrow> 'f \<Rightarrow> 'f task" where
  "createExpiringTask now ms f = \<lparr>m_expiration = Some (now + unat ms), m_f = f\<rparr>"

definition hasExpired :: "nat \<Rightarrow> 'f task \<Rightarrow> bool" where
  "hasExpired now t = (case m_expiration t of None \<Rightarrow> False | Some e \<Rightarrow> e < now)"

datatype thread_state = STATE_RUNNING | STATE_CLOSING | STATE_TERMINATED

section \<open>Scheduler\<close>

record 'f sched_event =
  getCycle :: nat
  m_eventid :: u32
  e_f :: 'f

definition SCHEDULER_MINTICKS :: u32 where "SCHEDULER_MINTICKS = 20"

text \<open>The assertion on the delay; a smaller one than the minimum is raised to it.\<close>

definition createSchedulerTask :: "nat \<Rightarrow> u32 \<Rightarrow> 'f \<Rightarrow> 'f sched_event option" where
  "createSchedulerTask now delay f =
     (if delay = 0 then None
      else Some \<lparr>getCycle = now + unat (if delay < SCHEDULER_MINTICKS then SCHEDULER_MINTICKS else delay),
                 m_eventid = 0, e_f = f\<rparr>)"

text \<open>
  The priority queue as the list of its events, the earliest first. Among events of one cycle
  the standard fixes no order; this one keeps the order they came in.
\<close>

record 'f sched =
  m_lastEventId :: u32
  m_eventList :: "'f sched_event list"
  m_eventIds :: "u32 set"
  s_state :: thread_state

definition sched_start :: "'f sched" where
  "sched_start = \<lparr>m_lastEventId = 0, m_eventList = [], m_eventIds = {}, s_state = STATE_RUNNING\<rparr>"

fun pq_push :: "'f sched_event \<Rightarrow> 'f sched_event list \<Rightarrow> 'f sched_event list" where
  "pq_push t [] = [t]"
| "pq_push t (x # xs) = (if getCycle t < getCycle x then t # x # xs else x # pq_push t xs)"

definition next_id :: "u32 \<Rightarrow> u32" where
  "next_id i = (if 0xFFFFFFFF \<le> i then 0 else i) + 1"

text \<open>The results are the id of the event, and whether the thread is notified.\<close>

definition addEvent :: "'f sched_event \<Rightarrow> 'f sched \<Rightarrow> (u32 \<times> bool) \<times> 'f sched" where
  "addEvent t s =
     (if s_state s \<noteq> STATE_RUNNING then ((m_eventid t, False), s)
      else
        let i = (if m_eventid t = 0 then next_id (m_lastEventId s) else m_eventid t);
            t' = t\<lparr>m_eventid := i\<rparr>
        in ((i, m_eventList s = [] \<or> getCycle t < getCycle (hd (m_eventList s))),
            s\<lparr>m_lastEventId := (if m_eventid t = 0 then i else m_lastEventId s),
              m_eventIds := insert i (m_eventIds s), m_eventList := pq_push t' (m_eventList s)\<rparr>))"

definition stopEvent :: "u32 \<Rightarrow> 'f sched \<Rightarrow> bool \<times> 'f sched" where
  "stopEvent i s =
     (if i = 0 then (False, s)
      else if i \<in> m_eventIds s then (True, s\<lparr>m_eventIds := m_eventIds s - {i}\<rparr>)
      else (False, s))"

text \<open>
  The thread once it has the lock again; \<open>ret\<close> is false when its wait for the earliest event
  timed out. The event is run when its id is still active and deleted otherwise; \<open>top()\<close> of an
  empty queue is undefined.
\<close>

datatype 'f woken = Nothing | Run "'f sched_event" | Stopped "'f sched_event"

definition sched_wake :: "bool \<Rightarrow> (std_exn, 'f sched, 'f woken) prog" where
  "sched_wake ret' s =
     (if ret' \<or> s_state s = STATE_TERMINATED then Ret Nothing s
      else case m_eventList s of
        [] \<Rightarrow> Undefined
      | t # q \<Rightarrow>
          if m_eventid t \<in> m_eventIds s
          then Ret (Run t) (s\<lparr>m_eventList := q, m_eventIds := m_eventIds s - {m_eventid t}\<rparr>)
          else Ret (Stopped t) (s\<lparr>m_eventList := q\<rparr>))"

text \<open>\<open>setDontExpire\<close>, and the task that goes to the dispatcher.\<close>

definition as_task :: "'f sched_event \<Rightarrow> 'f task" where
  "as_task t = \<lparr>m_expiration = None, m_f = e_f t\<rparr>"

definition sched_stop :: "'f sched \<Rightarrow> 'f sched" where
  "sched_stop s = s\<lparr>s_state := STATE_CLOSING\<rparr>"

definition sched_shutdown :: "'f sched \<Rightarrow> 'f sched" where
  "sched_shutdown s = s\<lparr>s_state := STATE_TERMINATED, m_eventList := [], m_eventIds := {}\<rparr>"

section \<open>What the scheduler promises\<close>

text \<open>
  The contract: a set of pending events by id. \<open>addEvent\<close> enters one, \<open>stopEvent\<close> drops one, and
  a timeout takes the earliest. A stopped event stays in the queue until its time; only then is
  it found inactive.
\<close>

definition pending :: "'f sched \<Rightarrow> (u32 \<times> nat \<times> 'f) set" where
  "pending s = set (map (\<lambda>t. (m_eventid t, getCycle t, e_f t))
     (filter (\<lambda>t. m_eventid t \<in> m_eventIds s) (m_eventList s)))"

definition sched_ok :: "'f sched \<Rightarrow> bool" where
  "sched_ok s \<longleftrightarrow> sorted (map getCycle (m_eventList s)) \<and> distinct (map m_eventid (m_eventList s))
     \<and> m_eventIds s \<subseteq> m_eventid ` set (m_eventList s)
     \<and> (\<forall>t \<in> set (m_eventList s). 0 < m_eventid t \<and> m_eventid t \<le> m_lastEventId s)"

lemma set_pq_push [simp]: "set (pq_push t q) = insert t (set q)"
  by (induction t q rule: pq_push.induct) auto

lemma sorted_pq_push: "sorted (map getCycle q) \<Longrightarrow> sorted (map getCycle (pq_push t q))"
  by (induction t q rule: pq_push.induct) auto

lemma distinct_pq_push:
  "distinct (map m_eventid (pq_push t q)) \<longleftrightarrow> m_eventid t \<notin> m_eventid ` set q \<and> distinct (map m_eventid q)"
  by (induction t q rule: pq_push.induct) auto

lemma hd_pq_push: "q \<noteq> [] \<Longrightarrow> getCycle (hd (pq_push t q)) = min (getCycle t) (getCycle (hd q))"
  by (cases q) (auto simp: min_def)

lemma pq_push_nonempty [simp]: "pq_push t q \<noteq> []"
  by (cases q) auto

lemma next_id_above:
  assumes "i < 0xFFFFFFFF"
  shows "i < next_id i"
proof -
  have "next_id i = i + 1" using assms by (simp add: next_id_def not_le [symmetric])
  moreover have "unat i < 0xFFFFFFFF" using assms by (simp add: word_less_nat_alt)
  ultimately show ?thesis by (simp add: word_less_nat_alt unat_word_ariths)
qed

lemma sched_ok_add:
  assumes ok: "sched_ok s" and "m_eventid t = 0" and last: "m_lastEventId s < 0xFFFFFFFF"
  shows "sched_ok (snd (addEvent t s))"
proof (cases "s_state s = STATE_RUNNING")
  case True
  let ?i = "next_id (m_lastEventId s)"
  have above: "m_lastEventId s < ?i" by (rule next_id_above [OF last])
  have "m_eventid x < ?i" if "x \<in> set (m_eventList s)" for x
    using ok above that unfolding sched_ok_def by (meson le_less_trans)
  moreover have "0 < ?i" using above by (meson word_zero_le le_less_trans)
  ultimately show ?thesis using True assms
    by (fastforce simp: addEvent_def Let_def sched_ok_def sorted_pq_push distinct_pq_push)
qed (use ok in \<open>simp add: addEvent_def\<close>)

lemma sched_ok_stop: "sched_ok s \<Longrightarrow> sched_ok (snd (stopEvent i s))"
  by (auto simp: stopEvent_def sched_ok_def)

lemma sched_ok_wake: "sched_ok s \<Longrightarrow> sched_wake r s = Ret x s' \<Longrightarrow> sched_ok s'"
  by (auto simp: sched_wake_def sched_ok_def split: if_splits list.splits)

lemma ids_below:
  "sched_ok s \<Longrightarrow> m_lastEventId s < 0xFFFFFFFF \<Longrightarrow> x \<in> set (m_eventList s) \<Longrightarrow> m_eventid x < next_id (m_lastEventId s)"
  unfolding sched_ok_def by (meson le_less_trans next_id_above)

lemma pending_add:
  assumes "sched_ok s" "s_state s = STATE_RUNNING" "m_lastEventId s < 0xFFFFFFFF" "m_eventid t = 0"
  shows "case addEvent t s of ((i, _), s') \<Rightarrow>
      i \<notin> fst ` pending s \<and> pending s' = insert (i, getCycle t, e_f t) (pending s)"
proof -
  let ?i = "next_id (m_lastEventId s)"
  have fresh: "\<forall>x \<in> set (m_eventList s). m_eventid x \<noteq> ?i"
    using ids_below [OF assms(1,3)] by fastforce
  have "addEvent t s = ((?i, m_eventList s = [] \<or> getCycle t < getCycle (hd (m_eventList s))),
     s\<lparr>m_lastEventId := ?i, m_eventIds := insert ?i (m_eventIds s),
       m_eventList := pq_push (t\<lparr>m_eventid := ?i\<rparr>) (m_eventList s)\<rparr>)"
    using assms(2,4) by (simp add: addEvent_def Let_def)
  moreover have "?i \<notin> fst ` pending s" using fresh by (auto simp: pending_def)
  moreover have "pending (s\<lparr>m_lastEventId := ?i, m_eventIds := insert ?i (m_eventIds s),
       m_eventList := pq_push (t\<lparr>m_eventid := ?i\<rparr>) (m_eventList s)\<rparr>) = insert (?i, getCycle t, e_f t) (pending s)"
  proof -
    have "{x \<in> set (m_eventList s). m_eventid x \<in> insert ?i (m_eventIds s)}
        = {x \<in> set (m_eventList s). m_eventid x \<in> m_eventIds s}" using fresh by blast
    moreover have "{x \<in> insert (t\<lparr>m_eventid := ?i\<rparr>) (set (m_eventList s)). m_eventid x \<in> insert ?i (m_eventIds s)}
        = insert (t\<lparr>m_eventid := ?i\<rparr>) {x \<in> set (m_eventList s). m_eventid x \<in> insert ?i (m_eventIds s)}" by auto
    ultimately show ?thesis by (simp add: pending_def)
  qed
  ultimately show ?thesis by simp
qed

lemma pending_stop:
  assumes "sched_ok s"
  shows "case stopEvent i s of (b, s') \<Rightarrow> b = (i \<in> fst ` pending s) \<and> pending s' = {e \<in> pending s. fst e \<noteq> i}"
proof -
  have z: "\<forall>x \<in> set (m_eventList s). m_eventid x \<noteq> 0"
    using assms by (fastforce simp: sched_ok_def)
  have listed: "\<forall>j \<in> m_eventIds s. \<exists>x \<in> set (m_eventList s). m_eventid x = j"
    using assms unfolding sched_ok_def by blast
  have "i \<in> fst ` pending s \<longleftrightarrow> i \<in> m_eventIds s"
    using listed by (auto simp: pending_def image_iff)
  then show ?thesis using z listed by (auto simp: stopEvent_def pending_def image_iff)
qed

lemma pending_wake:
  assumes "sched_ok s" "s_state s = STATE_RUNNING" "m_eventList s \<noteq> []"
  shows "case sched_wake False s of
      Ret (Run e) s' \<Rightarrow> (m_eventid e, getCycle e, e_f e) \<in> pending s
        \<and> (\<forall>(j, c, f) \<in> pending s. getCycle e \<le> c)
        \<and> pending s' = pending s - {(m_eventid e, getCycle e, e_f e)}
    | Ret (Stopped e) s' \<Rightarrow> m_eventid e \<notin> fst ` pending s \<and> pending s' = pending s
    | _ \<Rightarrow> False"
proof -
  obtain e q where q: "m_eventList s = e # q" using assms(3) by (cases "m_eventList s") auto
  then have d: "\<forall>x \<in> set q. m_eventid x \<noteq> m_eventid e" and c: "\<forall>x \<in> set q. getCycle e \<le> getCycle x"
    using assms(1) by (auto simp: sched_ok_def image_iff)
  show ?thesis
  proof (cases "m_eventid e \<in> m_eventIds s")
    case True
    let ?s = "s\<lparr>m_eventList := q, m_eventIds := m_eventIds s - {m_eventid e}\<rparr>"
    have "pending ?s = pending s - {(m_eventid e, getCycle e, e_f e)}"
      using q d True by (auto simp: pending_def)
    moreover have "\<forall>(j, c, f) \<in> pending s. getCycle e \<le> c" "(m_eventid e, getCycle e, e_f e) \<in> pending s"
      using q c True by (auto simp: pending_def)
    ultimately show ?thesis using True q assms(2) by (simp add: sched_wake_def)
  next
    case False
    have "pending (s\<lparr>m_eventList := q\<rparr>) = pending s" "m_eventid e \<notin> fst ` pending s"
      using q False by (auto simp: pending_def)
    then show ?thesis using False q assms(2) by (simp add: sched_wake_def)
  qed
qed

text \<open>
  Claim C26: the scheduler implements a set of pending events. Entering an event gives it an id
  no pending event has and adds it; stopping one succeeds exactly when it is pending and then
  removes it; and a timeout runs a pending event no other is earlier than and removes it, or
  throws away an event that had been stopped.
\<close>

theorem scheduler_refines_pending_set:
  assumes "sched_ok s" "s_state s = STATE_RUNNING" "m_lastEventId s < 0xFFFFFFFF"
    "m_eventid t = 0" "m_eventList s \<noteq> []"
  shows "(case addEvent t s of ((i, _), s') \<Rightarrow>
      i \<notin> fst ` pending s \<and> pending s' = insert (i, getCycle t, e_f t) (pending s))
    \<and> (case stopEvent i s of (b, s') \<Rightarrow> b = (i \<in> fst ` pending s) \<and> pending s' = {e \<in> pending s. fst e \<noteq> i})
    \<and> (case sched_wake False s of
      Ret (Run e) s' \<Rightarrow> (m_eventid e, getCycle e, e_f e) \<in> pending s
        \<and> (\<forall>(j, c, f) \<in> pending s. getCycle e \<le> c)
        \<and> pending s' = pending s - {(m_eventid e, getCycle e, e_f e)}
    | Ret (Stopped e) s' \<Rightarrow> m_eventid e \<notin> fst ` pending s \<and> pending s' = pending s
    | _ \<Rightarrow> False)"
  by (intro conjI, rule pending_add [OF assms(1-4)], rule pending_stop [OF assms(1)], rule pending_wake [OF assms(1,2,5)])

definition sample_event :: "nat \<Rightarrow> u32 \<Rightarrow> unit sched_event" where
  "sample_event c i = \<lparr>getCycle = c, m_eventid = i, e_f = ()\<rparr>"

theorem scheduler_refines_pending_set_witness:
  "case sched_wake False \<lparr>m_lastEventId = 2, m_eventList = [sample_event 5 2, sample_event 9 1],
      m_eventIds = {1, 2}, s_state = STATE_RUNNING\<rparr> of
     Ret (Run e) s' \<Rightarrow> pending s' = {(1, 9, ())} | _ \<Rightarrow> False"
proof -
  let ?s = "\<lparr>m_lastEventId = 2, m_eventList = [sample_event 5 2, sample_event 9 1],
      m_eventIds = {1, 2}, s_state = STATE_RUNNING\<rparr>"
  have ok: "sched_ok ?s" by (simp add: sched_ok_def sample_event_def)
  have wake: "sched_wake False ?s = Ret (Run (sample_event 5 2)) (?s\<lparr>m_eventList := [sample_event 9 1], m_eventIds := {1}\<rparr>)"
    by (auto simp: sched_wake_def sample_event_def)
  have pend: "pending ?s = {(2, 5, ()), (1, 9, ())}" by (auto simp: pending_def sample_event_def image_iff)
  have "m_eventid (sample_event 7 0) = 0" "getCycle (sample_event 5 2) = 5" "m_eventid (sample_event 5 2) = 2"
    by (simp_all add: sample_event_def)
  then show ?thesis
    using scheduler_refines_pending_set [OF ok, of "sample_event 7 0" 1] unfolding wake pend by auto
qed

section \<open>The scheduler thread\<close>

text \<open>
  Where the thread stands: before the test of its loop, past it, waiting for any signal, waiting
  for a signal until the cycle the earliest event had when it looked, woken by a signal, or ended.
\<close>

datatype sched_thread = Looping | Past_test | Wait_signal | Wait_until nat | Woken | Thread_ended

definition notify :: "bool \<Rightarrow> sched_thread \<Rightarrow> sched_thread" where
  "notify b th = (case th of Wait_signal \<Rightarrow> if b then Woken else th | Wait_until c \<Rightarrow> if b then Woken else th | _ \<Rightarrow> th)"

definition sched_test :: "'f sched \<Rightarrow> sched_thread" where
  "sched_test s = (if s_state s \<noteq> STATE_TERMINATED then Past_test else Thread_ended)"

definition sched_wait :: "'f sched \<Rightarrow> sched_thread" where
  "sched_wait s = (case m_eventList s of [] \<Rightarrow> Wait_signal | t # q \<Rightarrow> Wait_until (getCycle t))"

text \<open>
  The steps of the thread and of those that call it, with a clock. The loop's test is made
  without the lock. Ids are taken not to wrap: an event is entered only while there are ids left.
  Nothing in the program calls \<open>stop\<close>; a call behind \<open>shutdown\<close> would leave a closing scheduler with an
  empty queue, and is left out. \<open>spurious\<close> allows wake-ups without a signal.
\<close>

inductive sched_step ::
    "bool \<Rightarrow> nat \<times> 'f sched \<times> sched_thread \<Rightarrow> nat \<times> 'f sched \<times> sched_thread \<Rightarrow> bool" for spurious where
  tick: "n \<le> n' \<Longrightarrow> sched_step spurious (n, s, th) (n', s, th)"
| add: "m_eventid t = 0 \<Longrightarrow> m_lastEventId s < 0xFFFFFFFF
     \<Longrightarrow> sched_step spurious (n, s, th) (n, snd (addEvent t s), notify (snd (fst (addEvent t s))) th)"
| stopped: "sched_step spurious (n, s, th) (n, snd (stopEvent i s), th)"
| close: "s_state s \<noteq> STATE_TERMINATED \<Longrightarrow> sched_step spurious (n, s, th) (n, sched_stop s, th)"
| shut: "sched_step spurious (n, s, th) (n, sched_shutdown s, th)"
| tests: "sched_step spurious (n, s, Looping) (n, s, sched_test s)"
| waits: "sched_step spurious (n, s, Past_test) (n, s, sched_wait s)"
| spurious: "spurious \<Longrightarrow> sched_step spurious (n, s, th) (n, s, notify True th)"
| signalled: "sched_wake True s = Ret r s' \<Longrightarrow> sched_step spurious (n, s, Woken) (n, s', Looping)"
| timed_out: "c \<le> n \<Longrightarrow> sched_wake False s = Ret r s' \<Longrightarrow> sched_step spurious (n, s, Wait_until c) (n, s', Looping)"

definition sched_reachable :: "nat \<times> 'f sched \<times> sched_thread \<Rightarrow> bool" where
  "sched_reachable x \<longleftrightarrow> (\<exists>n. (sched_step True)\<^sup>*\<^sup>* (n, sched_start, Looping) x)"

definition due_ok :: "nat \<times> 'f sched \<times> sched_thread \<Rightarrow> bool" where
  "due_ok x \<longleftrightarrow> (case x of (n, s, th) \<Rightarrow> sched_ok s \<and>
     (case th of Wait_until c \<Rightarrow> s_state s = STATE_TERMINATED \<or>
        (m_eventList s \<noteq> [] \<and> getCycle (hd (m_eventList s)) \<le> c) | _ \<Rightarrow> True))"

lemma due_ok_step: "sched_step spurious x y \<Longrightarrow> due_ok x \<Longrightarrow> due_ok y"
proof (induction rule: sched_step.induct)
  case (add t s n th)
  then show ?case
    using sched_ok_add [of s t]
    by (cases th) (auto simp: due_ok_def addEvent_def Let_def hd_pq_push min_def notify_def)
next
  case (stopped n s th i)
  then show ?case
    using sched_ok_stop [of s i] by (cases th) (auto simp: due_ok_def stopEvent_def)
next
  case (timed_out c n s r s')
  then show ?case using sched_ok_wake by (auto simp: due_ok_def)
next
  case (signalled s r s' n)
  then show ?case using sched_ok_wake by (auto simp: due_ok_def)
qed (auto simp: due_ok_def sched_stop_def sched_shutdown_def sched_ok_def sched_test_def sched_wait_def notify_def
      split: sched_thread.splits list.splits)

interpretation timing: stepping "sched_step spurious" due_ok for spurious
  by unfold_locales (rule due_ok_step)

text \<open>
  Claim C27: no event runs before its time. However calls from other threads come between, when
  the thread's wait for an event times out the queue is not empty (the call of \<open>top()\<close> is
  defined) and the event it takes is due, even when it is another than the one it waited for.
\<close>

theorem no_event_early:
  assumes "sched_reachable (n, s, Wait_until c)" and "c \<le> n"
  shows "case sched_wake False s of
      Ret (Run e) s' \<Rightarrow> getCycle e \<le> n | Ret (Stopped e) s' \<Rightarrow> True
    | Ret Nothing s' \<Rightarrow> s_state s = STATE_TERMINATED | _ \<Rightarrow> False"
proof -
  obtain m where "(sched_step True)\<^sup>*\<^sup>* (m, sched_start, Looping) (n, s, Wait_until c)"
    using assms(1) by (auto simp: sched_reachable_def)
  moreover have "due_ok (m, sched_start, Looping)" by (simp add: due_ok_def sched_ok_def sched_start_def)
  ultimately have "due_ok (n, s, Wait_until c)" by (rule timing.reached)
  then show ?thesis
    using assms(2) by (cases "m_eventList s") (auto simp: due_ok_def sched_wake_def)
qed

theorem no_event_early_witness:
  "case sched_wake False (snd (addEvent \<lparr>getCycle = 30, m_eventid = 0, e_f = ()\<rparr> sched_start)) of
     Ret (Run e) s' \<Rightarrow> getCycle e \<le> 35 | _ \<Rightarrow> False"
proof -
  let ?t = "\<lparr>getCycle = 30, m_eventid = 0, e_f = ()\<rparr>"
  let ?s = "snd (addEvent ?t sched_start)"
  have list: "m_eventList ?s = [\<lparr>getCycle = 30, m_eventid = 1, e_f = ()\<rparr>]" "s_state ?s = STATE_RUNNING" "1 \<in> m_eventIds ?s"
    by (simp_all add: addEvent_def sched_start_def Let_def next_id_def)
  have one: "sched_step True (0, sched_start, Looping) (0, ?s, Looping)"
    using sched_step.add [of ?t sched_start True 0 Looping] by (simp add: sched_start_def notify_def)
  have two: "sched_step True (0, ?s, Looping) (0, ?s, Past_test)"
    using sched_step.tests [of True 0 ?s] list by (simp add: sched_test_def)
  have three: "sched_step True (0, ?s, Past_test) (0, ?s, Wait_until 30)"
    using sched_step.waits [of True 0 ?s] list by (simp add: sched_wait_def)
  have four: "sched_step True (0, ?s, Wait_until 30) (35, ?s, Wait_until 30)" by (rule sched_step.tick) simp
  have "sched_reachable (35, ?s, Wait_until 30)"
    unfolding sched_reachable_def
    using one two three four by (meson rtranclp.rtrancl_into_rtrancl rtranclp.rtrancl_refl)
  then have "case sched_wake False ?s of Ret (Run e) s' \<Rightarrow> getCycle e \<le> 35 | Ret (Stopped e) s' \<Rightarrow> True
    | Ret Nothing s' \<Rightarrow> s_state ?s = STATE_TERMINATED | _ \<Rightarrow> False" by (rule no_event_early) simp
  then show ?thesis using list by (simp add: sched_wake_def)
qed

section \<open>Dispatcher\<close>

text \<open>
  The thread: before the test of its loop, past it, waiting for a signal with the queue empty,
  woken, with a task in hand, or ended. \<open>accepted\<close> and \<open>handled\<close> are not in the program: the
  tasks taken into the queue, and those run or found expired (with whether they were run).
\<close>

datatype 'f disp_thread = Round | Tested | Waiting | Looking | In_hand "'f task" | Ended

record 'f disp =
  m_taskList :: "'f task list"
  m_threadState :: thread_state
  thread :: "'f disp_thread"
  accepted :: "'f task list"
  handled :: "('f task \<times> bool) list"

definition disp_start :: "'f disp" where
  "disp_start = \<lparr>m_taskList = [], m_threadState = STATE_RUNNING, thread = Round, accepted = [], handled = []\<rparr>"

text \<open>A task that comes when the thread does not run is dropped (and never deleted).\<close>

definition addTask :: "'f task \<Rightarrow> bool \<Rightarrow> 'f disp \<Rightarrow> 'f disp" where
  "addTask t push_front s =
     (if m_threadState s \<noteq> STATE_RUNNING then s
      else s\<lparr>m_taskList := (if push_front then t # m_taskList s else m_taskList s @ [t]),
             accepted := accepted s @ [t],
             thread := (if m_taskList s = [] \<and> thread s = Waiting then Looking else thread s)\<rparr>)"

text \<open>The helper of \<open>Telnet.cpp\<close>: a droppable task expires after its delay.\<close>

definition addTalkerTaskInternal :: "nat \<Rightarrow> bool \<Rightarrow> u32 \<Rightarrow> 'f \<Rightarrow> 'f disp \<Rightarrow> 'f disp" where
  "addTalkerTaskInternal now droppable delay func s =
     addTask (if droppable then createExpiringTask now delay func else createTask func) False s"

text \<open>
  One round of the thread, in pieces: the test of the loop, made without the lock; under the lock, up
  to the wait or to the task; the task.
\<close>

definition disp_test :: "'f disp \<Rightarrow> 'f disp" where
  "disp_test s = s\<lparr>thread := (if m_threadState s = STATE_TERMINATED then Ended else Tested)\<rparr>"

definition disp_look :: "'f disp \<Rightarrow> 'f disp" where
  "disp_look s = (case m_taskList s of
     t # q \<Rightarrow> if m_threadState s \<noteq> STATE_TERMINATED then s\<lparr>m_taskList := q, thread := In_hand t\<rparr> else s\<lparr>thread := Round\<rparr>
   | [] \<Rightarrow> s\<lparr>thread := Round\<rparr>)"

definition disp_enter :: "'f disp \<Rightarrow> 'f disp" where
  "disp_enter s = (if m_taskList s = [] then s\<lparr>thread := Waiting\<rparr> else disp_look s)"

definition disp_run :: "nat \<Rightarrow> 'f task \<Rightarrow> 'f disp \<Rightarrow> 'f disp" where
  "disp_run now t s = s\<lparr>thread := Round, handled := handled s @ [(t, \<not> hasExpired now t)]\<rparr>"

definition disp_stop :: "'f disp \<Rightarrow> 'f disp" where
  "disp_stop s = s\<lparr>m_threadState := STATE_CLOSING\<rparr>"

text \<open>
  \<open>flush\<close> runs what is queued, expired or not, while \<open>shutdown\<close> holds \<open>m_taskLock\<close>. That mutex is
  not recursive: a task whose run (or the sending of messages behind it) enters a task takes it
  a second time and never returns. \<open>enters\<close> says which tasks do.
\<close>

fun flush :: "('f \<Rightarrow> bool) \<Rightarrow> 'f task list \<Rightarrow> (std_exn, 'f disp, unit) prog" where
  "flush enters [] = skip"
| "flush enters (t # q) =
     seq (modify (\<lambda>s. s\<lparr>m_taskList := q\<rparr>))
     (if enters (m_f t) then hang
      else seq (modify (\<lambda>s. s\<lparr>handled := handled s @ [(t, True)]\<rparr>)) (flush enters q))"

definition shutdown :: "('f \<Rightarrow> bool) \<Rightarrow> (std_exn, 'f disp, unit) prog" where
  "shutdown enters =
     seq (modify (\<lambda>s. s\<lparr>m_threadState := STATE_TERMINATED\<rparr>)) (bind (gets m_taskList) (flush enters))"

text \<open>
  The steps of the thread and of its callers. \<open>spurious\<close> allows wake-ups without a signal,
  \<open>fronts\<close> tasks pushed to the front.
\<close>

inductive disp_step :: "bool \<Rightarrow> bool \<Rightarrow> 'f disp \<Rightarrow> 'f disp \<Rightarrow> bool" for spurious fronts where
  task: "front \<longrightarrow> fronts \<Longrightarrow> disp_step spurious fronts s (addTask t front s)"
| tests: "thread s = Round \<Longrightarrow> disp_step spurious fronts s (disp_test s)"
| enter: "thread s = Tested \<Longrightarrow> disp_step spurious fronts s (disp_enter s)"
| wake: "thread s = Waiting \<Longrightarrow> spurious \<Longrightarrow> disp_step spurious fronts s (s\<lparr>thread := Looking\<rparr>)"
| look: "thread s = Looking \<Longrightarrow> disp_step spurious fronts s (disp_look s)"
| run: "thread s = In_hand t \<Longrightarrow> disp_step spurious fronts s (disp_run now t s)"
| stop: "m_threadState s \<noteq> STATE_TERMINATED \<Longrightarrow> disp_step spurious fronts s (disp_stop s)"
| shut: "shutdown enters s = Ret () s' \<Longrightarrow> disp_step spurious fronts s s'"

inductive_cases disp_stepE: "disp_step spurious fronts s s'"

definition in_hand :: "'f disp_thread \<Rightarrow> 'f task list" where
  "in_hand th = (case th of In_hand t \<Rightarrow> [t] | _ \<Rightarrow> [])"

lemma in_hand_simps [simp]:
  "in_hand Round = []" "in_hand Tested = []" "in_hand Waiting = []" "in_hand Looking = []" "in_hand Ended = []" "in_hand (In_hand t) = [t]"
  by (simp_all add: in_hand_def)

text \<open>No task is lost or handled twice; without tasks put to the front they keep their order.\<close>

definition disp_inv :: "bool \<Rightarrow> 'f disp \<Rightarrow> bool" where
  "disp_inv fronts s \<longleftrightarrow>
     mset (accepted s) = mset (map fst (handled s)) + mset (in_hand (thread s)) + mset (m_taskList s)
   \<and> (\<not> fronts \<and> m_threadState s \<noteq> STATE_TERMINATED
        \<longrightarrow> accepted s = map fst (handled s) @ in_hand (thread s) @ m_taskList s)"

lemma flush_eval:
  "flush enters q s = (if \<exists>t \<in> set q. enters (m_f t) then Hang
     else Ret () (s\<lparr>m_taskList := (if q = [] then m_taskList s else []), handled := handled s @ map (\<lambda>t. (t, True)) q\<rparr>))"
proof (induction q arbitrary: s)
  case (Cons t q)
  then show ?case by (cases "enters (m_f t)") (auto simp: out_simps)
qed (simp add: out_simps)

lemma shutdown_eval:
  "shutdown enters s = (if \<exists>t \<in> set (m_taskList s). enters (m_f t) then Hang
     else Ret () (s\<lparr>m_threadState := STATE_TERMINATED, m_taskList := [],
       handled := handled s @ map (\<lambda>t. (t, True)) (m_taskList s)\<rparr>))"
  by (simp add: shutdown_def seq_def bind_def prog_eval flush_eval)

lemma disp_inv_step: "disp_step sp fr s s' \<Longrightarrow> disp_inv fr s \<Longrightarrow> disp_inv fr s'"
proof (induction rule: disp_step.induct)
  case (task front s t)
  then show ?case by (cases "thread s") (auto simp: disp_inv_def addTask_def)
next
  case (enter s)
  then show ?case by (cases "m_taskList s") (auto simp: disp_inv_def disp_enter_def disp_look_def)
next
  case (look s)
  then show ?case by (cases "m_taskList s") (auto simp: disp_inv_def disp_look_def)
next
  case (shut enters s s')
  then show ?case by (auto simp: disp_inv_def shutdown_eval image_mset.compositionality comp_def
        split: if_splits)
qed (auto simp: disp_inv_def disp_test_def disp_run_def disp_stop_def)

interpretation books: stepping "disp_step spurious fronts" "disp_inv fronts" for spurious fronts
  by unfold_locales (rule disp_inv_step)

definition disp_reachable :: "bool \<Rightarrow> 'f disp \<Rightarrow> bool" where
  "disp_reachable fronts s \<longleftrightarrow> (disp_step True fronts)\<^sup>*\<^sup>* disp_start s"

text \<open>
  Claim C28: the dispatcher loses no task and runs none twice: at every moment the tasks it
  accepted are those already handled, the one in hand and those queued. As long as no task is
  pushed to the front and it is not shut down, it handles them in the order they were accepted.
\<close>

theorem dispatcher_keeps_tasks:
  assumes "disp_reachable fronts s"
  shows "mset (accepted s) = mset (map fst (handled s)) + mset (in_hand (thread s)) + mset (m_taskList s)
    \<and> (fronts \<or> m_threadState s = STATE_TERMINATED
        \<or> accepted s = map fst (handled s) @ in_hand (thread s) @ m_taskList s)"
proof -
  have "disp_inv fronts s"
    using assms unfolding disp_reachable_def by (rule books.reached) (simp add: disp_inv_def disp_start_def)
  then show ?thesis by (auto simp: disp_inv_def)
qed

theorem dispatcher_keeps_tasks_witness:
  "accepted (addTask (createTask ()) False disp_start) = [createTask ()]
   \<and> mset (accepted (addTask (createTask ()) False disp_start))
     = mset (map fst (handled (addTask (createTask ()) False disp_start)))
       + mset (in_hand (thread (addTask (createTask ()) False disp_start)))
       + mset (m_taskList (addTask (createTask ()) False disp_start))"
proof -
  have "disp_reachable False (addTask (createTask ()) False disp_start)"
    unfolding disp_reachable_def by (rule r_into_rtranclp, rule disp_step.task) simp
  then show ?thesis using dispatcher_keeps_tasks by (auto simp: addTask_def disp_start_def)
qed

text \<open>A thread that is past its test, or waits, when the state is \<open>STATE_TERMINATED\<close>.\<close>

definition disp_stuck :: "'f disp \<Rightarrow> bool" where
  "disp_stuck s \<longleftrightarrow> m_threadState s = STATE_TERMINATED \<and> m_taskList s = [] \<and> thread s \<in> {Tested, Waiting}"

definition sched_stuck :: "nat \<times> 'f sched \<times> sched_thread \<Rightarrow> bool" where
  "sched_stuck x \<longleftrightarrow> (case x of (n, s, th) \<Rightarrow>
     s_state s = STATE_TERMINATED \<and> m_eventList s = [] \<and> m_eventIds s = {} \<and> th \<in> {Past_test, Wait_signal})"

interpretation disp_wait: stepping "disp_step False fronts" disp_stuck for fronts
proof
  fix s s' :: "'f disp"
  assume "disp_step False fronts s s'" and "disp_stuck s"
  then show "disp_stuck s'"
    by (cases rule: disp_step.cases)
      (auto simp: disp_stuck_def addTask_def disp_enter_def shutdown_eval split: if_splits)
qed

interpretation sched_wait: stepping "sched_step False" sched_stuck
proof
  fix x y :: "nat \<times> 'f sched \<times> sched_thread"
  assume "sched_step False x y" and "sched_stuck x"
  then show "sched_stuck y"
    by (cases rule: sched_step.cases)
      (auto simp: sched_stuck_def addEvent_def stopEvent_def sched_shutdown_def sched_wait_def notify_def split: sched_thread.splits)
qed

text \<open>
  \<open>shutdown\<close> does not wake the threads. A dispatcher thread that waits for a task, or has
  just tested its loop, when \<open>shutdown\<close> returns, waits for ever unless the wait ends by itself; so does a
  scheduler thread that waits with no event. No call signals them any more, so the \<open>join\<close> of \<open>shutdownAndWait\<close>,
  which \<open>main\<close> ends with, does not return.
\<close>

theorem shutdown_leaves_thread_waiting:
  assumes "thread s \<in> {Tested, Waiting}" and "shutdown enters s = Ret () s'" and "(disp_step False fronts)\<^sup>*\<^sup>* s' s''"
    and "th \<in> {Past_test, Wait_signal}" and "(sched_step False)\<^sup>*\<^sup>* (n, sched_shutdown e, th) (n', e', th')"
  shows "thread s'' \<in> {Tested, Waiting} \<and> th' \<in> {Past_test, Wait_signal}"
proof
  have "disp_stuck s'" using assms(1,2) by (auto simp: disp_stuck_def shutdown_eval split: if_splits)
  with assms(3) have "disp_stuck s''" by (rule disp_wait.reached)
  then show "thread s'' \<in> {Tested, Waiting}" by (simp add: disp_stuck_def)
  have "sched_stuck (n, sched_shutdown e, th)" using assms(4) by (simp add: sched_stuck_def sched_shutdown_def)
  with assms(5) have "sched_stuck (n', e', th')" by (rule sched_wait.reached)
  then show "th' \<in> {Past_test, Wait_signal}" by (simp add: sched_stuck_def)
qed

theorem shutdown_leaves_thread_waiting_witness:
  "thread (disp_enter (disp_test (disp_start :: unit disp))) = Waiting
   \<and> (case shutdown (\<lambda>_ :: unit. True) (disp_enter (disp_test disp_start)) of
        Ret _ s' \<Rightarrow> thread s' \<in> {Tested, Waiting} | _ \<Rightarrow> False)
   \<and> sched_wait (sched_start :: unit sched) = Wait_signal"
proof -
  let ?s = "disp_enter (disp_test (disp_start :: unit disp))"
  have w: "thread ?s = Waiting" by (simp add: disp_enter_def disp_test_def disp_start_def)
  have e: "shutdown (\<lambda>_ :: unit. True) ?s = Ret () (?s\<lparr>m_threadState := STATE_TERMINATED\<rparr>)"
    by (simp add: shutdown_eval disp_enter_def disp_test_def disp_start_def)
  have "thread (?s\<lparr>m_threadState := STATE_TERMINATED\<rparr>) \<in> {Tested, Waiting} \<and> Wait_signal \<in> {Past_test, Wait_signal}"
    by (rule shutdown_leaves_thread_waiting [of ?s _ _ False _ Wait_signal 0 "sched_start :: unit sched" 0 "sched_shutdown sched_start"])
      (use w e in auto)
  then show ?thesis using w e by (simp add: sched_wait_def sched_start_def)
qed

text \<open>
  \<open>shutdown\<close> ends exactly when no queued task enters a task: it flushes the queue under a
  lock that is not recursive, and a task that enters one (as the release of every message does)
  waits for that lock for ever.
\<close>

theorem shutdown_deadlock:
  "(shutdown enters s = Hang) = (\<exists>t \<in> set (m_taskList s). enters (m_f t))"
  by (simp add: shutdown_eval)

end
