(* ===== verification/EventFlow.thy ===== *)
theory EventFlow
  imports Tasks
begin

text \<open>
  The scheduler and the dispatcher together (\<open>src/Common/Scheduler.cpp\<close>, \<open>Dispatcher.cpp\<close>): the thread of the
  scheduler hands the task of every event that is due to the dispatcher. The steps are those of both
  machines while the server runs, with \<open>stop\<close> and \<open>shutdown\<close> of neither. \<open>added\<close>, \<open>passed\<close>, \<open>thrown\<close> and \<open>stopped_ids\<close>
  are not in the program: the events entered, those handed over, those deleted, and the ids for which
  \<open>stopEvent\<close> returned true.
\<close>

record 'f flow =
  clock :: nat
  sched_of :: "'f sched"
  sched_at :: sched_thread
  disp_of :: "'f disp"
  added :: "'f sched_event list"
  passed :: "'f sched_event list"
  thrown :: "'f sched_event list"
  stopped_ids :: "u32 set"

definition flow_start :: "nat \<Rightarrow> 'f flow" where
  "flow_start n = \<lparr>clock = n, sched_of = sched_start, sched_at = Looping, disp_of = disp_start,
     added = [], passed = [], thrown = [], stopped_ids = {}\<rparr>"

text \<open>The thread of the scheduler after a time-out, with what it does once the lock is released.\<close>

definition hand_over :: "'f woken \<Rightarrow> 'f flow \<Rightarrow> 'f flow" where
  "hand_over r x = (case r of
     Nothing \<Rightarrow> x
   | Run e \<Rightarrow> x\<lparr>disp_of := addTask (as_task e) False (disp_of x), passed := passed x @ [e]\<rparr>
   | Stopped e \<Rightarrow> x\<lparr>thrown := thrown x @ [e]\<rparr>)"

inductive flow_step :: "bool \<Rightarrow> bool \<Rightarrow> 'f flow \<Rightarrow> 'f flow \<Rightarrow> bool" for spurious fronts where
  tick: "clock x \<le> n \<Longrightarrow> flow_step spurious fronts x (x\<lparr>clock := n\<rparr>)"
| add: "m_eventid t = 0 \<Longrightarrow> m_lastEventId (sched_of x) < 0xFFFFFFFF \<Longrightarrow> addEvent t (sched_of x) = ((i, b), s)
     \<Longrightarrow> flow_step spurious fronts x (x\<lparr>sched_of := s, sched_at := notify b (sched_at x), added := added x @ [t\<lparr>m_eventid := i\<rparr>]\<rparr>)"
| stop_event: "stopEvent i (sched_of x) = (b, s)
     \<Longrightarrow> flow_step spurious fronts x (x\<lparr>sched_of := s, stopped_ids := (if b then insert i (stopped_ids x) else stopped_ids x)\<rparr>)"
| tests: "sched_at x = Looping \<Longrightarrow> flow_step spurious fronts x (x\<lparr>sched_at := sched_test (sched_of x)\<rparr>)"
| waits: "sched_at x = Past_test \<Longrightarrow> flow_step spurious fronts x (x\<lparr>sched_at := sched_wait (sched_of x)\<rparr>)"
| spurious: "spurious \<Longrightarrow> flow_step spurious fronts x (x\<lparr>sched_at := notify True (sched_at x)\<rparr>)"
| signalled: "sched_at x = Woken \<Longrightarrow> sched_wake True (sched_of x) = Ret r s
     \<Longrightarrow> flow_step spurious fronts x (hand_over r (x\<lparr>sched_of := s, sched_at := Looping\<rparr>))"
| timed_out: "sched_at x = Wait_until c \<Longrightarrow> c \<le> clock x \<Longrightarrow> sched_wake False (sched_of x) = Ret r s
     \<Longrightarrow> flow_step spurious fronts x (hand_over r (x\<lparr>sched_of := s, sched_at := Looping\<rparr>))"
| disp: "disp_step spurious fronts (disp_of x) d \<Longrightarrow> m_threadState d = STATE_RUNNING
     \<Longrightarrow> flow_step spurious fronts x (x\<lparr>disp_of := d\<rparr>)"

text \<open>The scheduler's part of a step is one of its own steps or none.\<close>

lemma flow_sched_step:
  "flow_step spurious fronts x y \<Longrightarrow>
     (sched_step spurious)\<^sup>=\<^sup>= (clock x, sched_of x, sched_at x) (clock y, sched_of y, sched_at y)"
proof (induction rule: flow_step.induct)
  case (add t x i b s)
  then show ?case using sched_step.add [of t "sched_of x" spurious "clock x" "sched_at x"] by simp
next
  case (stop_event i x b s)
  then show ?case using sched_step.stopped [of spurious "clock x" "sched_of x" "sched_at x" i] by simp
next
  case (signalled x r s)
  then show ?case using sched_step.signalled [of "sched_of x" r s spurious "clock x"]
    by (cases r) (simp_all add: hand_over_def)
next
  case (timed_out x c r s)
  then show ?case using sched_step.timed_out [of c "clock x" "sched_of x" r s spurious]
    by (cases r) (simp_all add: hand_over_def)
next
  case (tick x n)
  then show ?case using sched_step.tick [of "clock x" n spurious "sched_of x" "sched_at x"] by simp
next
  case (tests x)
  then show ?case using sched_step.tests [of spurious "clock x" "sched_of x"] by simp
next
  case (waits x)
  then show ?case using sched_step.waits [of spurious "clock x" "sched_of x"] by simp
next
  case (spurious x)
  then show ?case using sched_step.spurious [of spurious "clock x" "sched_of x" "sched_at x"] by simp
qed simp

text \<open>
  Every event that was added is in the queue, handed over or deleted; it is deleted only if it was
  stopped, and handed over only if it was not and is due.
\<close>

definition flow_inv :: "bool \<Rightarrow> 'f flow \<Rightarrow> bool" where
  "flow_inv fronts x \<longleftrightarrow>
     due_ok (clock x, sched_of x, sched_at x) \<and> s_state (sched_of x) = STATE_RUNNING
   \<and> distinct (map m_eventid (added x)) \<and> (\<forall>t \<in> set (added x). m_eventid t \<le> m_lastEventId (sched_of x))
   \<and> mset (added x) = mset (m_eventList (sched_of x)) + mset (passed x) + mset (thrown x)
   \<and> (\<forall>t \<in> set (m_eventList (sched_of x)). m_eventid t \<in> m_eventIds (sched_of x) \<longleftrightarrow> m_eventid t \<notin> stopped_ids x)
   \<and> stopped_ids x \<subseteq> m_eventid ` set (added x)
   \<and> (\<forall>t \<in> set (passed x). m_eventid t \<notin> stopped_ids x \<and> getCycle t \<le> clock x)
   \<and> (\<forall>t \<in> set (thrown x). m_eventid t \<in> stopped_ids x)
   \<and> disp_inv fronts (disp_of x) \<and> m_threadState (disp_of x) = STATE_RUNNING
   \<and> mset (map as_task (passed x)) \<subseteq># mset (accepted (disp_of x))"

lemma disp_accepted_grows: "disp_step sp fr d d' \<Longrightarrow> mset (accepted d) \<subseteq># mset (accepted d')"
  by (induction rule: disp_step.induct)
    (auto simp: addTask_def disp_test_def disp_enter_def disp_look_def disp_run_def disp_stop_def shutdown_eval
       split: list.splits if_splits)

lemma added_split:
  "mset xs = mset a + mset b + mset c \<Longrightarrow> set xs = set a \<union> set b \<union> set c"
  by (metis set_mset_mset set_mset_union)

lemma hand_over_inv:
  assumes inv: "flow_inv fr x" and wake: "sched_wake r' (sched_of x) = Ret r s"
    and due: "\<not> r' \<Longrightarrow> \<exists>c. sched_at x = Wait_until c \<and> c \<le> clock x"
    and ok: "due_ok (clock x, s, Looping)"
  shows "flow_inv fr (hand_over r (x\<lparr>sched_of := s, sched_at := Looping\<rparr>))"
proof (cases r)
  case Nothing
  then have "s = sched_of x" using wake by (auto simp: sched_wake_def split: if_splits list.splits)
  then show ?thesis using inv ok Nothing by (simp add: flow_inv_def hand_over_def)
next
  case (Run e)
  then obtain q where q: "m_eventList (sched_of x) = e # q" "m_eventid e \<in> m_eventIds (sched_of x)" "\<not> r'"
      "s = (sched_of x)\<lparr>m_eventList := q, m_eventIds := m_eventIds (sched_of x) - {m_eventid e}\<rparr>"
    using wake by (auto simp: sched_wake_def split: if_splits list.splits)
  have "getCycle e \<le> clock x" using due [OF q(3)] inv q(1) by (auto simp: flow_inv_def due_ok_def)
  moreover have "\<forall>t \<in> set q. m_eventid t \<noteq> m_eventid e"
    using inv q(1) by (auto simp: flow_inv_def due_ok_def sched_ok_def image_iff)
  moreover have "disp_inv fr (addTask (as_task e) False (disp_of x))"
    using inv disp_inv_step [OF disp_step.task [of False fr True "disp_of x" "as_task e"]] by (simp add: flow_inv_def)
  moreover have "accepted (addTask (as_task e) False (disp_of x)) = accepted (disp_of x) @ [as_task e]"
      "m_threadState (addTask (as_task e) False (disp_of x)) = STATE_RUNNING"
    using inv by (simp_all add: flow_inv_def addTask_def)
  ultimately show ?thesis using inv q ok Run by (auto simp: flow_inv_def hand_over_def)
next
  case (Stopped e)
  then obtain q where q: "m_eventList (sched_of x) = e # q" "m_eventid e \<notin> m_eventIds (sched_of x)"
      "s = (sched_of x)\<lparr>m_eventList := q\<rparr>"
    using wake by (auto simp: sched_wake_def split: if_splits list.splits)
  then show ?thesis using inv ok Stopped by (auto simp: flow_inv_def hand_over_def)
qed

lemma flow_inv_step: "flow_step sp fr x y \<Longrightarrow> flow_inv fr x \<Longrightarrow> flow_inv fr y"
proof -
  assume step: "flow_step sp fr x y" and inv: "flow_inv fr x"
  have ok: "due_ok (clock y, sched_of y, sched_at y)"
    using flow_sched_step [OF step] due_ok_step inv by (fastforce simp: flow_inv_def)
  from step show ?thesis
  proof cases
    case (add t i b s)
    have run: "s_state (sched_of x) = STATE_RUNNING" using inv by (simp add: flow_inv_def)
    with add(2,4) have s: "i = next_id (m_lastEventId (sched_of x))"
        "s = (sched_of x)\<lparr>m_lastEventId := i, m_eventIds := insert i (m_eventIds (sched_of x)),
           m_eventList := pq_push (t\<lparr>m_eventid := i\<rparr>) (m_eventList (sched_of x))\<rparr>"
      by (auto simp: addEvent_def Let_def)
    have above: "m_lastEventId (sched_of x) < i" using next_id_above [OF add(3)] s(1) by simp
    have old: "m_eventid u < i" if "u \<in> set (added x)" for u
      using inv above that unfolding flow_inv_def by (meson le_less_trans)
    have sets: "set (added x) = set (m_eventList (sched_of x)) \<union> set (passed x) \<union> set (thrown x)"
      using inv unfolding flow_inv_def by (intro added_split) blast
    have new: "i \<notin> m_eventid ` set (added x)" using old by (metis imageE less_irrefl)
    moreover have "i \<notin> stopped_ids x" using new inv unfolding flow_inv_def by blast
    moreover have "mset (pq_push u q) = add_mset u (mset q)" for u :: "'a sched_event" and q
      by (induction u q rule: pq_push.induct) auto
    moreover have "\<forall>u \<in> set (m_eventList (sched_of x)). m_eventid u \<noteq> i" using new sets by blast
    ultimately show ?thesis using inv ok add(1) s above old run
      by (auto simp: flow_inv_def image_iff intro: less_imp_le)
  next
    case (stop_event i b s)
    have ids: "m_eventIds (sched_of x) \<subseteq> m_eventid ` set (m_eventList (sched_of x))" "distinct (map m_eventid (added x))"
      using inv by (auto simp: flow_inv_def due_ok_def sched_ok_def)
    show ?thesis
    proof (cases b)
      case False
      then have "s = sched_of x" using stop_event(2) by (auto simp: stopEvent_def split: if_splits)
      then show ?thesis using inv ok stop_event(1) False by (simp add: flow_inv_def)
    next
      case True
      then have s: "i \<in> m_eventIds (sched_of x)" "s = (sched_of x)\<lparr>m_eventIds := m_eventIds (sched_of x) - {i}\<rparr>"
        using stop_event(2) by (auto simp: stopEvent_def split: if_splits)
      then obtain t where t: "t \<in> set (m_eventList (sched_of x))" "m_eventid t = i" using ids by blast
      have mset: "mset (added x) = mset (m_eventList (sched_of x)) + mset (passed x) + mset (thrown x)"
        using inv by (simp add: flow_inv_def)
      have "mset (map m_eventid (added x)) = mset (map m_eventid (m_eventList (sched_of x) @ passed x @ thrown x))"
        using mset by (simp flip: image_mset_union) (metis mset_map image_mset_union add.assoc)
      then have "distinct (map m_eventid (m_eventList (sched_of x) @ passed x @ thrown x))"
        using ids(2) by (metis mset_eq_imp_distinct_iff)
      then have "\<forall>u \<in> set (passed x). m_eventid u \<noteq> i" using t by auto
      moreover have "i \<in> m_eventid ` set (added x)" using t added_split [OF mset] by blast
      ultimately show ?thesis using inv ok stop_event(1) True s by (auto simp: flow_inv_def)
    qed
  next
    case (signalled r s)
    then show ?thesis using hand_over_inv [OF inv signalled(3)] ok by (cases r) (auto simp: hand_over_def)
  next
    case (timed_out c r s)
    then show ?thesis using hand_over_inv [OF inv timed_out(4)] ok by (cases r) (auto simp: hand_over_def)
  next
    case (disp d)
    then show ?thesis using inv ok disp_inv_step [OF disp(2)] subset_mset.order_trans [OF _ disp_accepted_grows [OF disp(2)]]
      by (auto simp: flow_inv_def)
  qed (use inv ok in \<open>auto simp: flow_inv_def\<close>)
qed

interpretation flow: stepping "flow_step spurious fronts" "flow_inv fronts" for spurious fronts
  by unfold_locales (rule flow_inv_step)

lemma flow_start_inv: "flow_inv fr (flow_start n)"
  by (simp add: flow_inv_def flow_start_def due_ok_def sched_ok_def sched_start_def disp_inv_def disp_start_def)

text \<open>
  Claim C29: while the server runs, a delayed event goes its way once. However the calls of other threads and the
  steps of both threads follow each other, every event that was added is in exactly one of three places: in the
  queue, deleted (only if \<open>stopEvent\<close> had succeeded for it), or handed to the dispatcher (only if it had not, and not
  before its time); and what was handed over is there as a task: waiting, in hand or handled.
\<close>

theorem event_goes_once:
  assumes "(flow_step True fronts)\<^sup>*\<^sup>* (flow_start n) x"
  shows "distinct (map m_eventid (added x))
    \<and> mset (added x) = mset (m_eventList (sched_of x)) + mset (passed x) + mset (thrown x)
    \<and> (\<forall>e \<in> set (thrown x). m_eventid e \<in> stopped_ids x)
    \<and> (\<forall>e \<in> set (passed x). m_eventid e \<notin> stopped_ids x \<and> getCycle e \<le> clock x)
    \<and> mset (map as_task (passed x)) \<subseteq># mset (map fst (handled (disp_of x))) + mset (in_hand (thread (disp_of x))) + mset (m_taskList (disp_of x))"
proof -
  have "flow_inv fronts x" using assms flow_start_inv by (rule flow.reached)
  then have "mset (map as_task (passed x)) \<subseteq># mset (accepted (disp_of x))" "disp_inv fronts (disp_of x)"
    by (simp_all add: flow_inv_def)
  then have "mset (map as_task (passed x))
      \<subseteq># mset (map fst (handled (disp_of x))) + mset (in_hand (thread (disp_of x))) + mset (m_taskList (disp_of x))"
    by (simp only: disp_inv_def)
  then show ?thesis using \<open>flow_inv fronts x\<close> by (simp add: flow_inv_def)
qed

theorem event_goes_once_witness:
  "\<exists>x. (flow_step True False)\<^sup>*\<^sup>* (flow_start 0 :: unit flow) x \<and> length (passed x) = 1
     \<and> mset (map as_task (passed x)) \<subseteq># mset (map fst (handled (disp_of x))) + mset (in_hand (thread (disp_of x))) + mset (m_taskList (disp_of x))"
proof -
  let ?e = "\<lparr>getCycle = 30, m_eventid = 0, e_f = ()\<rparr>"
  let ?s = "snd (addEvent ?e sched_start)"
  let ?x1 = "(flow_start 0)\<lparr>sched_of := ?s, added := [?e\<lparr>m_eventid := 1\<rparr>]\<rparr>"
  let ?x2 = "?x1\<lparr>sched_at := Past_test\<rparr>"
  let ?x3 = "?x1\<lparr>sched_at := Wait_until 30\<rparr>"
  let ?x4 = "?x3\<lparr>clock := 35\<rparr>"
  have s: "?s = \<lparr>m_lastEventId = 1, m_eventList = [?e\<lparr>m_eventid := 1\<rparr>], m_eventIds = {1}, s_state = STATE_RUNNING\<rparr>"
    by (simp add: addEvent_def sched_start_def Let_def next_id_def)
  have "flow_step True False (flow_start 0) ?x1"
    using flow_step.add [of ?e "flow_start 0" 1 True ?s True False]
    by (simp add: flow_start_def sched_start_def notify_def addEvent_def Let_def next_id_def)
  moreover have "flow_step True False ?x1 ?x2"
    using flow_step.tests [of ?x1 True False] s by (simp add: flow_start_def sched_test_def)
  moreover have "flow_step True False ?x2 ?x3"
    using flow_step.waits [of ?x2 True False] s by (simp add: sched_wait_def)
  moreover have "flow_step True False ?x3 ?x4" using flow_step.tick [of ?x3 35 True False] by (simp add: flow_start_def)
  moreover obtain y where y: "flow_step True False ?x4 y" "passed y = [?e\<lparr>m_eventid := 1\<rparr>]"
    using flow_step.timed_out [of ?x4 30 "Run (?e\<lparr>m_eventid := 1\<rparr>)" "?s\<lparr>m_eventList := [], m_eventIds := {}\<rparr>" True False] s
    by (fastforce simp: sched_wake_def hand_over_def flow_start_def)
  ultimately have r: "(flow_step True False)\<^sup>*\<^sup>* (flow_start 0) y"
    by (meson rtranclp.rtrancl_into_rtrancl rtranclp.rtrancl_refl)
  from event_goes_once [OF r] r y(2) show ?thesis by (intro exI [of _ y]) simp
qed

end
