(* ===== verification/Services.thy ===== *)
theory Services
  imports StdMap
begin

text \<open>
  \<open>ServicePort\<close>, \<open>ServiceManager\<close> and \<open>ConnectionManager\<close> (\<open>src/Network/\<close>): listening on a port,
  taking connections, opening again after a failure, and the table of ports. What \<open>boost::asio\<close>
  answers is an argument. An acceptor is a number; \<open>accepting\<close> are those with an asynchronous accept
  under way, \<open>reopens\<close> the events of the scheduler that will call \<open>openAcceptor\<close>.
\<close>

section \<open>ServicePort\<close>

record service =
  isSingleSocket' :: bool
  getProtocolName :: string

text \<open>How a connection was started: with a protocol that sends first, or waiting for the client.\<close>

datatype started = First_sender string | Waits

record sport =
  m_tcp_acceptors :: "nat list"
  m_services :: "service list"
  m_serverPort :: u16
  m_pendingStart :: bool
  accepting :: "nat list"
  next_acceptor :: nat
  reopens :: nat
  connections :: "started list"
  lost_sockets :: nat

definition ServicePort_new :: sport where
  "ServicePort_new = \<lparr>m_tcp_acceptors = [], m_services = [], m_serverPort = 0, m_pendingStart = False, accepting = [],
     next_acceptor = 0, reopens = 0, connections = [], lost_sockets = 0\<rparr>"

definition isSingleSocket :: "sport \<Rightarrow> bool" where
  "isSingleSocket s = (case m_services s of [] \<Rightarrow> False | svc # _ \<Rightarrow> isSingleSocket' svc)"

definition getProtocolNames :: "sport \<Rightarrow> string" where
  "getProtocolNames s = (case m_services s of [] \<Rightarrow> []
     | svc # svcs \<Rightarrow> getProtocolName svc @ concat (map (\<lambda>v. '', '' @ getProtocolName v) svcs))"

text \<open>\<open>ok\<close>: \<open>async_accept\<close> does not throw. The socket made for it is lost when it does.\<close>

definition accept :: "nat \<Rightarrow> bool \<Rightarrow> sport \<Rightarrow> sport" where
  "accept a ok s = (if ok then s\<lparr>accepting := accepting s @ [a]\<rparr> else s\<lparr>lost_sockets := lost_sockets s + 1\<rparr>)"

text \<open>A closed acceptor ends its accept with \<open>operation_aborted\<close>.\<close>

definition close :: "sport \<Rightarrow> sport" where
  "close s = s\<lparr>accepting := filter (\<lambda>a. a \<notin> set (m_tcp_acceptors s)) (accepting s), m_tcp_acceptors := []\<rparr>"


definition schedule_reopen :: "sport \<Rightarrow> sport" where
  "schedule_reopen s = s\<lparr>m_pendingStart := True, reopens := reopens s + 1\<rparr>"

text \<open>
  A listener is set up (its accept started or not) or fails. \<open>Both\<close> and \<open>Half\<close> are the cases in which
  the IPv6 listener does not serve IPv4 and a second one is made or fails.
\<close>

datatype listen_result = Fails | One bool | Both bool bool | Half bool

definition listen :: "bool \<Rightarrow> sport \<Rightarrow> sport" where
  "listen ok s = (let a = next_acceptor s; t = accept a ok (s\<lparr>next_acceptor := a + 1\<rparr>)
     in t\<lparr>m_tcp_acceptors := m_tcp_acceptors t @ [a]\<rparr>)"

definition open_port :: "u16 \<Rightarrow> listen_result \<Rightarrow> sport \<Rightarrow> sport" where
  "open_port port r s = (let s = s\<lparr>m_serverPort := port, m_pendingStart := False\<rparr> in
     case r of
       Fails \<Rightarrow> schedule_reopen s
     | One ok6 \<Rightarrow> listen ok6 s
     | Both ok6 ok4 \<Rightarrow> listen ok4 (listen ok6 s)
     | Half ok6 \<Rightarrow> schedule_reopen (listen ok6 s))"


text \<open>
  The end of an accept: a connection whose peer is known (or not; is its socket still open?), an
  abort, or another error. \<open>ok\<close> tells whether the next accept starts.
\<close>

datatype accept_result = Peer bool | No_peer bool bool | Aborted | Accept_error

definition onAccept :: "nat \<Rightarrow> accept_result \<Rightarrow> sport \<Rightarrow> sport" where
  "onAccept a r s = (case r of
     Aborted \<Rightarrow> s\<lparr>lost_sockets := lost_sockets s + 1\<rparr>
   | Accept_error \<Rightarrow>
       let t = close (s\<lparr>lost_sockets := lost_sockets s + 1, accepting := remove1 a (accepting s)\<rparr>)
       in if m_pendingStart t then t else schedule_reopen t
   | Peer ok \<Rightarrow>
       let t = s\<lparr>accepting := remove1 a (accepting s)\<rparr> in
       (case m_services t of
          [] \<Rightarrow> t\<lparr>lost_sockets := lost_sockets t + 1\<rparr>
        | svc # _ \<Rightarrow> accept a ok (t\<lparr>connections := connections t @
            [if isSingleSocket' svc then First_sender (getProtocolName svc) else Waits]\<rparr>))
   | No_peer is_open ok \<Rightarrow>
       let t = s\<lparr>accepting := remove1 a (accepting s)\<rparr> in
       (case m_services t of
          [] \<Rightarrow> t\<lparr>lost_sockets := lost_sockets t + 1\<rparr>
        | _ \<Rightarrow> accept a ok (if is_open then t else t\<lparr>lost_sockets := lost_sockets t + 1\<rparr>)))"

text \<open>The protocol a connection without one is given: that of the first service.\<close>

definition makeProtocol :: "sport \<Rightarrow> string option" where
  "makeProtocol s = (case m_services s of [] \<Rightarrow> None | svc # _ \<Rightarrow> Some (getProtocolName svc))"

definition addService :: "service \<Rightarrow> sport \<Rightarrow> bool \<times> sport" where
  "addService svc s = (if list_ex isSingleSocket' (m_services s) then (False, s)
     else (True, s\<lparr>m_services := m_services s @ [svc]\<rparr>))"

section \<open>ServiceManager\<close>

text \<open>
  The table holds shared pointers to the ports, which are numbered objects; an object is deleted
  once, a second deletion is undefined. \<open>stopping\<close> are the posted calls of \<open>onStopServer\<close>.
\<close>

record smgr =
  m_acceptors :: "(u16, nat) smap"
  ports :: "nat \<Rightarrow> sport option"
  next_port :: nat
  running :: bool
  stopping :: "nat list"
  pool_open :: bool
  death_timer :: bool
  io_stopped :: bool

definition ServiceManager_new :: smgr where
  "ServiceManager_new = \<lparr>m_acceptors = [], ports = (\<lambda>_. None), next_port = 0, running = False, stopping = [], pool_open = True,
     death_timer = False, io_stopped = False\<rparr>"

type_synonym 'a mprog = "(std_exn, smgr, 'a) prog"

definition port_obj :: "nat \<Rightarrow> sport mprog" where
  "port_obj i = bind (gets (\<lambda>s. ports s i)) (\<lambda>x. case x of None \<Rightarrow> undefined_behaviour | Some p \<Rightarrow> ret p)"

definition set_port :: "nat \<Rightarrow> sport \<Rightarrow> unit mprog" where
  "set_port i p = modify (\<lambda>s. s\<lparr>ports := (ports s)(i := Some p)\<rparr>)"

definition delete_port :: "nat \<Rightarrow> unit mprog" where
  "delete_port i = bind (port_obj i) (\<lambda>_. modify (\<lambda>s. s\<lparr>ports := (ports s)(i := None)\<rparr>))"

definition isRunning :: "smgr \<Rightarrow> bool" where
  "isRunning s = (m_acceptors s \<noteq> [])"

text \<open>\<open>unique\<close> drops repetitions that follow each other.\<close>

definition getPorts :: "smgr \<Rightarrow> u16 list" where
  "getPorts s = remdups_adj (map_keys (m_acceptors s))"

definition add_to :: "nat \<Rightarrow> service \<Rightarrow> bool mprog" where
  "add_to i svc = bind (port_obj i) (\<lambda>p. seq (set_port i (snd (addService svc p))) (ret (fst (addService svc p))))"

definition add :: "service \<Rightarrow> u16 \<Rightarrow> listen_result \<Rightarrow> bool mprog" where
  "add svc port r =
     (if port = 0 then ret False
      else bind (gets m_acceptors) (\<lambda>m. case map_find m port of
        None \<Rightarrow> bind (gets next_port) (\<lambda>i.
          seq (modify (\<lambda>s. s\<lparr>next_port := i + 1\<rparr>))
          (seq (set_port i (open_port port r ServicePort_new))
          (seq (modify (\<lambda>s. s\<lparr>m_acceptors := map_put port i (m_acceptors s)\<rparr>))
            (add_to i svc))))
      | Some i \<Rightarrow> bind (port_obj i) (\<lambda>p.
          if isSingleSocket p \<or> isSingleSocket' svc then ret False else add_to i svc)))"

text \<open>The port is deleted through its raw pointer, and again when the last shared pointer goes.\<close>

definition remove_service :: "u16 \<Rightarrow> bool mprog" where
  "remove_service port =
     (if port = 0 then ret False
      else bind (gets m_acceptors) (\<lambda>m. case map_find m port of
        None \<Rightarrow> ret False
      | Some i \<Rightarrow> bind (port_obj i) (\<lambda>p.
          seq (set_port i (close p))
          (seq (modify (\<lambda>s. s\<lparr>m_acceptors := map_erase port (m_acceptors s)\<rparr>))
          (seq (delete_port i)
          (seq (delete_port i) (ret True)))))))"

definition manager_run :: "unit mprog" where
  "manager_run = bind (gets running) (\<lambda>b. if b then undefined_behaviour else modify (\<lambda>s. s\<lparr>running := True\<rparr>))"

definition manager_stop :: "unit mprog" where
  "manager_stop = bind (gets running) (\<lambda>b. if \<not> b then skip
     else modify (\<lambda>s. s\<lparr>running := False, stopping := stopping s @ map snd (m_acceptors s), m_acceptors := [],
       pool_open := False, death_timer := True\<rparr>))"

definition die :: "unit mprog" where
  "die = modify (\<lambda>s. s\<lparr>io_stopped := True\<rparr>)"

section \<open>ConnectionManager\<close>

definition createConnection :: "nat \<Rightarrow> nat list \<Rightarrow> nat list" where
  "createConnection c cs = cs @ [c]"

definition cm_releaseConnection :: "nat \<Rightarrow> nat list \<Rightarrow> nat list" where
  "cm_releaseConnection c cs = (if c \<in> set cs then remove1 c cs else cs)"

text \<open>\<open>has_socket c\<close>: the socket of \<open>c\<close> is not deleted yet; its member functions are called.\<close>

definition closeAll :: "(nat \<Rightarrow> bool) \<Rightarrow> (std_exn, nat list, unit) prog" where
  "closeAll has_socket cs = (if list_all has_socket cs then Ret () [] else Undefined)"

section \<open>A port keeps listening\<close>





definition one_restart :: "sport \<Rightarrow> bool" where
  "one_restart s \<longleftrightarrow> reopens s = (if m_pendingStart s then 1 else 0)"



lemma one_restart_frame [simp]:
  "one_restart (accept a ok s) = one_restart s" "one_restart (listen ok s) = one_restart s"
  "one_restart (close s) = one_restart s" "one_restart (s\<lparr>accepting := as\<rparr>) = one_restart s"
  "one_restart (s\<lparr>lost_sockets := n\<rparr>) = one_restart s" "one_restart (s\<lparr>connections := cs\<rparr>) = one_restart s"
  "one_restart (s\<lparr>m_services := svcs\<rparr>) = one_restart s"
  by (simp_all add: one_restart_def accept_def listen_def close_def Let_def)


lemma pending_frame [simp]:
  "m_pendingStart (accept a ok s) = m_pendingStart s" "m_pendingStart (listen ok s) = m_pendingStart s"
  "m_pendingStart (close s) = m_pendingStart s" "m_services (accept a ok s) = m_services s"
  "m_services (listen ok s) = m_services s" "m_services (close s) = m_services s"
  "m_services (schedule_reopen s) = m_services s" "m_pendingStart (schedule_reopen s)"
  by (simp_all add: accept_def listen_def close_def schedule_reopen_def Let_def)



lemma accepting_frame [simp]:
  "accepting (accept a True s) = accepting s @ [a]" "accepting (listen True s) = accepting s @ [next_acceptor s]"
  "accepting (schedule_reopen s) = accepting s"
  "m_tcp_acceptors (accept a ok s) = m_tcp_acceptors s" "m_tcp_acceptors (listen ok s) = m_tcp_acceptors s @ [next_acceptor s]"
  "m_tcp_acceptors (schedule_reopen s) = m_tcp_acceptors s" "m_tcp_acceptors (close s) = []"
  by (simp_all add: accept_def listen_def schedule_reopen_def close_def Let_def)






text \<open>A connection that comes before the service ends the listening for good.\<close>

lemma early_connection:
  assumes "m_services s = []" "accepting s = [a]"
  shows "accepting (onAccept a (Peer ok) s) = []" "reopens (onAccept a (Peer ok) s) = reopens s"
  using assms by (simp_all add: onAccept_def)

section \<open>The table of ports\<close>

text \<open>The contract: each port has a list of services, and one that speaks first is alone.\<close>

definition spec_add :: "service \<Rightarrow> u16 \<Rightarrow> (u16 \<Rightarrow> service list option) \<Rightarrow> bool \<times> (u16 \<Rightarrow> service list option)" where
  "spec_add svc port T =
     (if port = 0 then (False, T)
      else case T port of
        None \<Rightarrow> (True, T(port \<mapsto> [svc]))
      | Some vs \<Rightarrow> if isSingleSocket' svc \<or> list_ex isSingleSocket' vs then (False, T) else (True, T(port \<mapsto> vs @ [svc])))"

definition table_of :: "smgr \<Rightarrow> u16 \<Rightarrow> service list option" where
  "table_of s port = Option.bind (map_find (m_acceptors s) port) (\<lambda>i. map_option m_services (ports s i))"

definition alone :: "service list \<Rightarrow> bool" where
  "alone vs \<longleftrightarrow> (\<exists>v. vs = [v]) \<or> vs \<noteq> [] \<and> \<not> list_ex isSingleSocket' vs"

definition mgr_ok :: "smgr \<Rightarrow> bool" where
  "mgr_ok s \<longleftrightarrow> map_ok (m_acceptors s)
     \<and> (\<forall>port i. map_find (m_acceptors s) port = Some i \<longrightarrow> i < next_port s \<and> (\<exists>p. ports s i = Some p \<and> alone (m_services p)))
     \<and> (\<forall>port port' i. map_find (m_acceptors s) port = Some i \<longrightarrow> map_find (m_acceptors s) port' = Some i \<longrightarrow> port = port')"

lemma mgr_port: "mgr_ok s \<Longrightarrow> map_find (m_acceptors s) port = Some i \<Longrightarrow> \<exists>p. ports s i = Some p \<and> alone (m_services p)"
  unfolding mgr_ok_def by blast

lemma table_cases:
  "mgr_ok s \<Longrightarrow> case table_of s port of None \<Rightarrow> map_find (m_acceptors s) port = None
     | Some vs \<Rightarrow> map_find (m_acceptors s) port \<noteq> None \<and> alone vs"
  using mgr_port [of s port] by (cases "map_find (m_acceptors s) port") (auto simp: table_of_def)

lemma open_port_services [simp]: "m_services (open_port port r s) = m_services s"
  by (cases r) (simp_all add: open_port_def)

lemma alone_front: "alone (m_services p) \<Longrightarrow> isSingleSocket p = list_ex isSingleSocket' (m_services p)"
  by (cases "m_services p") (auto simp: alone_def isSingleSocket_def)

lemma add_refines_once:
  assumes ok: "mgr_ok s"
  shows "\<exists>t. add svc port r s = Ret (fst (spec_add svc port (table_of s))) t
    \<and> table_of t = snd (spec_add svc port (table_of s)) \<and> mgr_ok t"
proof (cases "map_find (m_acceptors s) port")
  case None
  show ?thesis
  proof (cases "port = 0")
    case False
    let ?i = "next_port s" and ?p = "open_port port r ServicePort_new"
    let ?t = "s\<lparr>next_port := ?i + 1, ports := (ports s)(?i := Some (?p\<lparr>m_services := [svc]\<rparr>)),
      m_acceptors := map_put port ?i (m_acceptors s)\<rparr>"
    have "add svc port r s = Ret True ?t"
      using False None by (simp add: add_def add_to_def port_obj_def set_port_def addService_def bind_def seq_def prog_eval ServicePort_new_def)
    moreover have "table_of ?t = (table_of s)(port \<mapsto> [svc])"
      using ok by (fastforce simp: fun_eq_iff table_of_def find_put_any mgr_ok_def bind_eq_Some_conv split: Option.bind_split)
    moreover have "mgr_ok ?t" using ok by (fastforce simp: mgr_ok_def map_ok_put find_put_any alone_def split: if_splits)
    ultimately show ?thesis using False None by (simp add: spec_add_def table_of_def)
  qed (use ok in \<open>simp add: add_def spec_add_def prog_eval\<close>)
next
  case (Some i)
  then obtain p where p: "ports s i = Some p" "alone (m_services p)" using ok unfolding mgr_ok_def by blast
  have here: "table_of s port = Some (m_services p)" using Some p by (simp add: table_of_def)
  show ?thesis
  proof (cases "port = 0 \<or> isSingleSocket' svc \<or> list_ex isSingleSocket' (m_services p)")
    case True
    then show ?thesis using Some p ok here
      by (auto simp: add_def spec_add_def port_obj_def bind_def prog_eval alone_front)
  next
    case False
    let ?t = "s\<lparr>ports := (ports s)(i := Some (p\<lparr>m_services := m_services p @ [svc]\<rparr>))\<rparr>"
    have "add svc port r s = Ret True ?t"
      using False Some p by (simp add: add_def add_to_def port_obj_def set_port_def addService_def bind_def seq_def prog_eval alone_front)
    moreover have "table_of ?t = (table_of s)(port \<mapsto> m_services p @ [svc])"
      using ok Some p by (fastforce simp: fun_eq_iff table_of_def mgr_ok_def split: Option.bind_split)
    moreover have "alone (m_services p @ [svc])" using p(2) False by (auto simp: alone_def)
    then have "mgr_ok ?t" using ok by (simp add: mgr_ok_def)
    ultimately show ?thesis using False here by (simp add: spec_add_def)
  qed
qed

text \<open>A list of additions, with their results.\<close>

definition add_service :: "service \<times> u16 \<times> listen_result \<Rightarrow> bool mprog" where
  "add_service x = (case x of (svc, port, r) \<Rightarrow> add svc port r)"

definition spec_service :: "service \<times> u16 \<times> listen_result \<Rightarrow> (u16 \<Rightarrow> service list option) \<Rightarrow> bool \<times> (u16 \<Rightarrow> service list option)" where
  "spec_service x = (case x of (svc, port, r) \<Rightarrow> spec_add svc port)"

interpretation manager: contract mgr_ok table_of add_service spec_service
  by unfold_locales (auto simp: add_service_def spec_service_def intro: add_refines_once split: prod.split)

text \<open>
  Claim C36: any additions of services refine the contract of the table: the results and the
  services of every port are those of the contract, the ports are listed in increasing order, and
  a service that speaks first is the only one of its port.
\<close>

theorem services_refine_table:
  "\<exists>t. run_all add_service as ServiceManager_new = Ret (fst (contract_all spec_service as (\<lambda>_. None))) t
     \<and> table_of t = snd (contract_all spec_service as (\<lambda>_. None))
     \<and> sorted_wrt (<) (getPorts t) \<and> set (getPorts t) = {port. table_of t port \<noteq> None}
     \<and> (\<forall>port. case table_of t port of None \<Rightarrow> True
          | Some vs \<Rightarrow> length vs = 1 \<or> vs \<noteq> [] \<and> \<not> list_ex isSingleSocket' vs)"
proof -
  have "mgr_ok ServiceManager_new" "table_of ServiceManager_new = (\<lambda>_. None)"
    by (simp_all add: mgr_ok_def ServiceManager_new_def table_of_def fun_eq_iff)
  then obtain t where t: "run_all add_service as ServiceManager_new = Ret (fst (contract_all spec_service as (\<lambda>_. None))) t"
      "table_of t = snd (contract_all spec_service as (\<lambda>_. None))" "mgr_ok t" using manager.all [of ServiceManager_new as] by auto
  have ok: "map_ok (m_acceptors t)" using t(3) by (simp add: mgr_ok_def)
  have ports: "getPorts t = map_keys (m_acceptors t)"
    using map_ok_distinct [OF ok] by (simp add: getPorts_def remdups_adj_distinct)
  have "table_of t port \<noteq> None \<longleftrightarrow> map_find (m_acceptors t) port \<noteq> None" for port
    using table_cases [OF t(3), of port] by (simp split: option.splits)
  then have "set (getPorts t) = {port. table_of t port \<noteq> None}"
    unfolding ports using map_find_None_iff [of "m_acceptors t"] by blast
  moreover have "case table_of t port of None \<Rightarrow> True | Some vs \<Rightarrow> length vs = 1 \<or> vs \<noteq> [] \<and> \<not> list_ex isSingleSocket' vs" for port
    using table_cases [OF t(3), of port] by (auto simp: alone_def split: option.splits)
  ultimately show ?thesis using t(1,2) ok ports by (auto simp: map_ok_def)
qed

text \<open>
  Removing a service that is there is undefined: its port is deleted through the raw
  pointer and a second time by the shared pointers.
\<close>

theorem remove_deletes_twice:
  assumes "mgr_ok s"
  shows "remove_service port s = (if port = 0 \<or> table_of s port = None then Ret False s else Undefined)"
proof (cases "map_find (m_acceptors s) port")
  case None
  then show ?thesis by (simp add: remove_service_def table_of_def bind_def prog_eval)
next
  case (Some i)
  then obtain p where "ports s i = Some p" using assms unfolding mgr_ok_def by blast
  then show ?thesis using Some
    by (simp add: remove_service_def table_of_def port_obj_def set_port_def delete_port_def bind_def seq_def prog_eval)
qed

theorem remove_deletes_twice_witness:
  "case add \<lparr>isSingleSocket' = True, getProtocolName = ''t''\<rparr> 4000 (One True) ServiceManager_new of
     Ret b s \<Rightarrow> b \<and> remove_service 4000 s = Undefined | _ \<Rightarrow> False"
proof -
  have "mgr_ok ServiceManager_new" "table_of ServiceManager_new = (\<lambda>_. None)"
    by (simp_all add: mgr_ok_def ServiceManager_new_def table_of_def fun_eq_iff)
  then obtain t where t: "add \<lparr>isSingleSocket' = True, getProtocolName = ''t''\<rparr> 4000 (One True) ServiceManager_new = Ret True t"
      "table_of t 4000 \<noteq> None" "mgr_ok t"
    using add_refines_once [of ServiceManager_new "\<lparr>isSingleSocket' = True, getProtocolName = ''t''\<rparr>" 4000 "One True"]
    by (auto simp: spec_add_def)
  then show ?thesis using remove_deletes_twice [OF t(3), of 4000] by simp
qed

end
