(* ===== verification/Startup.thy ===== *)
theory Startup
  imports Session Services
begin

text \<open>
  \<open>src/main.cpp\<close> and \<open>src/Log/severity_t.cpp\<close>: the command line and the configuration, the load task
  and the wait for it. The options are a map from paths to texts, as the property tree of \<open>boost\<close>
  holds them; the parser of the command line, the reader of the file, the conversion of a text to an
  integer and the file system are parameters.
\<close>

section \<open>Log levels\<close>

datatype severity_level = LTRACE | LDEBUG | LINFO | LWARNING | LERROR | LFATAL

definition severityMap :: "(severity_level \<times> string) list" where
  "severityMap = [(LTRACE, ''TRACE''), (LDEBUG, ''DEBUG''), (LINFO, ''INFO''), (LWARNING, ''WARNING''),
     (LERROR, ''ERROR''), (LFATAL, ''FATAL'')]"

text \<open>\<open>None\<close> is the exception for an unknown name.\<close>

definition to_severity :: "string \<Rightarrow> severity_level option" where
  "to_severity name = map_of (map (\<lambda>(l, n). (n, l)) severityMap) (map toupper name)"

definition severity_to_string :: "severity_level \<Rightarrow> string option" where
  "severity_to_string l = map_of severityMap l"

section \<open>Configuration\<close>

type_synonym ptree = "string \<Rightarrow> string option"

record files =
  fs_exists :: "string \<Rightarrow> bool"
  is_regular_file :: "string \<Rightarrow> bool"
  is_directory :: "string \<Rightarrow> bool"
  read_ini :: "string \<Rightarrow> ptree option"
  to_int64 :: "string \<Rightarrow> int option"

record cmdline =
  cl_configFile :: string
  cl_version :: bool
  cl_help :: bool
  cl_daemon :: bool
  cl_suppress :: bool
  cl_logLevelC :: severity_level
  cl_logLevelF :: severity_level
  cl_logDir :: string
  cl_pidFile :: string

text \<open>\<open>exit(1)\<close> with its message, and the exception of the file reader or of a missing level.\<close>

datatype stop = Exit string | Unreadable

type_synonym 'a cfg = "(stop, ptree, 'a) prog"

definition get_str :: "string \<Rightarrow> string cfg" where
  "get_str path = gets (\<lambda>o'. case o' path of None \<Rightarrow> [] | Some v \<Rightarrow> v)"

definition get_int :: "files \<Rightarrow> string \<Rightarrow> int cfg" where
  "get_int F path = gets (\<lambda>o'. case Option.bind (o' path) (to_int64 F) of None \<Rightarrow> 0 | Some n \<Rightarrow> n)"

definition put_str :: "string \<Rightarrow> string \<Rightarrow> unit cfg" where
  "put_str path v = modify (\<lambda>o'. o'(path \<mapsto> v))"

definition bool_text :: "bool \<Rightarrow> string" where
  "bool_text b = (if b then ''true'' else ''false'')"

definition level_text :: "severity_level \<Rightarrow> string cfg" where
  "level_text l = (case severity_to_string l of None \<Rightarrow> throw Unreadable | Some n \<Rightarrow> ret n)"

definition read_config :: "files \<Rightarrow> string \<Rightarrow> unit cfg" where
  "read_config F cf =
     (if cf = [] then skip
      else if \<not> fs_exists F cf then throw (Exit ''config file not found'')
      else if \<not> is_regular_file F cf then throw (Exit ''config file isn't regular file'')
      else case read_ini F cf of None \<Rightarrow> throw Unreadable | Some t \<Rightarrow> modify (\<lambda>_. t))"

definition bad_port :: "int \<Rightarrow> bool" where
  "bad_port n = (n \<le> 1024 \<or> 65535 < n)"

definition configure :: "files \<Rightarrow> cmdline \<Rightarrow> bool cfg" where
  "configure F cl =
     (if cl_version cl then ret False
      else if cl_help cl then ret False
      else
        seq (read_config F (cl_configFile cl))
        (seq (put_str ''global.daemon'' (bool_text (cl_daemon cl)))
        (seq (whenb (cl_suppress cl) (put_str ''global.suppress_config_info'' (bool_text True)))
        (seq (bind (level_text (cl_logLevelC cl)) (put_str ''global.log.console.level''))
        (seq (bind (level_text (cl_logLevelF cl)) (put_str ''global.log.file.level''))
        (seq (put_str ''global.log.dir'' (cl_logDir cl))
        (bind (get_int F ''global.userPort'') (\<lambda>userPort.
          if bad_port userPort then ret False
          else seq (whenb (cl_pidFile cl \<noteq> []) (put_str ''global.pidFile'' (cl_pidFile cl))) (ret True)))))))))"

text \<open>A slash at the end is erased (\<open>erase_last\<close>), and the shortened text stored.\<close>

definition trim_slash :: "string \<Rightarrow> string" where
  "trim_slash d = (if d \<noteq> [] \<and> last d = CHR ''/'' then butlast d else d)"

definition check_dir :: "files \<Rightarrow> string \<Rightarrow> string \<Rightarrow> unit cfg" where
  "check_dir F path msg = bind (get_str path) (\<lambda>d.
     seq (whenb (trim_slash d \<noteq> d) (put_str path (trim_slash d)))
     (if \<not> fs_exists F (trim_slash d) \<or> \<not> is_directory F (trim_slash d) then throw (Exit msg) else skip))"

definition parseConfig :: "files \<Rightarrow> unit cfg" where
  "parseConfig F = bind (get_str ''global.serverName'') (\<lambda>serverName.
     if serverName = [] then throw (Exit ''Server name not specified'')
     else if 10 < length serverName then throw (Exit ''Server name is too long'')
     else if hasWhitespace serverName then throw (Exit ''Server name can't contain whitespace'')
     else
       seq (check_dir F ''global.workingDir'' ''Working dir don't exist or isn't dir'')
       (seq (check_dir F ''global.log.dir'' ''Log dir don't exist or isn't dir'')
       (bind (get_int F ''global.userPort'') (\<lambda>userPort.
         if bad_port userPort then throw (Exit ''Invalid user port number'') else skip))))"

section \<open>Loading\<close>

definition telnet_service :: service where
  "telnet_service = \<lparr>isSingleSocket' = True, getProtocolName = ''Telnet protocol''\<rparr>"

text \<open>\<open>get<uint16_t>\<close> without a default throws where the text is no number of that range.\<close>

definition get_u16 :: "files \<Rightarrow> ptree \<Rightarrow> string \<Rightarrow> u16 option" where
  "get_u16 F o' path = (case Option.bind (o' path) (to_int64 F) of None \<Rightarrow> None
     | Some n \<Rightarrow> if 0 \<le> n \<and> n \<le> 65535 then Some (of_int n) else None)"

definition mainLoader :: "files \<Rightarrow> ptree \<Rightarrow> listen_result \<Rightarrow> bool mprog" where
  "mainLoader F o' r = (case get_u16 F o' ''global.userPort'' of
     None \<Rightarrow> throw (Runtime_error ''ptree_bad_data'')
   | Some port \<Rightarrow> add telnet_service port r)"

text \<open>
  The main thread and the load task. Main starts the threads, waits without a condition for the
  loader's signal, and goes on; \<open>notify_all\<close> wakes it only if it waits. \<open>spurious\<close> allows a wait to
  end by itself.
\<close>

datatype main_thread = Starting | Wait_loader | Serving

inductive boot_step :: "bool \<Rightarrow> main_thread \<times> bool \<Rightarrow> main_thread \<times> bool \<Rightarrow> bool" for spurious where
  waits: "boot_step spurious (Starting, loaded) (Wait_loader, loaded)"
| load: "boot_step spurious (m, False) (if m = Wait_loader then Serving else m, True)"
| wake: "spurious \<Longrightarrow> boot_step spurious (Wait_loader, loaded) (Serving, loaded)"

inductive_cases boot_stepE: "boot_step spurious x y"

section \<open>Properties\<close>

text \<open>
  Every log level has a name that is read back as it, whatever the case of its letters,
  and nothing else is a level: the \<open>none\<close> that the help offers for the console is refused.
\<close>

theorem severity_names:
  "(\<forall>l. severity_to_string l \<noteq> None)
   \<and> (\<forall>l name. to_severity name = Some l \<longleftrightarrow> severity_to_string l = Some (map toupper name))
   \<and> to_severity ''none'' = None"
proof (intro conjI allI)
  show "severity_to_string l \<noteq> None" for l by (cases l) (simp_all add: severity_to_string_def severityMap_def)
  show "to_severity name = Some l \<longleftrightarrow> severity_to_string l = Some (map toupper name)" for l name
    by (cases l) (auto simp: severity_to_string_def to_severity_def severityMap_def)
  show "to_severity ''none'' = None"
    by (simp add: to_severity_def severityMap_def toupper_def is_lower_def uc_def)
qed

lemma check_dir_Ret:
  "check_dir F path msg o' = Ret () t \<Longrightarrow> path \<noteq> q \<Longrightarrow> t q = o' q"
  by (auto simp: check_dir_def get_str_def put_str_def bind_def seq_def prog_eval whenb_def split: if_splits out.splits)

lemma check_dir_ok:
  "check_dir F path msg o' = Ret () t \<Longrightarrow>
     (case t path of None \<Rightarrow> fs_exists F [] \<and> is_directory F [] | Some d \<Rightarrow> fs_exists F d \<and> is_directory F d)"
  by (auto simp: check_dir_def get_str_def put_str_def bind_def seq_def prog_eval whenb_def trim_slash_def
      split: if_splits out.splits option.splits)

definition server_name_ok :: "ptree \<Rightarrow> bool" where
  "server_name_ok o' \<longleftrightarrow> (\<exists>n. o' ''global.serverName'' = Some n \<and> 0 < length n \<and> length n \<le> 10
     \<and> (\<forall>c \<in> set n. 32 < uc c \<and> uc c < 128))"

lemma parseConfig_Ret:
  assumes "parseConfig F o1 = Ret () o2"
  shows "server_name_ok o2 \<and> o2 ''global.userPort'' = o1 ''global.userPort''
    \<and> (\<forall>path \<in> {''global.workingDir'', ''global.log.dir''}. case o2 path of
        None \<Rightarrow> fs_exists F [] \<and> is_directory F [] | Some d \<Rightarrow> fs_exists F d \<and> is_directory F d)
    \<and> (\<exists>n. Option.bind (o2 ''global.userPort'') (to_int64 F) = Some n \<and> 1024 < n \<and> n \<le> 65535)"
proof -
  obtain n where n: "o1 ''global.serverName'' = Some n" "0 < length n" "length n \<le> 10" "\<not> hasWhitespace n"
    using assms by (cases "o1 ''global.serverName''")
      (auto simp: parseConfig_def get_str_def bind_def prog_eval split: if_splits)
  obtain om where om: "check_dir F ''global.workingDir'' ''Working dir don't exist or isn't dir'' o1 = Ret () om"
      "check_dir F ''global.log.dir'' ''Log dir don't exist or isn't dir'' om = Ret () o2"
      "\<not> bad_port (case Option.bind (o2 ''global.userPort'') (to_int64 F) of None \<Rightarrow> 0 | Some n \<Rightarrow> n)"
    using assms n by (auto simp: parseConfig_def get_str_def get_int_def bind_def seq_def prog_eval split: if_splits out.splits)
  have "o2 ''global.serverName'' = Some n" using check_dir_Ret [OF om(1)] check_dir_Ret [OF om(2)] n(1) by simp
  then have "server_name_ok o2" using n by (fastforce simp: server_name_ok_def hasWhitespace_iff not_le)
  moreover have "o2 ''global.userPort'' = o1 ''global.userPort''" "o2 ''global.workingDir'' = om ''global.workingDir''"
    using check_dir_Ret [OF om(1)] check_dir_Ret [OF om(2)] by simp_all
  moreover have "\<exists>n. Option.bind (o2 ''global.userPort'') (to_int64 F) = Some n \<and> 1024 < n \<and> n \<le> 65535"
    using om(3) by (auto simp: bad_port_def split: option.splits)
  ultimately show ?thesis using check_dir_ok [OF om(1)] check_dir_ok [OF om(2)] by simp
qed

text \<open>
  A configuration that passes the checks is one the server can start with: the server has
  a name of one to ten printable characters, the directories exist, and the load task opens the Telnet
  service on the configured port, a number from 1025 to 65535 that fits the 16 bits it is read with.
\<close>

theorem checked_config_serves:
  assumes "parseConfig F o2 = Ret () o3"
  shows "server_name_ok o3
    \<and> (\<forall>path \<in> {''global.workingDir'', ''global.log.dir''}. case o3 path of
        None \<Rightarrow> fs_exists F [] \<and> is_directory F [] | Some d \<Rightarrow> fs_exists F d \<and> is_directory F d)
    \<and> (\<exists>port t. Option.bind (o3 ''global.userPort'') (to_int64 F) = Some (uint port) \<and> 1024 < uint port
        \<and> mainLoader F o3 r ServiceManager_new = Ret True t \<and> isRunning t \<and> table_of t port = Some [telnet_service])"
proof -
  note parsed = parseConfig_Ret [OF assms]
  then obtain n where n: "Option.bind (o3 ''global.userPort'') (to_int64 F) = Some n" "1024 < n" "n \<le> 65535" by blast
  let ?port = "of_int n :: u16"
  have u: "uint ?port = n" using n(2,3) by (simp add: uint_word_of_int)
  have nz: "?port \<noteq> 0" using u n(2) by auto
  have "mgr_ok ServiceManager_new" "table_of ServiceManager_new = (\<lambda>_. None)"
    by (simp_all add: mgr_ok_def ServiceManager_new_def table_of_def fun_eq_iff)
  then obtain t where t: "add telnet_service ?port r ServiceManager_new = Ret True t" "table_of t ?port = Some [telnet_service]"
    using add_refines_once [of ServiceManager_new telnet_service ?port r] nz by (auto simp: spec_add_def)
  have "isRunning t" using t(2) by (auto simp: isRunning_def table_of_def)
  moreover have "mainLoader F o3 r ServiceManager_new = Ret True t"
    using n t(1) by (simp add: mainLoader_def get_u16_def)
  ultimately have "\<exists>port t. Option.bind (o3 ''global.userPort'') (to_int64 F) = Some (uint port) \<and> 1024 < uint port
        \<and> mainLoader F o3 r ServiceManager_new = Ret True t \<and> isRunning t \<and> table_of t port = Some [telnet_service]"
    using n u t(2) by (intro exI [of _ ?port] exI [of _ t]) simp
  then show ?thesis using parsed by blast
qed

definition sample_files :: files where
  "sample_files = \<lparr>fs_exists = (\<lambda>_. True), is_regular_file = (\<lambda>_. True), is_directory = (\<lambda>_. True),
     read_ini = (\<lambda>_. Some [''global.serverName'' \<mapsto> ''lotos'', ''global.workingDir'' \<mapsto> ''/srv/'', ''global.userPort'' \<mapsto> ''4000'']),
     to_int64 = (\<lambda>s. if s = ''4000'' then Some 4000 else None)\<rparr>"

definition sample_cmdline :: cmdline where
  "sample_cmdline = \<lparr>cl_configFile = ''etc/config.ini'', cl_version = False, cl_help = False, cl_daemon = False,
     cl_suppress = False, cl_logLevelC = LWARNING, cl_logLevelF = LINFO, cl_logDir = ''log'', cl_pidFile = []\<rparr>"

theorem checked_config_serves_witness:
  "\<exists>o2 o3 t. configure sample_files sample_cmdline (\<lambda>_. None) = Ret True o2 \<and> parseConfig sample_files o2 = Ret () o3
     \<and> o3 ''global.workingDir'' = Some ''/srv''
     \<and> mainLoader sample_files o3 (One True) ServiceManager_new = Ret True t \<and> isRunning t"
proof -
  obtain o2 where o2: "configure sample_files sample_cmdline (\<lambda>_. None) = Ret True o2"
    "o2 ''global.serverName'' = Some ''lotos''" "o2 ''global.workingDir'' = Some ''/srv/''" "o2 ''global.userPort'' = Some ''4000''"
    "o2 ''global.log.dir'' = Some ''log''"
    by (simp add: configure_def sample_cmdline_def read_config_def put_str_def level_text_def severity_to_string_def severityMap_def
        get_int_def bad_port_def bind_def seq_def prog_eval whenb_def sample_files_def)
  moreover obtain o3 where "parseConfig sample_files o2 = Ret () o3" "o3 ''global.workingDir'' = Some ''/srv''"
    using o2(2-5) by (simp add: parseConfig_def get_str_def get_int_def check_dir_def put_str_def bad_port_def hasWhitespace_iff
        trim_slash_def bind_def seq_def prog_eval whenb_def sample_files_def uc_def)
  ultimately show ?thesis using checked_config_serves [of sample_files o2 o3 "One True"] by blast
qed

text \<open>
  The signal of the load task can be lost. If the task ends before the main thread waits,
  the main thread waits for ever (unless the wait ends by itself), and the server never runs its
  services.
\<close>

theorem load_signal_lost:
  "boot_step spurious (Starting, False) (Starting, True) \<and> boot_step spurious (Starting, True) (Wait_loader, True)
   \<and> Collect ((boot_step False)\<^sup>*\<^sup>* (Wait_loader, True)) = {(Wait_loader, True)}"
proof (intro conjI)
  show "boot_step spurious (Starting, False) (Starting, True)" using boot_step.load [of spurious Starting] by simp
  show "boot_step spurious (Starting, True) (Wait_loader, True)" by (rule boot_step.waits)
  have "x = (Wait_loader, True)" if "(boot_step False)\<^sup>*\<^sup>* (Wait_loader, True) x" for x
    using that by (induction rule: rtranclp_induct) (auto elim: boot_stepE)
  then show "Collect ((boot_step False)\<^sup>*\<^sup>* (Wait_loader, True)) = {(Wait_loader, True)}" by auto
qed

end
