(* ===== verification/CrashReport.thy ===== *)
theory CrashReport
  imports Telopt
begin

text \<open>
  \<open>src/Common/ExceptionHandler.cpp\<close> where the system is not Windows (\<open>WinReport\<close> has the rest): installing and removing the
  handler of the signals of a crash, and the report the handler writes. What the system is asked for
  (usage, limits, registers, the trace of the stack) is the record \<open>crash_env\<close>.
\<close>

section \<open>Installing the handler\<close>

datatype sig = SIGILL | SIGSEGV | SIGFPE | Other_signal nat

datatype disposition = Sig_default | Sig_report | Sig_other nat

text \<open>The table of dispositions belongs to the process; every handler object has its own flag.\<close>

record handlers =
  dispositions :: "sig \<Rightarrow> disposition"
  isInstalled :: "nat \<Rightarrow> bool"

definition set_signals :: "disposition \<Rightarrow> handlers \<Rightarrow> handlers" where
  "set_signals d s = s\<lparr>dispositions := (dispositions s)(SIGILL := d, SIGSEGV := d, SIGFPE := d)\<rparr>"

definition InstallHandler :: "nat \<Rightarrow> handlers \<Rightarrow> bool \<times> handlers" where
  "InstallHandler h s = (True, (set_signals Sig_report s)\<lparr>isInstalled := (isInstalled s)(h := True)\<rparr>)"

definition RemoveHandler :: "nat \<Rightarrow> handlers \<Rightarrow> bool \<times> handlers" where
  "RemoveHandler h s =
     (if \<not> isInstalled s h then (False, s)
      else (True, (set_signals Sig_default s)\<lparr>isInstalled := (isInstalled s)(h := False)\<rparr>))"

definition ExceptionHandler_delete :: "nat \<Rightarrow> handlers \<Rightarrow> handlers" where
  "ExceptionHandler_delete h s = (if isInstalled s h then snd (RemoveHandler h s) else s)"

section \<open>Numbers\<close>

fun hex_digits :: "nat \<Rightarrow> string" where
  "hex_digits n = (if n < 16 then [''0123456789abcdef'' ! n]
     else hex_digits (n div 16) @ [''0123456789abcdef'' ! (n mod 16)])"

declare hex_digits.simps [simp del]

text \<open>A stream with the flags \<open>hex\<close> and \<open>showbase\<close>: zero has no prefix.\<close>

definition show_hex :: "nat \<Rightarrow> string" where
  "show_hex n = (if n = 0 then ''0'' else ''0x'' @ hex_digits n)"

text \<open>
  \<open>float\<close> has 24 bits: a whole number is rounded to the nearest one it can hold, a tie to the even
  one. Those the handler computes are whole and far below the largest \<open>float\<close>.
\<close>

fun bits :: "nat \<Rightarrow> nat" where
  "bits n = (if n = 0 then 0 else bits (n div 2) + 1)"

declare bits.simps [simp del]

definition f32 :: "int \<Rightarrow> int" where
  "f32 n = (let m = nat \<bar>n\<bar>; k = bits m - 24; q = m div 2 ^ k; r = m mod 2 ^ k in
     sgn n * int ((q + (if 2 ^ k < 2 * r \<or> 2 * r = 2 ^ k \<and> odd q then 1 else 0)) * 2 ^ k))"

definition fits64 :: "int \<Rightarrow> bool" where
  "fits64 n \<longleftrightarrow> - (2 ^ 63) \<le> n \<and> n < 2 ^ 63"

text \<open>Division of C++, toward zero.\<close>

definition cdiv :: "int \<Rightarrow> int \<Rightarrow> int" where
  "cdiv a b = sgn a * sgn b * (\<bar>a\<bar> div \<bar>b\<bar>)"

section \<open>The report\<close>

datatype platform = Linux32 | Linux64 | OpenBSD | FreeBSD32 | FreeBSD64 | NetBSD | MacOS64 | MacOS32

record rusage =
  ru_ixrss :: int
  ru_idrss :: int
  ru_isrss :: int
  ru_stime :: "nat \<times> nat"
  ru_utime :: "nat \<times> nat"

record crash_env =
  report_opens :: bool
  ctime_text :: string
  compiler_string :: string
  compilation_date :: string
  getrusage :: "rusage option"
  getrlimit :: "u64 option"
  boot_time :: "int option"
  strsignal :: "nat \<Rightarrow> string"
  si_addr :: u64
  reg :: "string \<Rightarrow> u64"
  backtrace :: "string list"
  backtrace_symbols_ok :: bool

record crash_out =
  console :: string
  report_txt :: string

type_synonym 'a crprog = "(std_exn, crash_out, 'a) prog"

text \<open>\<open>outdriver\<close> is the report file where it opened, the console otherwise.\<close>

definition emit :: "crash_env \<Rightarrow> string \<Rightarrow> unit crprog" where
  "emit E t = modify (\<lambda>s. if report_opens E then s\<lparr>report_txt := report_txt s @ t\<rparr> else s\<lparr>console := console s @ t\<rparr>)"

definition report_head :: "crash_env \<Rightarrow> string" where
  "report_head E = replicate 53 (CHR ''*'') @ [NL] @ ''Error report - '' @ ctime_text E @ [NL]
     @ ''Compiler info - '' @ compiler_string E @ [NL] @ ''Compilation Date - '' @ compilation_date E @ [NL, NL]"

text \<open>
  The three parts of the usage are added, the limit is read as a signed number; what overflows, a
  division by zero and a load out of range are undefined.
\<close>

definition memory_lines :: "crash_env \<Rightarrow> rusage \<Rightarrow> u64 \<Rightarrow> unit crprog" where
  "memory_lines E r rlim =
     (let memusage = ru_ixrss r + ru_idrss r + ru_isrss r;
          memtotal = sint rlim;
          memavail = memtotal - memusage;
          q = cdiv memusage memtotal;
          memload = f32 (f32 q * 100)
      in if \<not> fits64 (ru_ixrss r + ru_idrss r) \<or> \<not> fits64 memusage \<or> \<not> fits64 memavail \<or> memtotal = 0
           \<or> \<not> fits64 q \<or> \<not> fits64 memload then undefined_behaviour
         else emit E (''Memory load: '' @ show_int memload @ ''K '' @ [NL]
           @ ''Total memory: '' @ show_int memtotal @ ''K available: '' @ show_int memavail @ ''K'' @ [NL]))"

definition time_line :: "string \<Rightarrow> nat \<times> nat \<Rightarrow> string" where
  "time_line label t = label @ show_nat (fst t div 3600) @ '':'' @ show_nat (fst t mod 3600 div 60)
     @ '':'' @ show_nat (fst t mod 3600 mod 60) @ ''.'' @ show_nat (snd t div 1000) @ [NL]"

text \<open>\<open>options.get\<close> throws where the time of the start has not been put there yet.\<close>

definition process_lines :: "crash_env \<Rightarrow> rusage \<Rightarrow> unit crprog" where
  "process_lines E r = (case boot_time E of
     None \<Rightarrow> throw (Runtime_error ''ptree_bad_path'')
   | Some _ \<Rightarrow> seq (emit E (time_line ''Kernel time: '' (ru_stime r))) (emit E (time_line ''User time: '' (ru_utime r))))"

definition usage_lines :: "crash_env \<Rightarrow> unit crprog" where
  "usage_lines E = (case getrusage E of None \<Rightarrow> skip
   | Some r \<Rightarrow> seq (case getrlimit E of None \<Rightarrow> skip | Some rlim \<Rightarrow> memory_lines E r rlim) (process_lines E r))"

definition signal_line :: "crash_env \<Rightarrow> nat \<Rightarrow> string" where
  "signal_line E signum = ''Signal: '' @ strsignal E signum @ '' ('' @ show_hex signum @ '')''
     @ '' Address: '' @ show_hex (unat (si_addr E)) @ [NL]"

text \<open>
  The text before each register and where the register is read from. On a system of 32 bits the
  values are those of 32 bits.
\<close>

fun register_table :: "platform \<Rightarrow> (string \<times> string) list" where
  "register_table Linux32 = ('' at eip = '', ''REG_EIP'') # zip
     [''eax = '', ''ebx = '', ''ecx = '', ''edx = '', ''esi = '', ''edi = '', ''ebp = '', ''esp = '', ''efl = '']
     [''REG_EAX'', ''REG_EBX'', ''REG_ECX'', ''REG_EDX'', ''REG_ESI'', ''REG_EDI'', ''REG_EBP'', ''REG_ESP'', ''REG_EFL'']"
| "register_table Linux64 = ('' at rip = '', ''REG_RIP'') # zip
     [''rax = '', ''rbx = '', ''rcx = '', ''rdx = '', ''rsi = '', ''rdi = '', ''rbp = '', ''rsp = '', ''efl = '']
     [''REG_RAX'', ''REG_RBX'', ''REG_RCX'', ''REG_RDX'', ''REG_RSI'', ''REG_RDI'', ''REG_RBP'', ''REG_RSP'', ''REG_EFL'']"
| "register_table OpenBSD = ('' at rip '', ''sc_rip'') # zip
     [''rax = '', ''rbx = '', ''rcx = '', ''rdx = '', ''rsi = '', ''rdi = '', ''rbp = '', ''rsp = '']
     [''sc_rax'', ''sc_rbx'', ''sc_rcx'', ''sc_rdx'', ''sc_rsi'', ''sc_rdi'', ''sc_rbp'', ''sc_rsp'']"
| "register_table FreeBSD32 = [('' at eip '', ''mc_eip'')]"
| "register_table FreeBSD64 = [('' at rip '', ''mc_rip'')]"
| "register_table NetBSD = ('' at rip = '', ''_REG_RIP'') # zip
     [''rax = '', ''rbx = '', ''rcx = '', ''rdx = '', ''rsi = '', ''rdi = '', ''rbp = '', ''rsp = '']
     [''_REG_RAX'', ''_REG_RBX'', ''_REG_RCX'', ''_REG_RDX'', ''_REG_RSI'', ''_REG_RDI'', ''_REG_RBP'', ''_REG_RSP'']"
| "register_table MacOS64 = ('' at rip '', ''__rip'') # zip
     [''rax = '', ''rbx = '', ''rcx = '', ''rdx = '', ''rsi = '', ''rdi = '', ''rbp = '', ''rsp = '']
     [''__rax'', ''__rbx'', ''__rcx'', ''__rdx'', ''__rsi'', ''__rdi'', ''__rbp'', ''__rsp'']"
| "register_table MacOS32 = ('' at eip '', ''__eip'') # zip
     [''eax = '', ''ebx = '', ''ecx = '', ''edx = '', ''esi = '', ''edi = '', ''ebp = '', ''esp = '']
     [''__eax'', ''__ebx'', ''__ecx'', ''__edx'', ''__esi'', ''__edi'', ''__ebp'', ''__esp'']"

definition register_lines :: "platform \<Rightarrow> crash_env \<Rightarrow> string" where
  "register_lines pl E = concat (map (\<lambda>(label, r). label @ show_hex (unat (reg E r)) @ [NL]) (register_table pl))"

definition stack_pointer :: "platform \<Rightarrow> crash_env \<Rightarrow> u64" where
  "stack_pointer pl E = (case pl of Linux32 \<Rightarrow> reg E ''REG_ESP'' | Linux64 \<Rightarrow> reg E ''REG_RSP'' | _ \<Rightarrow> 0)"

definition trace_lines :: "platform \<Rightarrow> crash_env \<Rightarrow> string" where
  "trace_lines pl E =
     (if pl \<noteq> OpenBSD \<and> backtrace_symbols_ok E \<and> backtrace E \<noteq> [] then
        ''---Stack Trace---'' @ [NL]
        @ (if pl \<in> {Linux32, Linux64} \<and> stack_pointer pl E \<noteq> 0
           then ''From: '' @ show_hex (unat (stack_pointer pl E)) @ '' to: ''
             @ show_hex (unat (stack_pointer pl E + of_nat (length (backtrace E))) mod (if pl = Linux32 then 2 ^ 32 else 2 ^ 64)) @ [NL]
           else [])
        @ concat (map (\<lambda>sym. sym @ [NL]) (backtrace E))
      else [])"

text \<open>When it returns, the process has ended with \<open>_exit(EXIT_FAILURE)\<close>.\<close>

definition SigHandler :: "platform \<Rightarrow> crash_env \<Rightarrow> nat \<Rightarrow> unit crprog" where
  "SigHandler pl E signum =
     seq (modify (\<lambda>s. s\<lparr>console := console s @ ''Error: generating report file...'' @ [NL]\<rparr>))
     (seq (emit E (report_head E))
     (seq (usage_lines E)
     (seq (emit E ([NL] @ signal_line E signum @ register_lines pl E @ [NL]))
     (emit E (trace_lines pl E)))))"

section \<open>Properties\<close>

text \<open>
  The dispositions belong to the process and each thread has a handler object: the first one that
  is removed puts all three signals back to their defaults, whatever other objects are installed.
  A second removal does nothing.
\<close>

theorem one_removal_disarms_all:
  assumes "isInstalled s h"
  shows "case RemoveHandler h s of (b, t) \<Rightarrow> b
    \<and> (\<forall>g. dispositions t g = (if g \<in> {SIGILL, SIGSEGV, SIGFPE} then Sig_default else dispositions s g))
    \<and> (\<forall>k. k \<noteq> h \<longrightarrow> isInstalled t k = isInstalled s k)
    \<and> RemoveHandler h t = (False, t) \<and> ExceptionHandler_delete h t = t"
  using assms by (auto simp: RemoveHandler_def ExceptionHandler_delete_def set_signals_def)

lemma one_removal_disarms_all_witness:
  "dispositions (snd (RemoveHandler 1 (snd (InstallHandler 1 (snd (InstallHandler 0
      \<lparr>dispositions = (\<lambda>_. Sig_default), isInstalled = (\<lambda>_. False)\<rparr>)))))) SIGSEGV = Sig_default"
  using one_removal_disarms_all [of "snd (InstallHandler 1 (snd (InstallHandler 0
      \<lparr>dispositions = (\<lambda>_. Sig_default), isInstalled = (\<lambda>_. False)\<rparr>)))" 1]
  by (auto simp: InstallHandler_def split: prod.splits)

lemma f32_small:
  assumes "\<bar>n\<bar> < 2 ^ 24"
  shows "f32 n = n"
proof -
  have le: "bits m \<le> k" if "m < 2 ^ k" for m k :: nat
    using that
  proof (induction k arbitrary: m)
    case (Suc k)
    then have "bits (m div 2) \<le> k" by simp
    then show ?case by (subst bits.simps) simp
  qed (simp add: bits.simps)
  have "bits (nat \<bar>n\<bar>) \<le> 24" using assms by (intro le) simp
  then show ?thesis by (simp add: f32_def Let_def sgn_mult_abs)
qed

text \<open>What the memory lines say, where they are defined.\<close>

definition memory_text :: "int \<Rightarrow> int \<Rightarrow> int \<Rightarrow> string" where
  "memory_text load tot avail = ''Memory load: '' @ show_int load @ ''K '' @ [NL]
     @ ''Total memory: '' @ show_int tot @ ''K available: '' @ show_int avail @ ''K'' @ [NL]"

lemma memory_lines_eval:
  assumes "fits64 (ru_ixrss r + ru_idrss r)" "fits64 u" "u = ru_ixrss r + ru_idrss r + ru_isrss r"
    "fits64 (sint rlim - u)" "sint rlim \<noteq> 0" "\<bar>cdiv u (sint rlim)\<bar> < 2 ^ 17"
  shows "memory_lines E r rlim = emit E (memory_text (100 * cdiv u (sint rlim)) (sint rlim) (sint rlim - u))"
proof -
  let ?q = "cdiv u (sint rlim)"
  have "f32 ?q = ?q" "f32 (?q * 100) = ?q * 100" using assms(6) by (auto intro!: f32_small)
  moreover have "fits64 ?q" "fits64 (?q * 100)" using assms(6) by (auto simp: fits64_def)
  ultimately show ?thesis using assms by (simp add: memory_lines_def Let_def memory_text_def mult.commute)
qed

text \<open>
  The division for the load is done before the fraction is taken: a process below its limit is
  always reported with a load of zero, and one without a limit (the largest number, read as \<open>-1\<close>)
  with a negative load and a negative amount of memory.
\<close>

theorem memory_load_says_nothing:
  assumes "0 \<le> ru_ixrss r" "0 \<le> ru_idrss r" "0 \<le> ru_isrss r" "u = ru_ixrss r + ru_idrss r + ru_isrss r"
  shows "u < sint rlim \<Longrightarrow> memory_lines E r rlim = emit E (memory_text 0 (sint rlim) (sint rlim - u))"
    and "u < 2 ^ 17 \<Longrightarrow> memory_lines E r (- 1) = emit E (memory_text (- (100 * u)) (- 1) (- 1 - u))"
proof -
  have top: "sint rlim < 2 ^ 63" using sint_lt [of rlim] by simp
  assume less: "u < sint rlim"
  have "cdiv u (sint rlim) = 0" using assms less by (simp add: cdiv_def)
  moreover have "fits64 (ru_ixrss r + ru_idrss r)" "fits64 u" "fits64 (sint rlim - u)"
    using assms less top by (auto simp: fits64_def)
  ultimately show "memory_lines E r rlim = emit E (memory_text 0 (sint rlim) (sint rlim - u))"
    using memory_lines_eval [of r u rlim E] assms less by simp
next
  assume small: "u < 2 ^ 17"
  have "cdiv u (sint (- 1 :: u64)) = - u" using assms by (simp add: cdiv_def sgn_if)
  moreover have "fits64 (ru_ixrss r + ru_idrss r)" "fits64 u" "fits64 (sint (- 1 :: u64) - u)"
    using assms small by (auto simp: fits64_def)
  ultimately show "memory_lines E r (- 1) = emit E (memory_text (- (100 * u)) (- 1) (- 1 - u))"
    using memory_lines_eval [of r u "- 1" E] assms small by simp
qed

lemma emit_eval: "emit E t s = Ret () (if report_opens E then s\<lparr>report_txt := report_txt s @ t\<rparr> else s\<lparr>console := console s @ t\<rparr>)"
  by (simp add: emit_def prog_eval)

lemma emit_seq: "seq (emit E a) (emit E b) = emit E (a @ b)"
  by (rule ext) (simp add: emit_eval seq_def bind_def)

text \<open>The usage part returns when the memory lines do and the time of the start is known.\<close>

definition usage_known :: "crash_env \<Rightarrow> bool" where
  "usage_known E \<longleftrightarrow> (case getrusage E of None \<Rightarrow> True
   | Some r \<Rightarrow> boot_time E \<noteq> None \<and> (case getrlimit E of None \<Rightarrow> True | Some rlim \<Rightarrow>
       (let u = ru_ixrss r + ru_idrss r + ru_isrss r in 0 \<le> ru_ixrss r \<and> 0 \<le> ru_idrss r \<and> 0 \<le> ru_isrss r
         \<and> (u < sint rlim \<or> rlim = - 1 \<and> u < 2 ^ 17))))"

section \<open>Reading a report back\<close>

text \<open>A reader of reports, which knows nothing of how they are written: their lines, the words of a line, the numbers.\<close>

fun split_on :: "char \<Rightarrow> string \<Rightarrow> string list" where
  "split_on c [] = [[]]"
| "split_on c (x # xs) = (if x = c then [] # split_on c xs
     else case split_on c xs of [] \<Rightarrow> [[x]] | w # ws \<Rightarrow> (x # w) # ws)"

lemma split_on_not_Nil [simp]: "split_on c xs \<noteq> []"
  by (cases xs) (auto split: list.split)

lemma split_on_free [simp]: "c \<notin> set xs \<Longrightarrow> split_on c xs = [xs]"
  by (induction xs) auto

lemma split_on_append: "split_on c (xs @ c # ys) = split_on c xs @ split_on c ys"
  by (induction xs) (auto split: list.split)

definition unlines :: "string list \<Rightarrow> string" where
  "unlines ls = concat (map (\<lambda>l. l @ [NL]) ls)"

lemma unlines_simps [simp]:
  "unlines [] = []" "unlines (l # ls) = l @ NL # unlines ls" "unlines (ls @ ls') = unlines ls @ unlines ls'"
  by (simp_all add: unlines_def)

lemma split_unlines: "\<forall>l \<in> set ls. NL \<notin> set l \<Longrightarrow> split_on NL (unlines ls) = ls @ [[]]"
  by (induction ls) (simp_all add: split_on_append)

definition read_hex :: "string \<Rightarrow> nat" where
  "read_hex t = foldl (\<lambda>n c. 16 * n + length (takeWhile (\<lambda>d. d \<noteq> c) ''0123456789abcdef'')) 0
     (if take 2 t = ''0x'' then drop 2 t else t)"

definition starts :: "string \<Rightarrow> string \<Rightarrow> bool" where
  "starts label l \<longleftrightarrow> take (length label) l = label"

lemma starts_simps [simp]:
  "starts [] l" "\<not> starts (a # as) []" "starts (a # as) (x # xs) \<longleftrightarrow> x = a \<and> starts as xs"
  by (auto simp: starts_def)

lemma starts_hd: "starts (a # as) l \<Longrightarrow> \<exists>l'. l = a # l'"
  by (cases l) auto

text \<open>The rest of the first line that starts with a label.\<close>

definition entry :: "string \<Rightarrow> string \<Rightarrow> string option" where
  "entry label report = map_option (drop (length label)) (find (starts label) (split_on NL report))"

text \<open>
  The lines behind the one of the signal: those up to an empty one are registers, a name and a value with words
  and signs between them; what stands behind the heading of the trace is the trace.
\<close>

definition after_signal :: "string \<Rightarrow> string list" where
  "after_signal report = tl (dropWhile (\<lambda>l. \<not> starts ''Signal: '' l) (split_on NL report))"

definition read_register :: "string \<Rightarrow> string \<times> nat" where
  "read_register l = (case rev (filter (\<lambda>w. w \<noteq> ''='') (split_on (CHR '' '') l)) of
     v # n # _ \<Rightarrow> (n, read_hex v) | _ \<Rightarrow> ([], 0))"

definition read_registers :: "string \<Rightarrow> (string \<times> nat) list" where
  "read_registers report = map read_register (takeWhile (\<lambda>l. l \<noteq> []) (after_signal report))"

definition read_trace :: "string \<Rightarrow> string list" where
  "read_trace report = butlast (tl (dropWhile (\<lambda>l. l \<noteq> ''---Stack Trace---'') (after_signal report)))"

text \<open>The signal's text, its number and the address.\<close>

definition read_signal :: "string \<Rightarrow> (nat \<times> nat) option" where
  "read_signal report = (case entry ''Signal: '' report of None \<Rightarrow> None
     | Some l \<Rightarrow> (case rev (split_on (CHR '' '') l) of
         a # label # n # _ \<Rightarrow> if label = ''Address:'' then Some (read_hex (butlast (tl n)), read_hex a) else None
       | _ \<Rightarrow> None))"

text \<open>The registers of a platform and the field of its context each is in.\<close>

definition registers :: "platform \<Rightarrow> string list" where
  "registers pl = (let general = map (\<lambda>x. (if pl \<in> {Linux32, FreeBSD32, MacOS32} then CHR ''e'' else CHR ''r'') # x)
        [''ip'', ''ax'', ''bx'', ''cx'', ''dx'', ''si'', ''di'', ''bp'', ''sp''] in
     if pl \<in> {FreeBSD32, FreeBSD64} then [hd general]
     else if pl \<in> {Linux32, Linux64} then general @ [''efl''] else general)"

definition register_id :: "platform \<Rightarrow> string \<Rightarrow> string" where
  "register_id pl n = (let upper = map (\<lambda>c. char_of (uc c - 32)) n in case pl of
     Linux32 \<Rightarrow> ''REG_'' @ upper | Linux64 \<Rightarrow> ''REG_'' @ upper | NetBSD \<Rightarrow> ''_REG_'' @ upper
   | OpenBSD \<Rightarrow> ''sc_'' @ n | FreeBSD32 \<Rightarrow> ''mc_'' @ n | FreeBSD64 \<Rightarrow> ''mc_'' @ n
   | MacOS64 \<Rightarrow> ''__'' @ n | MacOS32 \<Rightarrow> ''__'' @ n)"

section \<open>What is read is what was written\<close>

lemma hex_digit: "d < 16 \<Longrightarrow> length (takeWhile (\<lambda>c. c \<noteq> ''0123456789abcdef'' ! d) ''0123456789abcdef'') = d
    \<and> ''0123456789abcdef'' ! d \<in> set ''0123456789abcdef''"
proof -
  have "\<forall>d \<in> set [0..<16]. length (takeWhile (\<lambda>c. c \<noteq> ''0123456789abcdef'' ! d) ''0123456789abcdef'') = d
    \<and> ''0123456789abcdef'' ! d \<in> set ''0123456789abcdef''" by code_simp
  then show "d < 16 \<Longrightarrow> ?thesis" by simp
qed

lemma hex_digits_read:
  "foldl (\<lambda>n c. 16 * n + length (takeWhile (\<lambda>d. d \<noteq> c) ''0123456789abcdef'')) a (hex_digits n)
     = a * 16 ^ length (hex_digits n) + n"
proof (induction n rule: hex_digits.induct)
  case (1 n)
  show ?case
  proof (cases "n < 16")
    case True
    then show ?thesis using hex_digit by (subst (1 2) hex_digits.simps) (simp del: nth_Cons_numeral)
  next
    case False
    then have "hex_digits n = hex_digits (n div 16) @ [''0123456789abcdef'' ! (n mod 16)]" by (subst hex_digits.simps) simp
    then show ?thesis using 1 False hex_digit [of "n mod 16"] by (simp add: algebra_simps)
  qed
qed

lemma hex_digits_set: "set (hex_digits n) \<subseteq> set ''0123456789abcdef''"
proof (induction n rule: hex_digits.induct)
  case (1 n)
  let ?ds = "''0123456789abcdef''"
  have d: "set [?ds ! k] \<subseteq> set ?ds" if "k < 16" for k using hex_digit [OF that] by (simp only: list.set) blast
  show ?case
  proof (cases "n < 16")
    case True
    then have "hex_digits n = [?ds ! n]" by (subst hex_digits.simps) (simp only: if_True)
    then show ?thesis using d [OF True] by simp
  next
    case False
    then have "hex_digits n = hex_digits (n div 16) @ [?ds ! (n mod 16)]" by (subst hex_digits.simps) (simp only: if_False)
    then show ?thesis using 1 [OF False] d [of "n mod 16"] by (simp only: set_append Un_least)
  qed
qed

lemma read_show_hex [simp]: "read_hex (show_hex n) = n"
  using hex_digits_read [of 0 n] by (simp add: read_hex_def show_hex_def)

lemma show_hex_free: "NL \<notin> set (show_hex n)" "CHR '' '' \<notin> set (show_hex n)" "show_hex n \<noteq> ''=''"
  using hex_digits_set [of n] by (auto simp: show_hex_def NL_def)

lemma show_number_free: "NL \<notin> set (show_nat n)" "NL \<notin> set (show_int k)"
proof -
  show "NL \<notin> set (show_nat n)" for n using show_nat_digits [of n] by (auto simp: NL_def uc_def)
  then show "NL \<notin> set (show_int k)" by (auto simp: show_int_def NL_def)
qed

text \<open>The parts of a report as lines.\<close>

definition plain_env :: "crash_env \<Rightarrow> nat \<Rightarrow> string \<Rightarrow> bool" where
  "plain_env E signum day \<longleftrightarrow> ctime_text E = day @ [NL]
     \<and> NL \<notin> set day \<union> set (compiler_string E) \<union> set (compilation_date E) \<union> set (strsignal E signum)
     \<and> (\<forall>t \<in> set (backtrace E). NL \<notin> set t)"

definition head_lines :: "crash_env \<Rightarrow> string \<Rightarrow> string list" where
  "head_lines E day = [replicate 53 (CHR ''*''), ''Error report - '' @ day, [], ''Compiler info - '' @ compiler_string E,
     ''Compilation Date - '' @ compilation_date E, []]"

text \<open>A clock's reading of a number of seconds and microseconds.\<close>

definition shows_time :: "string \<Rightarrow> nat \<times> nat \<Rightarrow> bool" where
  "shows_time c t \<longleftrightarrow> (\<exists>h m s. c = show_nat h @ '':'' @ show_nat m @ '':'' @ show_nat s @ ''.'' @ show_nat (snd t div 1000)
     \<and> m < 60 \<and> s < 60 \<and> h * 3600 + m * 60 + s = fst t)"

lemma time_line_shows: "\<exists>c. time_line label t = unlines [label @ c] \<and> shows_time c t \<and> NL \<notin> set c"
proof -
  let ?h = "fst t div 3600" and ?m = "fst t mod 3600 div 60" and ?s = "fst t mod 3600 mod 60"
  let ?c = "show_nat ?h @ '':'' @ show_nat ?m @ '':'' @ show_nat ?s @ ''.'' @ show_nat (snd t div 1000)"
  have "?m < 60 \<and> ?s < 60 \<and> ?h * 3600 + ?m * 60 + ?s = fst t" by simp
  then have "shows_time ?c t" unfolding shows_time_def by blast
  moreover have "NL \<notin> set ?c" by (simp add: show_number_free) (simp add: NL_def)
  moreover have "time_line label t = unlines [label @ ?c]" by (simp add: time_line_def)
  ultimately show ?thesis by blast
qed

lemma report_head_lines: "ctime_text E = day @ [NL] \<Longrightarrow> report_head E = unlines (head_lines E day)"
  by (simp add: report_head_def head_lines_def)

text \<open>The lines about the use of memory and time, of which only the times are true (\<open>memory_load_says_nothing\<close>).\<close>

definition usage_shown :: "crash_env \<Rightarrow> string list \<Rightarrow> bool" where
  "usage_shown E u \<longleftrightarrow> (\<exists>mem times. u = mem @ times
     \<and> (\<forall>l \<in> set mem. NL \<notin> set l \<and> (starts ''Memory load: '' l \<or> starts ''Total memory: '' l))
     \<and> (case getrusage E of None \<Rightarrow> times = []
        | Some r \<Rightarrow> (\<exists>k c. times = [''Kernel time: '' @ k, ''User time: '' @ c] \<and> NL \<notin> set k \<union> set c
            \<and> shows_time k (ru_stime r) \<and> shows_time c (ru_utime r))))"

lemma memory_text_lines:
  "\<exists>mem. memory_text a b c = unlines mem \<and> (\<forall>l \<in> set mem. NL \<notin> set l \<and> (starts ''Memory load: '' l \<or> starts ''Total memory: '' l))"
proof -
  let ?mem = "[''Memory load: '' @ show_int a @ ''K '', ''Total memory: '' @ show_int b @ ''K available: '' @ show_int c @ ''K'']"
  have "memory_text a b c = unlines ?mem" by (simp add: memory_text_def)
  moreover have "\<forall>l \<in> set ?mem. NL \<notin> set l \<and> (starts ''Memory load: '' l \<or> starts ''Total memory: '' l)"
    by (simp add: show_number_free starts_def) (simp add: NL_def)
  ultimately show ?thesis by blast
qed

lemma process_lines_shown:
  assumes "boot_time E = Some b"
  shows "\<exists>k c. process_lines E r = emit E (unlines [''Kernel time: '' @ k, ''User time: '' @ c])
    \<and> NL \<notin> set k \<union> set c \<and> shows_time k (ru_stime r) \<and> shows_time c (ru_utime r)"
proof -
  obtain k c where "time_line ''Kernel time: '' (ru_stime r) = unlines [''Kernel time: '' @ k]" "shows_time k (ru_stime r)" "NL \<notin> set k"
      "time_line ''User time: '' (ru_utime r) = unlines [''User time: '' @ c]" "shows_time c (ru_utime r)" "NL \<notin> set c"
    using time_line_shows by metis
  then show ?thesis using assms by (intro exI [of _ k] exI [of _ c]) (simp add: process_lines_def emit_seq)
qed

lemma emit_nothing: "emit E [] = skip"
  by (rule ext) (simp add: emit_eval prog_eval)

lemma usage_lines_eval:
  assumes "usage_known E"
  shows "\<exists>u. usage_lines E = emit E (unlines u) \<and> usage_shown E u"
proof (cases "getrusage E")
  case None
  then show ?thesis by (intro exI [of _ "[]"]) (simp add: usage_lines_def usage_shown_def emit_nothing)
next
  case (Some r)
  then obtain b where "boot_time E = Some b" using assms by (auto simp: usage_known_def)
  from process_lines_shown [OF this, of r] obtain k c where
    p: "process_lines E r = emit E (unlines [''Kernel time: '' @ k, ''User time: '' @ c])" "NL \<notin> set k \<union> set c"
      "shows_time k (ru_stime r)" "shows_time c (ru_utime r)"
    by blast
  have "\<exists>mem. (case getrlimit E of None \<Rightarrow> skip | Some rlim \<Rightarrow> memory_lines E r rlim) = emit E (unlines mem)
      \<and> (\<forall>l \<in> set mem. NL \<notin> set l \<and> (starts ''Memory load: '' l \<or> starts ''Total memory: '' l))"
  proof (cases "getrlimit E")
    case None
    then show ?thesis by (intro exI [of _ "[]"]) (simp add: emit_nothing)
  next
    case rlim: (Some rlim)
    have "\<exists>a b c. memory_lines E r rlim = emit E (memory_text a b c)"
      using assms Some rlim memory_load_says_nothing [of r] unfolding usage_known_def Let_def by fastforce
    then obtain a b c where "memory_lines E r rlim = emit E (memory_text a b c)" by blast
    then show ?thesis using rlim memory_text_lines [of a b c] by force
  qed
  then obtain mem where mem: "(case getrlimit E of None \<Rightarrow> skip | Some rlim \<Rightarrow> memory_lines E r rlim) = emit E (unlines mem)"
      "\<forall>l \<in> set mem. NL \<notin> set l \<and> (starts ''Memory load: '' l \<or> starts ''Total memory: '' l)"
    by blast
  let ?u = "mem @ [''Kernel time: '' @ k, ''User time: '' @ c]"
  have "usage_lines E = emit E (unlines ?u)" using Some mem(1) p(1) by (simp add: usage_lines_def emit_seq del: append_Cons)
  moreover have "usage_shown E ?u"
    unfolding usage_shown_def by (intro exI [of _ mem] exI conjI) (use Some mem(2) p in auto)
  ultimately show ?thesis by blast
qed

text \<open>The lines of the registers and of the trace.\<close>

definition register_texts :: "platform \<Rightarrow> crash_env \<Rightarrow> string list" where
  "register_texts pl E = map (\<lambda>(label, r). label @ show_hex (unat (reg E r))) (register_table pl)"

lemma register_lines_texts: "register_lines pl E = unlines (register_texts pl E)"
proof -
  have "concat (map (\<lambda>(label, r). label @ show_hex (unat (reg E r)) @ [NL]) t)
      = unlines (map (\<lambda>(label, r). label @ show_hex (unat (reg E r))) t)" for t
    by (induction t) auto
  then show ?thesis by (simp add: register_lines_def register_texts_def)
qed

text \<open>A label's last word, and what the table says of every platform.\<close>

definition label_name :: "string \<Rightarrow> string" where
  "label_name label = (case rev (filter (\<lambda>w. w \<noteq> ''='') (split_on (CHR '' '') (butlast label))) of n # _ \<Rightarrow> n | [] \<Rightarrow> [])"

definition platforms :: "platform list" where
  "platforms = [Linux32, Linux64, OpenBSD, FreeBSD32, FreeBSD64, NetBSD, MacOS64, MacOS32]"

lemma platforms_all: "list_all P platforms \<Longrightarrow> P pl"
  by (cases pl) (simp_all add: platforms_def)

lemma table_names: "map (\<lambda>(label, r). (label_name label, r)) (register_table pl) = map (\<lambda>n. (n, register_id pl n)) (registers pl)"
  by (cases pl) (simp_all add: label_name_def registers_def register_id_def uc_def Let_def char_of_def bit_0)

lemma table_labels:
  "\<forall>(label, r) \<in> set (register_table pl). label_name label \<noteq> [] \<and> label \<noteq> [] \<and> last label = CHR '' '' \<and> hd label \<noteq> CHR ''-''
     \<and> NL \<notin> set label"
proof -
  have "list_all (\<lambda>pl. \<forall>(label, r) \<in> set (register_table pl). label_name label \<noteq> [] \<and> label \<noteq> [] \<and> last label = CHR '' ''
      \<and> hd label \<noteq> CHR ''-'' \<and> NL \<notin> set label) platforms" by code_simp
  then show ?thesis by (rule platforms_all)
qed

lemma read_register_label:
  assumes "label_name label \<noteq> []" "label \<noteq> []" "last label = CHR '' ''"
  shows "read_register (label @ show_hex n) = (label_name label, n)"
proof -
  have "label = butlast label @ [CHR '' '']" using assms(2,3) by (metis append_butlast_last_id)
  then have "label @ show_hex n = butlast label @ CHR '' '' # show_hex n" by (metis append.assoc append_Cons append_Nil)
  then have "split_on (CHR '' '') (label @ show_hex n) = split_on (CHR '' '') (butlast label) @ [show_hex n]"
    by (simp only: split_on_append) (simp add: show_hex_free)
  then show ?thesis using assms(1)
    by (auto simp: read_register_def label_name_def show_hex_free split: list.splits)
qed

lemma read_register_texts: "map read_register (register_texts pl E) = map (\<lambda>n. (n, unat (reg E (register_id pl n)))) (registers pl)"
proof -
  have "map read_register (register_texts pl E) = map (\<lambda>(n, r). (n, unat (reg E r))) (map (\<lambda>(label, r). (label_name label, r)) (register_table pl))"
    using table_labels [of pl] by (auto simp: register_texts_def read_register_label)
  then show ?thesis by (simp add: table_names comp_def)
qed

lemma register_texts_plain:
  assumes "l \<in> set (register_texts pl E)"
  shows "l \<noteq> [] \<and> NL \<notin> set l \<and> hd l \<noteq> CHR ''-''"
proof -
  obtain label r where "(label, r) \<in> set (register_table pl)" "l = label @ show_hex (unat (reg E r))"
    using assms by (auto simp: register_texts_def)
  then show ?thesis using table_labels [of pl] by (auto simp: show_hex_free)
qed

definition trace_texts :: "platform \<Rightarrow> crash_env \<Rightarrow> string list \<Rightarrow> bool" where
  "trace_texts pl E ls \<longleftrightarrow> (if pl \<noteq> OpenBSD \<and> backtrace_symbols_ok E \<and> backtrace E \<noteq> []
     then \<exists>from. ls = ''---Stack Trace---'' # from @ backtrace E \<and> (from = [] \<or> pl \<in> {Linux32, Linux64} \<and> length from = 1)
       \<and> (\<forall>l \<in> set from. NL \<notin> set l) else ls = [])"

lemma trace_lines_texts: "\<exists>ls. trace_lines pl E = unlines ls \<and> trace_texts pl E ls"
proof (cases "pl \<noteq> OpenBSD \<and> backtrace_symbols_ok E \<and> backtrace E \<noteq> []")
  case True
  let ?to = "show_hex (unat (stack_pointer pl E + of_nat (length (backtrace E))) mod (if pl = Linux32 then 2 ^ 32 else 2 ^ 64))"
  let ?from = "if pl \<in> {Linux32, Linux64} \<and> stack_pointer pl E \<noteq> 0
    then [''From: '' @ show_hex (unat (stack_pointer pl E)) @ '' to: '' @ ?to] else []"
  have "trace_lines pl E = unlines (''---Stack Trace---'' # ?from @ backtrace E)"
    using True by (simp add: trace_lines_def unlines_def)
  moreover have "\<forall>l \<in> set ?from. NL \<notin> set l" by (simp add: show_hex_free) (simp add: NL_def)
  moreover have "?from = [] \<or> pl \<in> {Linux32, Linux64} \<and> length ?from = 1" by simp
  ultimately show ?thesis using True unfolding trace_texts_def by (intro exI [of _ "''---Stack Trace---'' # ?from @ backtrace E"]) auto
qed (auto simp: trace_lines_def trace_texts_def)

definition report_of :: "platform \<Rightarrow> crash_env \<Rightarrow> nat \<Rightarrow> string list \<Rightarrow> string" where
  "report_of pl E signum u = report_head E @ unlines u @ [NL] @ signal_line E signum @ register_lines pl E @ [NL] @ trace_lines pl E"

definition signal_text :: "crash_env \<Rightarrow> nat \<Rightarrow> string" where
  "signal_text E signum = ''Signal: '' @ strsignal E signum @ '' ('' @ show_hex signum @ '') Address: '' @ show_hex (unat (si_addr E))"

lemma report_split:
  assumes "plain_env E signum day" "usage_shown E u"
  shows "\<exists>ls. trace_texts pl E ls \<and> split_on NL (report_of pl E signum u)
    = head_lines E day @ u @ [] # signal_text E signum # register_texts pl E @ [] # ls @ [[]]"
proof -
  obtain ls where ls: "trace_lines pl E = unlines ls" "trace_texts pl E ls" using trace_lines_texts by blast
  have day: "ctime_text E = day @ [NL]" using assms(1) by (simp add: plain_env_def)
  let ?L = "head_lines E day @ u @ [] # signal_text E signum # register_texts pl E @ [] # ls"
  have "report_of pl E signum u = unlines ?L"
    by (simp add: report_of_def report_head_lines [OF day] ls(1) register_lines_texts signal_line_def signal_text_def)
  moreover have "\<forall>l \<in> set ?L. NL \<notin> set l"
  proof -
    have "\<forall>l \<in> set (head_lines E day). NL \<notin> set l" "NL \<notin> set (signal_text E signum)"
      using assms(1) by (auto simp: head_lines_def signal_text_def plain_env_def NL_def show_hex_free [unfolded NL_def])
    moreover have "\<forall>l \<in> set u. NL \<notin> set l"
      using assms(2) by (auto simp: usage_shown_def NL_def split: option.splits)
    moreover have "\<forall>l \<in> set ls. NL \<notin> set l"
      using ls(2) assms(1) by (auto simp: trace_texts_def plain_env_def NL_def split: if_splits)
    ultimately show ?thesis using register_texts_plain by auto
  qed
  ultimately have "split_on NL (report_of pl E signum u) = ?L @ [[]]" by (simp only: split_unlines)
  then show ?thesis using ls(2) by (intro exI [of _ ls]) simp
qed

text \<open>Every line about the usage begins with one of four letters.\<close>

lemma usage_letters:
  assumes "usage_shown E u" and "l \<in> set u"
  shows "\<exists>c l'. l = c # l' \<and> c \<in> set ''MTKU''"
proof -
  have "starts ''Memory load: '' l \<or> starts ''Total memory: '' l \<or> starts ''Kernel time: '' l \<or> starts ''User time: '' l"
    using assms unfolding usage_shown_def by (cases "getrusage E") auto
  then show ?thesis by (auto dest!: starts_hd)
qed

lemma find_append: "find P (xs @ ys) = (case find P xs of None \<Rightarrow> find P ys | Some x \<Rightarrow> Some x)"
  by (induction xs) auto

lemma find_others: "\<forall>x \<in> set xs. \<not> P x \<Longrightarrow> find P (xs @ ys) = find P ys"
  by (induction xs) auto

lemma dropWhile_others: "\<forall>x \<in> set xs. P x \<Longrightarrow> dropWhile P (xs @ ys) = dropWhile P ys"
  by (induction xs) auto

lemma stars: "replicate 53 c = c # replicate 52 (c :: char)"
  using replicate_Suc [of 52 c] by simp

lemma head_others: "a \<notin> set ''*EC'' \<Longrightarrow> \<forall>l \<in> set (head_lines E day). \<not> starts (a # as) l"
  by (auto simp: head_lines_def stars)

lemma usage_others: "usage_shown E u \<Longrightarrow> a \<notin> set ''MTKU'' \<Longrightarrow> \<forall>l \<in> set u. \<not> starts (a # as) l"
  by (auto dest!: usage_letters)

lemma read_head:
  assumes "plain_env E signum day" "usage_shown E u"
  shows "entry ''Error report - '' (report_of pl E signum u) = Some day"
    "entry ''Compiler info - '' (report_of pl E signum u) = Some (compiler_string E)"
    "entry ''Compilation Date - '' (report_of pl E signum u) = Some (compilation_date E)"
  using report_split [OF assms, of pl] by (auto simp: entry_def head_lines_def stars)

lemma read_times:
  assumes "plain_env E signum day" "usage_shown E u" "getrusage E = Some r"
  shows "\<exists>k c. entry ''Kernel time: '' (report_of pl E signum u) = Some k \<and> shows_time k (ru_stime r)
    \<and> entry ''User time: '' (report_of pl E signum u) = Some c \<and> shows_time c (ru_utime r)"
proof -
  obtain mem k c where u: "u = mem @ [''Kernel time: '' @ k, ''User time: '' @ c]" "shows_time k (ru_stime r)"
      "shows_time c (ru_utime r)" "\<forall>l \<in> set mem. starts ''Memory load: '' l \<or> starts ''Total memory: '' l"
    using assms(2,3) by (auto simp: usage_shown_def)
  then have mem: "\<forall>l \<in> set mem. \<not> starts ''Kernel time: '' l" "\<forall>l \<in> set mem. \<not> starts ''User time: '' l"
    by (auto dest!: starts_hd)
  have head: "\<forall>l \<in> set (head_lines E day). \<not> starts ''Kernel time: '' l" "\<forall>l \<in> set (head_lines E day). \<not> starts ''User time: '' l"
    by (rule head_others; simp)+
  obtain ls where "split_on NL (report_of pl E signum u) = head_lines E day @ mem @ (''Kernel time: '' @ k) # (''User time: '' @ c) # ls"
    using report_split [OF assms(1,2), of pl] u(1) by auto
  then have "entry ''Kernel time: '' (report_of pl E signum u) = Some k" "entry ''User time: '' (report_of pl E signum u) = Some c"
    by (simp_all add: entry_def find_others mem head)
  then show ?thesis using u(2,3) by blast
qed

lemma behind_signal:
  assumes "plain_env E signum day" "usage_shown E u"
  shows "\<exists>ls. trace_texts pl E ls \<and> after_signal (report_of pl E signum u) = register_texts pl E @ [] # ls @ [[]]
    \<and> entry ''Signal: '' (report_of pl E signum u) = Some (drop (length ''Signal: '') (signal_text E signum))"
proof -
  obtain ls where ls: "trace_texts pl E ls" "split_on NL (report_of pl E signum u)
      = head_lines E day @ u @ [] # signal_text E signum # register_texts pl E @ [] # ls @ [[]]"
    using report_split [OF assms, of pl] by blast
  have no: "\<forall>l \<in> set (head_lines E day). \<not> starts ''Signal: '' l" "\<forall>l \<in> set u. \<not> starts ''Signal: '' l"
    by (rule head_others usage_others [OF assms(2)]; simp)+
  have yes: "starts ''Signal: '' (signal_text E signum)" by (simp add: signal_text_def)
  have "after_signal (report_of pl E signum u) = register_texts pl E @ [] # ls @ [[]]"
    using no yes by (simp add: after_signal_def ls(2) dropWhile_others)
  moreover have "entry ''Signal: '' (report_of pl E signum u) = Some (drop (length ''Signal: '') (signal_text E signum))"
    using no yes by (simp add: entry_def ls(2) find_others)
  ultimately show ?thesis using ls(1) by blast
qed

lemma read_signal_report:
  assumes "plain_env E signum day" "usage_shown E u"
  shows "read_signal (report_of pl E signum u) = Some (signum, unat (si_addr E))"
proof -
  let ?n = "CHR ''('' # show_hex signum @ '')''" and ?a = "show_hex (unat (si_addr E))"
  have "entry ''Signal: '' (report_of pl E signum u)
      = Some (strsignal E signum @ CHR '' '' # ?n @ CHR '' '' # ''Address:'' @ CHR '' '' # ?a)"
    using behind_signal [OF assms, of pl] by (auto simp: signal_text_def)
  moreover have "split_on (CHR '' '') (strsignal E signum @ CHR '' '' # ?n @ CHR '' '' # ''Address:'' @ CHR '' '' # ?a)
      = split_on (CHR '' '') (strsignal E signum) @ [?n, ''Address:'', ?a]"
    by (simp only: split_on_append) (simp add: show_hex_free)
  ultimately show ?thesis by (simp add: read_signal_def butlast_append)
qed

lemma read_registers_report:
  assumes "plain_env E signum day" "usage_shown E u"
  shows "read_registers (report_of pl E signum u) = map (\<lambda>n. (n, unat (reg E (register_id pl n)))) (registers pl)"
proof -
  obtain ls where "after_signal (report_of pl E signum u) = register_texts pl E @ [] # ls"
    using behind_signal [OF assms, of pl] by blast
  moreover have "takeWhile (\<lambda>l. l \<noteq> []) (register_texts pl E @ [] # ls) = register_texts pl E"
    using register_texts_plain [of _ pl E] by (subst takeWhile_append2) auto
  ultimately show ?thesis by (simp add: read_registers_def read_register_texts)
qed

lemma read_trace_report:
  assumes "plain_env E signum day" "usage_shown E u"
  shows "\<exists>from. read_trace (report_of pl E signum u) = from @ (if pl = OpenBSD \<or> \<not> backtrace_symbols_ok E then [] else backtrace E)
    \<and> (from = [] \<or> pl \<in> {Linux32, Linux64} \<and> length from = 1)"
proof -
  obtain ls where ls: "trace_texts pl E ls" "after_signal (report_of pl E signum u) = register_texts pl E @ [] # ls @ [[]]"
    using behind_signal [OF assms, of pl] by blast
  have "\<forall>l \<in> set (register_texts pl E). l \<noteq> ''---Stack Trace---''" by (auto dest!: register_texts_plain)
  then have "read_trace (report_of pl E signum u) = butlast (tl (dropWhile (\<lambda>l. l \<noteq> ''---Stack Trace---'') (ls @ [[]])))"
    by (simp add: read_trace_def ls(2) dropWhile_others)
  then show ?thesis using ls(1)
    by (cases "pl \<noteq> OpenBSD \<and> backtrace_symbols_ok E \<and> backtrace E \<noteq> []") (auto simp: trace_texts_def butlast_append)
qed

text \<open>
  Claim C39: the report of a crash can be read back. Once the server has noted the time of its start, with a limit of
  memory above the usage or none at all, and where the texts the system gives are lines, the handler
  returns; what it writes goes to the report file where that opens, else to the console. A reader
  then finds in it the day, the compiler, the time used in the kernel and outside it, the number of the signal
  and the address, under the name of every register of the platform the value of the field of the context with that
  name, in the order of the platform's list, and every entry of the trace in its order, on
  Linux behind the line that tells the range of the stack.
\<close>

theorem crash_report_complete:
  assumes "usage_known E" and "plain_env E signum day"
  shows "\<exists>report. SigHandler pl E signum s = Ret ()
      (if report_opens E then s\<lparr>console := console s @ ''Error: generating report file...'' @ [NL], report_txt := report_txt s @ report\<rparr>
       else s\<lparr>console := console s @ ''Error: generating report file...'' @ [NL] @ report\<rparr>)
    \<and> entry ''Error report - '' report = Some day
    \<and> entry ''Compiler info - '' report = Some (compiler_string E)
    \<and> entry ''Compilation Date - '' report = Some (compilation_date E)
    \<and> (\<forall>r. getrusage E = Some r \<longrightarrow> (\<exists>k c. entry ''Kernel time: '' report = Some k \<and> shows_time k (ru_stime r)
         \<and> entry ''User time: '' report = Some c \<and> shows_time c (ru_utime r)))
    \<and> read_signal report = Some (signum, unat (si_addr E))
    \<and> read_registers report = map (\<lambda>n. (n, unat (reg E (register_id pl n)))) (registers pl)
    \<and> (\<exists>from. read_trace report = from @ (if pl = OpenBSD \<or> \<not> backtrace_symbols_ok E then [] else backtrace E)
         \<and> (from = [] \<or> pl \<in> {Linux32, Linux64} \<and> length from = 1))"
proof -
  obtain u where u: "usage_lines E = emit E (unlines u)" "usage_shown E u" using usage_lines_eval [OF assms(1)] by blast
  note fits = assms(2) u(2)
  have "SigHandler pl E signum s = Ret ()
      (if report_opens E then s\<lparr>console := console s @ ''Error: generating report file...'' @ [NL], report_txt := report_txt s @ report_of pl E signum u\<rparr>
       else s\<lparr>console := console s @ ''Error: generating report file...'' @ [NL] @ report_of pl E signum u\<rparr>)"
    using u(1) by (simp add: SigHandler_def emit_seq emit_eval seq_def bind_def prog_eval report_of_def)
  then show ?thesis
    using read_head [OF fits, of pl] read_times [OF fits, of _ pl] read_signal_report [OF fits, of pl]
      read_registers_report [OF fits, of pl] read_trace_report [OF fits, of pl]
    by (intro exI [of _ "report_of pl E signum u"]) blast
qed

definition sample_crash :: crash_env where
  "sample_crash = \<lparr>report_opens = False, ctime_text = ''now'' @ [NL], compiler_string = [], compilation_date = ''d'',
     getrusage = Some \<lparr>ru_ixrss = 5, ru_idrss = 0, ru_isrss = 0, ru_stime = (3725, 5000), ru_utime = (0, 0)\<rparr>,
     getrlimit = Some (- 1), boot_time = Some 7, strsignal = (\<lambda>_. ''SEGV''), si_addr = 0x1f,
     reg = (\<lambda>n. if n = ''mc_rip'' then 16 else 0), backtrace = [''f'', ''g''], backtrace_symbols_ok = True\<rparr>"

theorem crash_report_complete_witness:
  "\<exists>report t. SigHandler FreeBSD64 sample_crash 11 \<lparr>console = [], report_txt = []\<rparr> = Ret () t \<and> report_txt t = []
     \<and> console t = ''Error: generating report file...'' @ [NL] @ report \<and> read_signal report = Some (11, 31) \<and> read_registers report = [(''rip'', 16)] \<and> read_trace report = [''f'', ''g'']"
proof -
  have "usage_known sample_crash" "plain_env sample_crash 11 ''now''"
    by (simp_all add: usage_known_def plain_env_def sample_crash_def NL_def)
  from crash_report_complete [OF this, of FreeBSD64 "\<lparr>console = [], report_txt = []\<rparr>"]
  show ?thesis by (auto simp: registers_def register_id_def sample_crash_def)
qed

text \<open>
  The part of a second is its milliseconds without leading zeros: five milliseconds past one hour,
  two minutes and five seconds are written as half a second.
\<close>

lemma time_line_sample: "time_line ''t '' (3725, 5000) = ''t 1:2:5.5'' @ [NL]"
  by code_simp

text \<open>A crash before the time of the start is noted throws out of the handler.\<close>

theorem crash_before_boot_throws:
  assumes "boot_time E = None" "getrusage E = Some r" "getrlimit E = None"
  shows "\<exists>t. SigHandler pl E signum s = Exn (Runtime_error ''ptree_bad_path'') t"
  using assms by (simp add: SigHandler_def usage_lines_def process_lines_def emit_eval seq_def bind_def prog_eval)

theorem crash_before_boot_throws_witness:
  "\<exists>t. SigHandler Linux64 (sample_crash\<lparr>boot_time := None, getrlimit := None\<rparr>) 11 \<lparr>console = [], report_txt = []\<rparr>
     = Exn (Runtime_error ''ptree_bad_path'') t"
  by (rule crash_before_boot_throws) (simp_all add: sample_crash_def)

end
