(* ===== verification/Server.thy ===== *)
theory Server
  imports Startup Tasks CrashReport
begin

text \<open>
  The life of the process: \<open>init\<close> and \<open>main\<close> (\<open>src/main.cpp\<close>), the sinks of the log
  (\<open>src/Log/Logger.cpp\<close>) and \<open>Talker::shutdown\<close> (\<open>src/Common/Talker.cpp\<close>).
\<close>

section \<open>Log\<close>

fun level_rank :: "severity_level \<Rightarrow> nat" where
  "level_rank LTRACE = 0"
| "level_rank LDEBUG = 1"
| "level_rank LINFO = 2"
| "level_rank LWARNING = 3"
| "level_rank LERROR = 4"
| "level_rank LFATAL = 5"

instantiation severity_level :: linorder
begin

definition less_eq_severity_level :: "severity_level \<Rightarrow> severity_level \<Rightarrow> bool" where
  "less_eq_severity_level a b = (level_rank a \<le> level_rank b)"

definition less_severity_level :: "severity_level \<Rightarrow> severity_level \<Rightarrow> bool" where
  "less_severity_level a b = (level_rank a < level_rank b)"

instance
proof
  fix a b :: severity_level
  show "a \<le> b \<Longrightarrow> b \<le> a \<Longrightarrow> a = b"
    by (cases a; cases b) (simp_all add: less_eq_severity_level_def)
qed (auto simp: less_eq_severity_level_def less_severity_level_def)

end

record logger =
  console_level :: severity_level
  file_level :: severity_level
  file_pattern :: string

text \<open>\<open>None\<close> is the exception of \<open>to_severity\<close> for a level that is none.\<close>

definition Logger_init :: "ptree \<Rightarrow> logger option" where
  "Logger_init o' =
     (let text = (\<lambda>path. case o' path of None \<Rightarrow> [] | Some v \<Rightarrow> v) in
      case to_severity (text ''global.log.console.level'') of None \<Rightarrow> None
      | Some c \<Rightarrow> (case to_severity (text ''global.log.file.level'') of None \<Rightarrow> None
          | Some f \<Rightarrow> Some \<lparr>console_level = c, file_level = f, file_pattern = text ''global.log.dir'' @ ''/%Y-%m-%d.log''\<rparr>))"

section \<open>The process\<close>

record machine =
  is_root :: bool
  time_text :: string
  cwd_text :: string
  cpus_text :: string
  pid_text :: string
  canonical :: "string \<Rightarrow> string option"
  can_write :: "string \<Rightarrow> bool"

text \<open>
  \<open>on_disk\<close>: the files but that of the log, whose lines are \<open>file_log\<close>; the configuration is taken not to name one
  of the log's files as the file for the process id.
\<close>

record process_state =
  p_options :: ptree
  on_disk :: "string \<Rightarrow> string option"
  closes_pid_file :: bool
  p_logger :: "logger option"
  console_log :: "string list"
  file_log :: "string list"
  p_handlers :: handlers

type_synonym 'a procprog = "(stop, process_state, 'a) prog"

definition on_options :: "'a cfg \<Rightarrow> 'a procprog" where
  "on_options m s = (case m (p_options s) of
     Ret a o' \<Rightarrow> Ret a (s\<lparr>p_options := o'\<rparr>) | Exn e o' \<Rightarrow> Exn e (s\<lparr>p_options := o'\<rparr>)
   | Undefined \<Rightarrow> Undefined | Hang \<Rightarrow> Hang)"

definition log_message :: "severity_level \<Rightarrow> string \<Rightarrow> unit procprog" where
  "log_message lv t = modify (\<lambda>s. case p_logger s of None \<Rightarrow> s
     | Some lg \<Rightarrow> s\<lparr>console_log := console_log s @ (if console_level lg \<le> lv then [t] else []),
                    file_log := file_log s @ (if file_level lg \<le> lv then [t] else [])\<rparr>)"

definition init_logger :: "unit procprog" where
  "init_logger = bind (gets (\<lambda>s. Logger_init (p_options s))) (\<lambda>lg. case lg of
     None \<Rightarrow> throw Unreadable | Some l \<Rightarrow> modify (\<lambda>s. s\<lparr>p_logger := Some l\<rparr>))"

text \<open>\<open>get<bool>\<close> with the default \<open>false\<close>, for the texts \<open>put\<close> and a reader of 0 and 1 give.\<close>

definition get_bool :: "string \<Rightarrow> bool cfg" where
  "get_bool path = gets (\<lambda>o'. o' path \<in> {Some ''true'', Some ''1''})"

definition log_text :: "string \<Rightarrow> string \<Rightarrow> unit procprog" where
  "log_text label path = bind (on_options (get_str path)) (\<lambda>v. log_message LINFO (label @ v))"

definition log_configuration :: "machine \<Rightarrow> files \<Rightarrow> unit procprog" where
  "log_configuration M F =
     seq (log_text ''Server name: '' ''global.serverName'')
     (seq (log_text ''Original dir: '' ''runtime.originalDir'')
     (seq (bind (on_options (get_str ''global.workingDir'')) (\<lambda>d. case canonical M d of
        None \<Rightarrow> throw Unreadable | Some c \<Rightarrow> log_message LINFO (''Working dir: '' @ c)))
     (seq (log_text ''Log dir: '' ''global.log.dir'')
     (seq (bind (on_options (get_int F ''global.userPort'')) (\<lambda>n. log_message LINFO (''User port: '' @ show_int n)))
     (log_message LINFO ''Done.'')))))"

text \<open>A file that does not open is not noticed; the exit handler is registered in any case.\<close>

definition write_pid_file :: "machine \<Rightarrow> unit procprog" where
  "write_pid_file M = bind (on_options (get_str ''global.pidFile'')) (\<lambda>f. whenb (f \<noteq> [])
     (modify (\<lambda>s. s\<lparr>on_disk := (if can_write M f then (on_disk s)(f \<mapsto> pid_text M) else on_disk s), closes_pid_file := True\<rparr>)))"

definition closePidFile :: "process_state \<Rightarrow> process_state" where
  "closePidFile s = (case p_options s ''global.pidFile'' of
     Some f \<Rightarrow> if f \<noteq> [] \<and> on_disk s f \<noteq> None then s\<lparr>on_disk := (on_disk s)(f := None)\<rparr> else s
   | None \<Rightarrow> s)"

definition init :: "machine \<Rightarrow> files \<Rightarrow> unit procprog" where
  "init M F =
     seq (on_options (seq (put_str ''runtime.originalDir'' (cwd_text M))
       (seq (put_str ''runtime.bootTime'' (time_text M)) (put_str ''runtime.serverTime'' (time_text M)))))
     (seq (on_options (parseConfig F))
     (seq init_logger
     (seq (bind (on_options (get_bool ''global.suppress_config_info'')) (\<lambda>b. whenb (\<not> b) (log_configuration M F)))
     (seq (log_message LINFO (''Number of found CPUs: '' @ cpus_text M))
     (write_pid_file M)))))"

text \<open>
  \<open>main\<close> up to the start of the threads: the exit code where it returns before. The branch for the
  daemon is switched off in the source.
\<close>

definition main_start :: "machine \<Rightarrow> files \<Rightarrow> cmdline \<Rightarrow> nat option procprog" where
  "main_start M F cl =
     (if is_root M then ret (Some 1)
      else bind (on_options (configure F cl)) (\<lambda>go.
        if \<not> go then ret (Some 0)
        else seq (modify (\<lambda>s. s\<lparr>p_handlers := snd (InstallHandler 0 (p_handlers s))\<rparr>)) (seq (init M F) (ret None))))"

text \<open>
  How the process comes out of it. \<open>exit\<close> and the return of \<open>main\<close> run the exit handler, an exception
  that nobody catches does not.
\<close>

datatype process_end = Exited nat process_state | Aborted process_state | Running process_state | Broken

definition exit_process :: "process_state \<Rightarrow> process_state" where
  "exit_process s = (if closes_pid_file s then closePidFile s else s)"

definition run_process :: "machine \<Rightarrow> files \<Rightarrow> cmdline \<Rightarrow> process_state \<Rightarrow> process_end" where
  "run_process M F cl s = (case main_start M F cl s of
     Ret (Some n) t \<Rightarrow> Exited n (exit_process t)
   | Ret None t \<Rightarrow> Running t
   | Exn (Exit msg) t \<Rightarrow> Exited 1 (exit_process t)
   | Exn Unreadable t \<Rightarrow> Aborted t
   | _ \<Rightarrow> Broken)"

definition process_new :: "(string \<Rightarrow> string option) \<Rightarrow> process_state" where
  "process_new disk = \<lparr>p_options = (\<lambda>_. None), on_disk = disk, closes_pid_file = False, p_logger = None,
     console_log = [], file_log = [], p_handlers = \<lparr>dispositions = (\<lambda>_. Sig_default), isInstalled = (\<lambda>_. False)\<rparr>\<rparr>"

section \<open>Shutting down\<close>

record 'f talker_system =
  t_sched :: "'f sched"
  t_disp :: "'f disp"
  t_world :: world
  t_servicer :: "smgr option"

text \<open>A part of the system runs one of its operations.\<close>

definition on_part :: "('s \<Rightarrow> 'p) \<Rightarrow> ('p \<Rightarrow> 's \<Rightarrow> 's) \<Rightarrow> ('e \<Rightarrow> 'x) \<Rightarrow> ('e, 'p, 'a) prog \<Rightarrow> ('x, 's, 'a) prog" where
  "on_part part put ex m s = (case m (part s) of
     Ret a p \<Rightarrow> Ret a (put p s) | Exn e p \<Rightarrow> Exn (ex e) (put p s) | Undefined \<Rightarrow> Undefined | Hang \<Rightarrow> Hang)"

definition Talker_start :: "smgr \<Rightarrow> 'f talker_system \<Rightarrow> 'f talker_system" where
  "Talker_start servicer s = s\<lparr>t_servicer := Some servicer\<rparr>"

definition Talker_shutdown :: "('f \<Rightarrow> bool) \<Rightarrow> (uexn, 'f talker_system, unit) prog" where
  "Talker_shutdown enters =
     seq (modify (\<lambda>s. s\<lparr>t_sched := sched_shutdown (t_sched s)\<rparr>))
     (seq (on_part t_disp (\<lambda>d s. s\<lparr>t_disp := d\<rparr>) Std (shutdown enters))
     (seq (on_part t_world (\<lambda>w s. s\<lparr>t_world := w\<rparr>) id Talker_cleanup)
     (bind (gets t_servicer) (\<lambda>m. case m of None \<Rightarrow> skip
      | Some sm \<Rightarrow> on_part (\<lambda>_. sm) (\<lambda>sm' s. s\<lparr>t_servicer := Some sm'\<rparr>) Std manager_stop))))"

section \<open>Properties\<close>

lemma wp_on_options [wp_simps]:
  "wp (on_options m) Q R = (\<lambda>s. wp m (\<lambda>a o'. Q a (s\<lparr>p_options := o'\<rparr>)) (\<lambda>e o'. R e (s\<lparr>p_options := o'\<rparr>)) (p_options s))"
  by (rule ext) (simp add: wp_def on_options_def split: out.split)

lemma options_wp:
  "wp (configure F cl) (\<lambda>go o'. go \<longrightarrow>
      o' ''global.log.console.level'' = severity_to_string (cl_logLevelC cl)
      \<and> o' ''global.log.file.level'' = severity_to_string (cl_logLevelF cl)) (\<lambda>_ _. True) o1"
proof -
  have lv: "\<exists>t. severity_to_string l = Some t" for l
    using severity_names by fastforce
  obtain a b where "severity_to_string (cl_logLevelC cl) = Some a" "severity_to_string (cl_logLevelF cl) = Some b"
    using lv by metis
  then show ?thesis
    by (auto simp: configure_def read_config_def level_text_def put_str_def get_int_def wp_simps split: option.split)
qed

lemma check_dir_wp:
  "wp (check_dir F path msg) (\<lambda>_ o2. \<forall>q. q \<noteq> path \<longrightarrow> o2 q = o1 q) (\<lambda>_ _. True) o1"
  by (auto simp: check_dir_def get_str_def put_str_def wp_simps)

lemma parseConfig_wp:
  "wp (parseConfig F) (\<lambda>_ o2. parseConfig F o1 = Ret () o2
      \<and> (\<forall>q. q \<notin> {''global.workingDir'', ''global.log.dir''} \<longrightarrow> o2 q = o1 q)) (\<lambda>_ _. True) o1"
proof -
  have "wp (parseConfig F) (\<lambda>_ o2. \<forall>q. q \<notin> {''global.workingDir'', ''global.log.dir''} \<longrightarrow> o2 q = o1 q) (\<lambda>_ _. True) o1"
    unfolding parseConfig_def get_str_def get_int_def
    by (auto simp: wp_simps intro!: wp_mono [OF check_dir_wp])
  then show ?thesis by (auto simp: wp_def split: out.splits)
qed

lemma level_text_read: "severity_to_string l = Some n \<Longrightarrow> to_severity n = Some l"
  by (cases l) (auto simp: severity_to_string_def to_severity_def severityMap_def toupper_def is_lower_def uc_def)

lemma Logger_init_levels:
  assumes "o' ''global.log.console.level'' = severity_to_string c" "o' ''global.log.file.level'' = severity_to_string f"
  shows "\<exists>lg. Logger_init o' = Some lg \<and> console_level lg = c \<and> file_level lg = f"
proof -
  obtain a b where "severity_to_string c = Some a" "severity_to_string f = Some b" using severity_names by fastforce
  then show ?thesis using assms level_text_read by (fastforce simp: Logger_init_def Let_def)
qed

text \<open>Writing to the log changes the logs only.\<close>

definition logs_only :: "process_state \<Rightarrow> process_state \<Rightarrow> bool" where
  "logs_only s t \<longleftrightarrow> t = s\<lparr>console_log := console_log t, file_log := file_log t\<rparr>"

lemma logs_only_refl [simp]: "logs_only s s"
  by (simp add: logs_only_def)

lemma logs_only_parts: "logs_only s t \<Longrightarrow> p_options t = p_options s \<and> on_disk t = on_disk s
    \<and> closes_pid_file t = closes_pid_file s \<and> p_logger t = p_logger s \<and> p_handlers t = p_handlers s"
  unfolding logs_only_def by (cases s; cases t) simp

lemma log_message_wp: "logs_only s0 s \<Longrightarrow> wp (log_message lv x) (\<lambda>_. logs_only s0) (\<lambda>_. logs_only s0) s"
  by (cases s; cases s0) (auto simp: log_message_def wp_simps logs_only_def split: option.split)

lemma log_line_wp: "logs_only s0 s \<Longrightarrow> wp (log_message lv x) (\<lambda>_. logs_only s0) R s"
  using log_message_wp [of s0 s lv x] by (auto simp: log_message_def wp_def prog_eval split: out.splits)

lemma log_text_wp: "logs_only s0 s \<Longrightarrow> wp (log_text l x) (\<lambda>_. logs_only s0) R s"
  by (simp add: log_text_def wp_simps get_str_def log_line_wp)

lemma logs_seq:
  "wp m (\<lambda>_. logs_only s0) R s \<Longrightarrow> (\<And>t. logs_only s0 t \<Longrightarrow> wp n (\<lambda>_. logs_only s0) R t)
    \<Longrightarrow> wp (seq m n) (\<lambda>_. logs_only s0) R s"
  by (auto simp: wp_seq elim: wp_mono)

definition working_dir :: "process_state \<Rightarrow> string" where
  "working_dir s = (case p_options s ''global.workingDir'' of None \<Rightarrow> [] | Some d \<Rightarrow> d)"

lemma log_configuration_wp:
  "wp (log_configuration M F) (\<lambda>_. logs_only s)
     (\<lambda>e t. logs_only s t \<and> e = Unreadable \<and> canonical M (working_dir s) = None) s"
  unfolding log_configuration_def
  by (intro logs_seq log_text_wp)
    (auto simp: wp_simps get_str_def get_int_def log_line_wp working_dir_def dest: logs_only_parts split: option.split)

text \<open>
  What a start that stops has done to the files: nothing, but that the log has lines if the
  working directory is no canonical path any more when it is logged.
\<close>

definition stopped :: "machine \<Rightarrow> process_state \<Rightarrow> stop \<Rightarrow> process_state \<Rightarrow> bool" where
  "stopped M s e t \<longleftrightarrow> on_disk t = on_disk s \<and> closes_pid_file t = closes_pid_file s
     \<and> (file_log t = file_log s \<or> e = Unreadable \<and> p_logger t \<noteq> None \<and> canonical M (working_dir t) = None)"

lemma stopped_options [simp]:
  "stopped M (s\<lparr>p_options := o', p_handlers := h\<rparr>) e t = stopped M s e t" "stopped M s e (s\<lparr>p_options := o'\<rparr>)"
  by (simp_all add: stopped_def)

text \<open>What a finished \<open>init\<close> has done.\<close>

definition pid_file_of :: "process_state \<Rightarrow> string" where
  "pid_file_of s = (case p_options s ''global.pidFile'' of None \<Rightarrow> [] | Some f \<Rightarrow> f)"

definition started :: "machine \<Rightarrow> files \<Rightarrow> cmdline \<Rightarrow> process_state \<Rightarrow> process_state \<Rightarrow> bool" where
  "started M F cl s t \<longleftrightarrow>
     (\<exists>o1. parseConfig F o1 = Ret () (p_options t)) \<and> p_options t ''runtime.bootTime'' = Some (time_text M)
   \<and> (\<exists>lg. p_logger t = Some lg \<and> console_level lg = cl_logLevelC cl \<and> file_level lg = cl_logLevelF cl)
   \<and> p_handlers t = p_handlers s
   \<and> on_disk t = (if pid_file_of t \<noteq> [] \<and> can_write M (pid_file_of t) then (on_disk s)(pid_file_of t \<mapsto> pid_text M) else on_disk s)
   \<and> closes_pid_file t = (closes_pid_file s \<or> pid_file_of t \<noteq> [])"

lemma logged_then_pid_file:
  assumes "\<exists>o1. parseConfig F o1 = Ret () (p_options u)" "p_options u ''runtime.bootTime'' = Some (time_text M)"
    "\<exists>lg. p_logger u = Some lg \<and> console_level lg = cl_logLevelC cl \<and> file_level lg = cl_logLevelF cl"
    "p_handlers u = p_handlers s" "on_disk u = on_disk s" "closes_pid_file u = closes_pid_file s" "file_log u = file_log s"
  shows "wp (seq (bind (on_options (get_bool ''global.suppress_config_info'')) (\<lambda>b. whenb (\<not> b) (log_configuration M F)))
      (seq (log_message LINFO x) (write_pid_file M))) (\<lambda>_. started M F cl s)
      (stopped M s) u"
proof -
  have files: "stopped M s Unreadable t" if "logs_only u t" "canonical M (working_dir u) = None" for t
    using logs_only_parts [OF that(1)] that(2) assms(3,5,6) by (auto simp: stopped_def working_dir_def)
  have last: "wp (write_pid_file M) (\<lambda>_. started M F cl s)
      (stopped M s) t" if "logs_only u t" for t
    using logs_only_parts [OF that] assms
    by (auto simp: write_pid_file_def wp_simps get_str_def started_def pid_file_of_def)
  have msg: "wp (log_message LINFO x) (\<lambda>_ t'. wp (write_pid_file M) (\<lambda>_. started M F cl s)
      (stopped M s) t')
      (stopped M s) t" if "logs_only u t" for t
    by (rule wp_mono [OF log_line_wp [OF that]]) (rule last)
  have "wp (log_configuration M F) (\<lambda>_ t'. wp (log_message LINFO x) (\<lambda>_ t'. wp (write_pid_file M) (\<lambda>_. started M F cl s)
      (stopped M s) t')
      (stopped M s) t')
      (stopped M s) u"
    by (rule wp_mono [OF log_configuration_wp]) (auto intro: msg files)
  then show ?thesis by (auto simp: wp_seq wp_bind wp_on_options wp_whenb get_bool_def wp_state intro: msg)
qed

lemma init_logger_wp: "Logger_init (p_options u) = Some lg \<Longrightarrow> wp init_logger Q R u = Q () (u\<lparr>p_logger := Some lg\<rparr>)"
  by (simp add: init_logger_def wp_simps)

lemma puts_wp:
  "wp (seq (put_str a x) (seq (put_str b y) (put_str c z))) Q R o1 = Q () (o1(a \<mapsto> x, b \<mapsto> y, c \<mapsto> z))"
  by (simp add: wp_simps put_str_def)

lemma init_wp:
  assumes "p_options s ''global.log.console.level'' = severity_to_string (cl_logLevelC cl)"
    "p_options s ''global.log.file.level'' = severity_to_string (cl_logLevelF cl)"
  shows "wp (init M F) (\<lambda>_. started M F cl s)
    (stopped M s) s"
proof -
  let ?err = "stopped M s"
  let ?o = "(p_options s)(''runtime.originalDir'' \<mapsto> cwd_text M, ''runtime.bootTime'' \<mapsto> time_text M, ''runtime.serverTime'' \<mapsto> time_text M)"
  let ?rest = "seq (bind (on_options (get_bool ''global.suppress_config_info'')) (\<lambda>b. whenb (\<not> b) (log_configuration M F)))
      (seq (log_message LINFO (''Number of found CPUs: '' @ cpus_text M)) (write_pid_file M))"
  have logger: "wp (seq init_logger ?rest) (\<lambda>_. started M F cl s) ?err (s\<lparr>p_options := o2\<rparr>)"
    if "parseConfig F ?o = Ret () o2" "\<forall>q. q \<notin> {''global.workingDir'', ''global.log.dir''} \<longrightarrow> o2 q = ?o q" for o2
  proof -
    note keys = that(2)
    obtain lg where lg: "Logger_init o2 = Some lg" "console_level lg = cl_logLevelC cl" "file_level lg = cl_logLevelF cl"
      using Logger_init_levels [of o2 "cl_logLevelC cl" "cl_logLevelF cl"] keys assms by auto
    have "wp ?rest (\<lambda>_. started M F cl s) ?err (s\<lparr>p_options := o2, p_logger := Some lg\<rparr>)"
      by (rule logged_then_pid_file) (use that lg in auto)
    then show ?thesis using lg(1) by (simp add: wp_seq [of init_logger] init_logger_wp)
  qed
  have "wp (parseConfig F) (\<lambda>_ o2. wp (seq init_logger ?rest) (\<lambda>_. started M F cl s) ?err (s\<lparr>p_options := o2\<rparr>))
      (\<lambda>_ _. True) ?o"
  proof (rule wp_mono)
    show "wp (parseConfig F) (\<lambda>_ o2. parseConfig F ?o = Ret () o2
      \<and> (\<forall>q. q \<notin> {''global.workingDir'', ''global.log.dir''} \<longrightarrow> o2 q = ?o q)) (\<lambda>_ _. True) ?o" by (rule parseConfig_wp)
  next
    fix a o2
    assume "parseConfig F ?o = Ret () o2 \<and> (\<forall>q. q \<notin> {''global.workingDir'', ''global.log.dir''} \<longrightarrow> o2 q = ?o q)"
    then show "wp (seq init_logger ?rest) (\<lambda>_. started M F cl s) ?err (s\<lparr>p_options := o2\<rparr>)" using logger by blast
  qed simp
  then have "wp (parseConfig F) (\<lambda>_ o2. wp (seq init_logger ?rest) (\<lambda>_. started M F cl s) ?err (s\<lparr>p_options := ?o, p_options := o2\<rparr>))
      (\<lambda>e o2. ?err e (s\<lparr>p_options := ?o, p_options := o2\<rparr>)) (p_options (s\<lparr>p_options := ?o\<rparr>))" by simp
  then show ?thesis by (simp only: init_def wp_seq [of "on_options _"] puts_wp wp_on_options)
qed

lemma main_start_wp:
  "wp (main_start M F cl)
     (\<lambda>r t. case r of Some n \<Rightarrow> on_disk t = on_disk s \<and> closes_pid_file t = closes_pid_file s \<and> file_log t = file_log s \<and> n \<in> {0, 1}
        | None \<Rightarrow> \<not> is_root M \<and> started M F cl (s\<lparr>p_handlers := snd (InstallHandler 0 (p_handlers s))\<rparr>) t)
     (stopped M s) s"
proof (cases "is_root M")
  case False
  let ?Q = "\<lambda>r t. case r of Some n \<Rightarrow> on_disk t = on_disk s \<and> closes_pid_file t = closes_pid_file s \<and> file_log t = file_log s \<and> n \<in> {0, 1 :: nat}
        | None \<Rightarrow> \<not> is_root M \<and> started M F cl (s\<lparr>p_handlers := snd (InstallHandler 0 (p_handlers s))\<rparr>) t"
  let ?err = "stopped M s"
  have "wp (init M F) (\<lambda>_. ?Q None) ?err (s\<lparr>p_options := o1, p_handlers := snd (InstallHandler 0 (p_handlers s))\<rparr>)"
    if "o1 ''global.log.console.level'' = severity_to_string (cl_logLevelC cl)"
      "o1 ''global.log.file.level'' = severity_to_string (cl_logLevelF cl)" for o1
    by (rule wp_mono [OF init_wp [of "s\<lparr>p_options := o1, p_handlers := snd (InstallHandler 0 (p_handlers s))\<rparr>" cl M F]])
      (use that False in \<open>auto simp: started_def\<close>)
  then have "wp (configure F cl) (\<lambda>go o1. wp (if \<not> go then ret (Some 0)
        else seq (modify (\<lambda>s. s\<lparr>p_handlers := snd (InstallHandler 0 (p_handlers s))\<rparr>)) (seq (init M F) (ret None)))
        ?Q ?err (s\<lparr>p_options := o1\<rparr>)) (\<lambda>_ _. True) (p_options s)"
    by (intro wp_mono [OF options_wp]) (auto simp: wp_seq wp_unit wp_basic)
  then show ?thesis using False
    by (simp add: main_start_def wp_bind wp_on_options)
qed (simp add: main_start_def wp_basic)

text \<open>
  Claim C38: the file with the process id, from a start to an end by \<open>exit\<close>. When \<open>main\<close> gets to starting
  its threads, the file the configuration names holds the id (where it could be written), and the
  end of the process through \<open>exit\<close> takes it away. When \<open>main\<close> ends before, whether it returns, calls
  \<open>exit\<close> or throws, no file was touched; only the log may have got lines, where the exception is that of
  the working directory, which is looked up when it is logged. A process that a signal or the \<open>_exit\<close> of the
  crash handler ends runs no exit handler and leaves the file.
\<close>

theorem pid_file_life:
  assumes "\<not> closes_pid_file s"
  shows "case run_process M F cl s of
      Running t \<Rightarrow> (let f = pid_file_of t in
          on_disk t = (if f \<noteq> [] \<and> can_write M f then (on_disk s)(f \<mapsto> pid_text M) else on_disk s)
        \<and> on_disk (exit_process t) = (if f \<noteq> [] then (on_disk s)(f := None) else on_disk s))
    | Exited n t \<Rightarrow> on_disk t = on_disk s \<and> file_log t = file_log s \<and> n \<in> {0, 1}
    | Aborted t \<Rightarrow> on_disk t = on_disk s
        \<and> (file_log t = file_log s \<or> p_logger t \<noteq> None \<and> canonical M (working_dir t) = None)
    | Broken \<Rightarrow> False"
  using main_start_wp [of M F cl s] assms
  by (auto simp: run_process_def wp_def exit_process_def closePidFile_def started_def stopped_def pid_file_of_def Let_def
      split: out.splits option.splits stop.splits)

definition sample_machine :: machine where
  "sample_machine = \<lparr>is_root = False, time_text = ''7'', cwd_text = ''/'', cpus_text = ''1'', pid_text = ''42'',
     canonical = Some, can_write = (\<lambda>_. True)\<rparr>"

definition quiet_cmdline :: cmdline where
  "quiet_cmdline = sample_cmdline\<lparr>cl_pidFile := ''p'', cl_suppress := True\<rparr>"

lemma quiet_configure:
  "\<exists>o1. configure sample_files quiet_cmdline (\<lambda>_. None) = Ret True o1
     \<and> o1 ''global.serverName'' = Some ''lotos'' \<and> o1 ''global.workingDir'' = Some ''/srv/''
     \<and> o1 ''global.userPort'' = Some ''4000'' \<and> o1 ''global.log.dir'' = Some ''log'' \<and> o1 ''global.pidFile'' = Some ''p''
     \<and> o1 ''global.suppress_config_info'' = Some ''true''
     \<and> o1 ''global.log.console.level'' = Some ''WARNING'' \<and> o1 ''global.log.file.level'' = Some ''INFO''"
  by (simp add: configure_def quiet_cmdline_def sample_cmdline_def read_config_def put_str_def level_text_def
      severity_to_string_def severityMap_def bool_text_def get_int_def bad_port_def bind_def seq_def prog_eval whenb_def sample_files_def)

lemma quiet_parse:
  assumes "o1 ''global.serverName'' = Some ''lotos''" "o1 ''global.workingDir'' = Some ''/srv/''"
    "o1 ''global.userPort'' = Some ''4000''" "o1 ''global.log.dir'' = Some ''log''"
  shows "parseConfig sample_files o1 = Ret () (o1(''global.workingDir'' \<mapsto> ''/srv''))"
  using assms by (simp add: parseConfig_def get_str_def get_int_def check_dir_def put_str_def bad_port_def hasWhitespace_iff
      trim_slash_def bind_def seq_def prog_eval whenb_def sample_files_def uc_def)

lemma sample_run:
  "\<exists>t. run_process sample_machine sample_files quiet_cmdline (process_new (\<lambda>_. None)) = Running t \<and> pid_file_of t = ''p''"
proof -
  obtain o1 where o1: "configure sample_files quiet_cmdline (\<lambda>_. None) = Ret True o1"
     "o1 ''global.serverName'' = Some ''lotos''" "o1 ''global.workingDir'' = Some ''/srv/''"
     "o1 ''global.userPort'' = Some ''4000''" "o1 ''global.log.dir'' = Some ''log''" "o1 ''global.pidFile'' = Some ''p''"
     "o1 ''global.suppress_config_info'' = Some ''true''"
     "o1 ''global.log.console.level'' = Some ''WARNING''" "o1 ''global.log.file.level'' = Some ''INFO''"
    using quiet_configure by blast
  let ?o2 = "o1(''runtime.originalDir'' \<mapsto> ''/'', ''runtime.bootTime'' \<mapsto> ''7'', ''runtime.serverTime'' \<mapsto> ''7'')"
  have parse: "parseConfig sample_files ?o2 = Ret () (?o2(''global.workingDir'' \<mapsto> ''/srv''))"
    by (rule quiet_parse) (use o1 in simp_all)
  have "\<exists>lg. Logger_init (?o2(''global.workingDir'' \<mapsto> ''/srv'')) = Some lg \<and> console_level lg = LWARNING \<and> file_level lg = LINFO"
    by (rule Logger_init_levels) (use o1 in \<open>simp_all add: severity_to_string_def severityMap_def\<close>)
  then obtain lg where "Logger_init (?o2(''global.workingDir'' \<mapsto> ''/srv'')) = Some lg" by blast
  then show ?thesis using o1 parse
    by (simp add: run_process_def main_start_def sample_machine_def on_options_def process_new_def bind_def seq_def prog_eval
        init_def put_str_def init_logger_def get_bool_def whenb_def log_message_def write_pid_file_def get_str_def pid_file_of_def)
qed

theorem pid_file_life_witness:
  "case run_process sample_machine sample_files quiet_cmdline (process_new (\<lambda>_. None)) of
     Running t \<Rightarrow> on_disk t = [''p'' \<mapsto> ''42''] \<and> on_disk (exit_process t) = (\<lambda>_. None) | _ \<Rightarrow> False"
  using pid_file_life [of "process_new (\<lambda>_. None)" sample_machine sample_files quiet_cmdline] sample_run
  by (auto simp: process_new_def sample_machine_def Let_def split: process_end.splits)

text \<open>
  Claim C37: a process that comes to start its threads is ready. It does not run as root; the server has a
  name of one to ten printable characters and existing directories; the load task will open the
  Telnet service on the configured port, a number from 1025 to 65535; the start's time is noted for the
  crash report; the log levels are those of the command line, whatever the file says; and all three crash
  signals have their handler.
\<close>

theorem running_process_ready:
  assumes "run_process M F cl (process_new disk) = Running t"
  shows "\<not> is_root M \<and> server_name_ok (p_options t)
    \<and> (\<forall>path \<in> {''global.workingDir'', ''global.log.dir''}. case p_options t path of
        None \<Rightarrow> fs_exists F [] \<and> is_directory F [] | Some d \<Rightarrow> fs_exists F d \<and> is_directory F d)
    \<and> (\<exists>port m. Option.bind (p_options t ''global.userPort'') (to_int64 F) = Some (uint port) \<and> 1024 < uint port
        \<and> mainLoader F (p_options t) r ServiceManager_new = Ret True m \<and> isRunning m \<and> table_of m port = Some [telnet_service])
    \<and> p_options t ''runtime.bootTime'' = Some (time_text M)
    \<and> (\<exists>lg. p_logger t = Some lg \<and> console_level lg = cl_logLevelC cl \<and> file_level lg = cl_logLevelF cl)
    \<and> {g. dispositions (p_handlers t) g = Sig_report} = {SIGILL, SIGSEGV, SIGFPE}"
proof -
  have m: "main_start M F cl (process_new disk) = Ret None t"
    using assms by (auto simp: run_process_def split: out.splits option.splits stop.splits)
  then have r: "\<not> is_root M"
      "started M F cl ((process_new disk)\<lparr>p_handlers := snd (InstallHandler 0 (p_handlers (process_new disk)))\<rparr>) t"
    using wp_RetD [OF main_start_wp m] by simp_all
  then obtain o1 where "parseConfig F o1 = Ret () (p_options t)" by (auto simp: started_def)
  from checked_config_serves [OF this, of r] have "server_name_ok (p_options t)
    \<and> (\<forall>path \<in> {''global.workingDir'', ''global.log.dir''}. case p_options t path of
        None \<Rightarrow> fs_exists F [] \<and> is_directory F [] | Some d \<Rightarrow> fs_exists F d \<and> is_directory F d)
    \<and> (\<exists>port m. Option.bind (p_options t ''global.userPort'') (to_int64 F) = Some (uint port) \<and> 1024 < uint port
        \<and> mainLoader F (p_options t) r ServiceManager_new = Ret True m \<and> isRunning m \<and> table_of m port = Some [telnet_service])" .
  moreover have "{g. dispositions (p_handlers t) g = Sig_report} = {SIGILL, SIGSEGV, SIGFPE}"
    using r(2) by (auto simp: started_def InstallHandler_def set_signals_def process_new_def split: if_splits)
  moreover have "p_options t ''runtime.bootTime'' = Some (time_text M)"
      "\<exists>lg. p_logger t = Some lg \<and> console_level lg = cl_logLevelC cl \<and> file_level lg = cl_logLevelF cl"
    using r(2) by (simp_all add: started_def)
  ultimately show ?thesis using r(1) by blast
qed

theorem running_process_ready_witness:
  "\<exists>t lg. run_process sample_machine sample_files quiet_cmdline (process_new (\<lambda>_. None)) = Running t
     \<and> p_logger t = Some lg \<and> console_level lg = LWARNING \<and> dispositions (p_handlers t) SIGSEGV = Sig_report"
proof -
  obtain t where t: "run_process sample_machine sample_files quiet_cmdline (process_new (\<lambda>_. None)) = Running t"
    using sample_run by blast
  from running_process_ready [OF t] show ?thesis using t by (auto simp: quiet_cmdline_def sample_cmdline_def)
qed

section \<open>Shutting the talker down\<close>

lemma wp_on_part [wp_simps]:
  "wp (on_part part put ex m) Q R = (\<lambda>s. wp m (\<lambda>a p. Q a (put p s)) (\<lambda>e p. R (ex e) (put p s)) (part s))"
  by (rule ext) (simp add: wp_def on_part_def split: out.split)

text \<open>
  When \<open>Talker::shutdown\<close> returns, nothing is left to be done: no event, no task, nothing to release,
  and no open port of a server that ran.
\<close>

theorem shutdown_leaves_nothing:
  assumes "Talker_shutdown enters s = Ret () t"
  shows "m_eventList (t_sched t) = [] \<and> m_taskList (t_disp t) = [] \<and> toReleaseThings (t_world t) = []
    \<and> s_state (t_sched t) = STATE_TERMINATED \<and> m_threadState (t_disp t) = STATE_TERMINATED
    \<and> (case t_servicer t of None \<Rightarrow> t_servicer s = None | Some m \<Rightarrow> \<not> running m)"
  using assms
  by (auto simp: Talker_shutdown_def on_part_def seq_def bind_def prog_eval shutdown_eval sched_shutdown_def
      Talker_cleanup_def manager_stop_def whenb_def split: out.splits if_splits option.splits)

end
