(* ===== verification/Ending.thy ===== *)
theory Ending
  imports Server
begin

text \<open>
  The end of \<open>main\<close> (\<open>src/main.cpp\<close>): what the main thread does once the services are loaded, with \<open>shutdownAndWait\<close>
  of the scheduler and of the dispatcher, beside the two threads it joins.
\<close>

text \<open>
  Where the main thread stands: before the services, in the event loop of \<open>boost::asio\<close>, behind it,
  before and in the \<open>join\<close> of both threads, or returned with an exit code.
\<close>

datatype main_at = At_services | In_services | Leaving | Down_scheduler | Join_scheduler
  | Down_dispatcher | Join_dispatcher | Returned nat

record 'f ending =
  e_main :: main_at
  e_servicer :: smgr
  e_handlers :: handlers
  e_console :: string
  e_clock :: nat
  e_sched :: "'f sched"
  e_sched_at :: sched_thread
  e_disp :: "'f disp"

definition ErrorMessage :: "string \<Rightarrow> 'f ending \<Rightarrow> 'f ending" where
  "ErrorMessage msg x =
     x\<lparr>e_console := e_console x @ [CHR 0x0A, CHR 0x0A] @ ''Error: '' @ msg @ [CHR 0x0A]\<rparr>"

text \<open>
  The steps of the main thread, each with the shutdown it calls, and those of the other threads in
  between. The threads take the steps of their own machines with any callers, so that whatever one hands to
  the other is among them.
\<close>

inductive ending_step :: "bool \<Rightarrow> bool \<Rightarrow> 'f ending \<Rightarrow> 'f ending \<Rightarrow> bool" for spurious fronts where
  serve: "e_main x = At_services \<Longrightarrow> isRunning (e_servicer x) \<Longrightarrow> manager_run (e_servicer x) = Ret () m
     \<Longrightarrow> ending_step spurious fronts x (x\<lparr>e_servicer := m, e_main := In_services\<rparr>)"
| served: "e_main x = In_services \<Longrightarrow> ending_step spurious fronts x (x\<lparr>e_main := Leaving\<rparr>)"
| offline: "e_main x = At_services \<Longrightarrow> \<not> isRunning (e_servicer x)
     \<Longrightarrow> ending_step spurious fronts x
       ((ErrorMessage ''No services running. Server is not online.'' x)\<lparr>e_main := Leaving\<rparr>)"
| leave: "e_main x = Leaving
     \<Longrightarrow> ending_step spurious fronts x (x\<lparr>e_handlers := snd (RemoveHandler 0 (e_handlers x)), e_main := Down_scheduler\<rparr>)"
| down_scheduler: "e_main x = Down_scheduler
     \<Longrightarrow> ending_step spurious fronts x (x\<lparr>e_sched := sched_shutdown (e_sched x), e_main := Join_scheduler\<rparr>)"
| joined_scheduler: "e_main x = Join_scheduler \<Longrightarrow> e_sched_at x = Thread_ended
     \<Longrightarrow> ending_step spurious fronts x (x\<lparr>e_main := Down_dispatcher\<rparr>)"
| down_dispatcher: "e_main x = Down_dispatcher \<Longrightarrow> shutdown enters (e_disp x) = Ret () d
     \<Longrightarrow> ending_step spurious fronts x (x\<lparr>e_disp := d, e_main := Join_dispatcher\<rparr>)"
| joined_dispatcher: "e_main x = Join_dispatcher \<Longrightarrow> thread (e_disp x) = Ended
     \<Longrightarrow> ending_step spurious fronts x (x\<lparr>e_main := Returned 0\<rparr>)"
| scheduler: "sched_step spurious (e_clock x, e_sched x, e_sched_at x) (n, s, th)
     \<Longrightarrow> ending_step spurious fronts x (x\<lparr>e_clock := n, e_sched := s, e_sched_at := th\<rparr>)"
| dispatcher: "disp_step spurious fronts (e_disp x) d \<Longrightarrow> ending_step spurious fronts x (x\<lparr>e_disp := d\<rparr>)"

text \<open>The main thread waits in a \<open>join\<close> for a thread that waits for a signal nobody gives.\<close>

definition joins_waiting :: "main_at \<Rightarrow> 'f ending \<Rightarrow> bool" where
  "joins_waiting p x \<longleftrightarrow> e_main x = p
     \<and> (p = Join_scheduler \<and> sched_stuck (e_clock x, e_sched x, e_sched_at x) \<or> p = Join_dispatcher \<and> disp_stuck (e_disp x))"

interpretation ending: stepping "ending_step False fronts" "joins_waiting p" for fronts p
proof
  fix x y :: "'f ending"
  assume "ending_step False fronts x y" and stuck: "joins_waiting p x"
  then show "joins_waiting p y"
  proof cases
    case (scheduler n s th)
    then show ?thesis using stuck sched_wait.kept [OF scheduler(2)] by (auto simp: joins_waiting_def)
  next
    case (dispatcher d)
    then show ?thesis using stuck disp_wait.kept [OF dispatcher(2)] by (auto simp: joins_waiting_def)
  qed (use stuck in \<open>auto simp: joins_waiting_def disp_stuck_def sched_stuck_def\<close>)
qed

text \<open>
  Claim C30: a server that is to end does not. If the scheduler's thread waits without an event when \<open>main\<close> shuts
  the scheduler down, \<open>main\<close> stays in that \<open>join\<close>; if the dispatcher's thread waits for a task when \<open>main\<close> shuts the
  dispatcher down, \<open>main\<close> stays in that one: for ever, whatever the threads and their callers do, unless a wait ends by itself.
\<close>

theorem main_waits_for_ever:
  assumes "ending_step False fronts x y" and "e_main x \<noteq> e_main y"
    and "e_main x = Down_scheduler \<and> e_sched_at x \<in> {Past_test, Wait_signal}
      \<or> e_main x = Down_dispatcher \<and> thread (e_disp x) \<in> {Tested, Waiting}"
    and "(ending_step False fronts)\<^sup>*\<^sup>* y z"
  shows "e_main z = (if e_main x = Down_scheduler then Join_scheduler else Join_dispatcher)"
proof -
  have "joins_waiting (if e_main x = Down_scheduler then Join_scheduler else Join_dispatcher) y"
    using assms(1)
  proof cases
    case down_scheduler
    then show ?thesis using assms(3) by (auto simp: joins_waiting_def sched_stuck_def sched_shutdown_def)
  next
    case (down_dispatcher enters d)
    then show ?thesis using assms(3) by (auto simp: joins_waiting_def disp_stuck_def shutdown_eval split: if_splits)
  qed (use assms(2,3) in auto)
  with assms(4) have "joins_waiting (if e_main x = Down_scheduler then Join_scheduler else Join_dispatcher) z"
    by (rule ending.reached)
  then show ?thesis by (auto simp: joins_waiting_def)
qed

definition idle_ending :: "unit ending" where
  "idle_ending = \<lparr>e_main = At_services, e_servicer = ServiceManager_new,
     e_handlers = \<lparr>dispositions = (\<lambda>_. Sig_default), isInstalled = (\<lambda>_. False)\<rparr>, e_console = [], e_clock = 0,
     e_sched = sched_start, e_sched_at = Wait_signal, e_disp = disp_start\<rparr>"

text \<open>A server without a port says so and then waits for ever.\<close>

theorem main_waits_for_ever_witness:
  "\<exists>y. (ending_step False False)\<^sup>*\<^sup>* idle_ending y \<and> e_main y = Join_scheduler
     \<and> e_console y = [CHR 0x0A, CHR 0x0A] @ ''Error: No services running. Server is not online.'' @ [CHR 0x0A]
     \<and> e_main ` {z. (ending_step False False)\<^sup>*\<^sup>* y z} = {Join_scheduler}"
proof -
  let ?x1 = "(ErrorMessage ''No services running. Server is not online.'' idle_ending)\<lparr>e_main := Leaving\<rparr>"
  let ?x2 = "?x1\<lparr>e_handlers := snd (RemoveHandler 0 (e_handlers ?x1)), e_main := Down_scheduler\<rparr>"
  let ?y = "?x2\<lparr>e_sched := sched_shutdown (e_sched ?x2), e_main := Join_scheduler\<rparr>"
  have one: "ending_step False False idle_ending ?x1"
    by (rule ending_step.offline) (simp_all add: idle_ending_def isRunning_def ServiceManager_new_def)
  have two: "ending_step False False ?x1 ?x2" by (rule ending_step.leave) simp
  have three: "ending_step False False ?x2 ?y" by (rule ending_step.down_scheduler) simp
  have "e_main z = Join_scheduler" if "(ending_step False False)\<^sup>*\<^sup>* ?y z" for z
    using main_waits_for_ever [OF three _ _ that] by (simp add: ErrorMessage_def idle_ending_def)
  then have "e_main ` {z. (ending_step False False)\<^sup>*\<^sup>* ?y z} = {Join_scheduler}" by force
  moreover have "(ending_step False False)\<^sup>*\<^sup>* idle_ending ?y"
    using one two three by (meson rtranclp.rtrancl_into_rtrancl rtranclp.rtrancl_refl)
  ultimately show ?thesis by (intro exI [of _ ?y]) (simp add: ErrorMessage_def idle_ending_def)
qed

end
