(* ===== verification/WinReport.thy ===== *)
theory WinReport
  imports CrashReport StdMap
begin

text \<open>
  \<open>src/Common/ExceptionHandler.cpp\<close> on Windows, in both variants: the filter that writes a minidump, and, with GCC,
  the handler in the chain of structured exceptions, which walks over the machine stack. What the
  system answers is in the records \<open>dump_env\<close> and \<open>seh_env\<close>; the code is one of 32 bits (its assembly is), with
  addresses as natural numbers and the memory as the word at an address, if it can be read.
\<close>

section \<open>Minidumps\<close>

text \<open>The number of installed handlers and whether the process has the filter.\<close>

record dump_handlers =
  refCounter :: int
  filter_set :: bool
  dump_installed :: "nat \<Rightarrow> bool"

definition dump_InstallHandler :: "nat \<Rightarrow> dump_handlers \<Rightarrow> bool \<times> dump_handlers" where
  "dump_InstallHandler h s = (True, s\<lparr>refCounter := refCounter s + 1,
     filter_set := (if refCounter s + 1 = 1 then True else filter_set s), dump_installed := (dump_installed s)(h := True)\<rparr>)"

definition dump_RemoveHandler :: "nat \<Rightarrow> dump_handlers \<Rightarrow> bool \<times> dump_handlers" where
  "dump_RemoveHandler h s =
     (if \<not> dump_installed s h then (False, s)
      else (True, s\<lparr>refCounter := refCounter s - 1,
        filter_set := (if refCounter s - 1 = 0 then False else filter_set s), dump_installed := (dump_installed s)(h := False)\<rparr>))"

datatype filter_result = EXCEPTION_CONTINUE_SEARCH | EXCEPTION_EXECUTE_HANDLER

record dump_env =
  module_file :: string
  dll_loads :: "string \<Rightarrow> bool"
  has_dump_proc :: bool
  local_time :: "nat \<times> nat \<times> nat \<times> nat \<times> nat \<times> nat"
  can_create :: "string \<Rightarrow> bool"
  dump_works :: bool

definition BACKSLASH :: char where "BACKSLASH = CHR 0x5C"

fun str_rfind :: "string \<Rightarrow> char \<Rightarrow> nat option" where
  "str_rfind [] c = None"
| "str_rfind (x # s) c = (case str_rfind s c of Some n \<Rightarrow> Some (n + 1) | None \<Rightarrow> if x = c then Some 0 else None)"

text \<open>
  The position \<open>substr\<close> cuts at is looked for in \<open>strAppDirectory\<close> itself, which is still empty, and a position is
  then compared with the size.
\<close>

definition app_directory :: "string \<Rightarrow> string" where
  "app_directory path =
     (let d = (case str_rfind [] BACKSLASH of None \<Rightarrow> path | Some n \<Rightarrow> take n path)
      in if str_rfind d BACKSLASH \<noteq> Some (length d) then d @ [BACKSLASH] else d)"

definition pad :: "nat \<Rightarrow> nat \<Rightarrow> string" where
  "pad k n = replicate (k - length (show_nat n)) (CHR ''0'') @ show_nat n"

definition dump_name :: "nat \<times> nat \<times> nat \<times> nat \<times> nat \<times> nat \<Rightarrow> string" where
  "dump_name t = (case t of (y, mo, d, h, mi, s) \<Rightarrow>
     pad 4 y @ ''-'' @ pad 2 mo @ ''-'' @ pad 2 d @ ''_'' @ pad 2 h @ pad 2 mi @ pad 2 s @ ''.dmp'')"

text \<open>What is printed, the result, and the file a dump was written to.\<close>

definition MiniDumpExceptionHandler :: "dump_env \<Rightarrow> string \<times> filter_result \<times> string option" where
  "MiniDumpExceptionHandler E =
     (let dir = app_directory (module_file E); file = dir @ dump_name (local_time E);
          generating = ''Generating minidump file... '' @ dump_name (local_time E) @ [NL]
      in if \<not> dll_loads E (dir @ ''DBGHELP.DLL'') \<and> \<not> dll_loads E ''DBGHELP.DLL''
         then (''Could not generate report - DBGHELP.DLL could not be found.'' @ [NL], EXCEPTION_CONTINUE_SEARCH, None)
         else if \<not> has_dump_proc E
         then (''Could not generate report - DBGHELP.DLL is to old.'' @ [NL], EXCEPTION_CONTINUE_SEARCH, None)
         else if \<not> can_create E file
         then (''Could not create memory dump file.'' @ [NL], EXCEPTION_EXECUTE_HANDLER, None)
         else if \<not> dump_works E
         then (generating @ ''Could not dump memory to file.'' @ [NL], EXCEPTION_CONTINUE_SEARCH, None)
         else (generating, EXCEPTION_EXECUTE_HANDLER, Some file))"

section \<open>The chain of handlers\<close>

text \<open>The head of the thread's chain (\<open>fs:0\<close>), the \<open>chain.prev\<close> of every handler object, and its flag.\<close>

record seh_handlers =
  seh_head :: "nat option"
  chain_prev :: "nat \<Rightarrow> nat option"
  seh_installed :: "nat \<Rightarrow> bool"

definition seh_InstallHandler :: "nat \<Rightarrow> seh_handlers \<Rightarrow> bool \<times> seh_handlers" where
  "seh_InstallHandler h s =
     (if seh_installed s h then (False, s)
      else (True, \<lparr>seh_head = Some h, chain_prev = (chain_prev s)(h := seh_head s), seh_installed = (seh_installed s)(h := True)\<rparr>))"

definition seh_RemoveHandler :: "nat \<Rightarrow> seh_handlers \<Rightarrow> bool \<times> seh_handlers" where
  "seh_RemoveHandler h s =
     (if \<not> seh_installed s h then (False, s)
      else (True, s\<lparr>seh_head := chain_prev s h, seh_installed := (seh_installed s)(h := False)\<rparr>))"

section \<open>Names of functions\<close>

record seh_globals =
  max_off :: u32
  min_off :: u32
  functionMap :: "(u32, string) smap"

text \<open>Nothing in the program changes them.\<close>

definition globals_start :: seh_globals where
  "globals_start = \<lparr>max_off = 0, min_off = 0, functionMap = []\<rparr>"

text \<open>The loop over the map; the first argument is the entry before, none at \<open>begin()\<close>.\<close>

fun find_function :: "(u32 \<times> string) option \<Rightarrow> (u32, string) smap \<Rightarrow> u32 \<Rightarrow> (u32 \<times> string) option" where
  "find_function prev [] addr = None"
| "find_function prev (e # m) addr =
     (if addr < fst e \<and> prev \<noteq> None then prev else find_function (Some e) m addr)"

definition getFunctionName :: "seh_globals \<Rightarrow> u32 \<Rightarrow> (u32 \<times> string) option" where
  "getFunctionName g addr =
     (if min_off g \<le> addr \<and> addr \<le> max_off g then find_function None (functionMap g) addr else None)"

section \<open>The report\<close>

record seh_env =
  w_opens :: bool
  w_ctime :: string
  w_compiler :: string
  w_date :: string
  memory_status :: "(nat \<times> nat \<times> nat) option"
  creation :: "nat \<times> nat \<times> nat \<times> nat \<times> nat \<times> nat"
  kernel_time :: "u32 \<times> u32"
  user_time :: "u32 \<times> u32"
  snapshot :: "((u32 \<times> nat) list) option"
  own_pid :: u32
  exc_code :: u32
  exc_address :: u32
  ctx_reg :: "string \<Rightarrow> u32"
  mem_at :: "nat \<Rightarrow> u32 option"
  region_end :: "nat \<Rightarrow> nat"

text \<open>To the report file where it opened, else to the console where that stands in for it.\<close>

definition say :: "bool \<Rightarrow> bool \<Rightarrow> string \<Rightarrow> unit crprog" where
  "say opened instead t = modify (\<lambda>s. if opened then s\<lparr>report_txt := report_txt s @ t\<rparr>
     else if instead then s\<lparr>console := console s @ t\<rparr> else s)"

text \<open>The times come in units of 100 ns, in two halves of 32 bits.\<close>

definition filetime_line :: "string \<Rightarrow> u32 \<times> u32 \<Rightarrow> string" where
  "filetime_line label t =
     (let ms = fst t * 429497 + snd t div 10000; ms1 = ms - (ms div 3600000) * 3600000;
          ms2 = ms1 - (ms1 div 60000) * 60000; ms3 = ms2 - (ms2 div 1000) * 1000
      in label @ show_nat (unat (ms div 3600000)) @ '':'' @ show_nat (unat (ms1 div 60000))
        @ '':'' @ show_nat (unat (ms2 div 1000)) @ ''.'' @ show_nat (unat ms3) @ [NL])"

definition system_lines :: "seh_env \<Rightarrow> string" where
  "system_lines E =
     replicate 53 (CHR ''*'') @ [NL] @ ''Error report - '' @ w_ctime E @ [NL]
     @ ''Compiler info - '' @ w_compiler E @ [NL] @ ''Compilation Date - '' @ w_date E @ [NL, NL]
     @ (case memory_status E of
          Some (load, tot, avail) \<Rightarrow> ''Memory load: '' @ show_nat load @ [NL] @ ''Total phys: '' @ show_nat (tot div 1024)
            @ '' K available phys: '' @ show_nat (avail div 1024) @ '' K'' @ [NL]
        | None \<Rightarrow> ''Memory load: Error'' @ [NL])
     @ (case creation E of (d, mo, y, h, mi, s) \<Rightarrow> ''Start time: '' @ show_nat d @ ''-'' @ show_nat mo @ ''-'' @ show_nat y
          @ ''  '' @ show_nat h @ '':'' @ show_nat mi @ '':'' @ show_nat s @ [NL])
     @ filetime_line ''Kernel time: '' (kernel_time E) @ filetime_line ''User time: '' (user_time E)
     @ (case snapshot E of None \<Rightarrow> []
        | Some ps \<Rightarrow> (case find (\<lambda>p. fst p = own_pid E) ps of None \<Rightarrow> []
            | Some p \<Rightarrow> ''Threads: '' @ show_nat (snd p) @ [NL]))
     @ [NL]"

definition pointer_text :: "(nat \<Rightarrow> u32 option) \<Rightarrow> u32 \<Rightarrow> string" where
  "pointer_text mem p = show_hex (unat p) @ (case mem (unat p) of None \<Rightarrow> [] | Some v \<Rightarrow> '' -> '' @ show_hex (unat v))"

definition exception_lines :: "seh_globals \<Rightarrow> seh_env \<Rightarrow> string" where
  "exception_lines g E =
     ''Exception: '' @ show_hex (unat (exc_code E)) @ '' at eip = '' @ show_hex (unat (exc_address E))
     @ (case getFunctionName g (exc_address E) of None \<Rightarrow> []
        | Some (start, name) \<Rightarrow> ''('' @ name @ '' - '' @ show_hex (unat start) @ '')'') @ [NL]
     @ concat (map (\<lambda>(label, r). label @ pointer_text (mem_at E) (ctx_reg E r) @ [NL])
         (zip [''eax = '', ''ebx = '', ''ecx = '', ''edx = '', ''esi = '', ''edi = '', ''ebp = '', ''esp = '']
              [''Eax'', ''Ebx'', ''Ecx'', ''Edx'', ''Esi'', ''Edi'', ''Ebp'', ''Esp'']))
     @ ''efl = '' @ show_hex (unat (ctx_reg E ''EFlags'')) @ [NL, NL]"

section \<open>The walk over the stack\<close>

text \<open>The variables of the loop but \<open>esp\<close>.\<close>

record walk =
  next_ret :: nat
  nparameters :: nat
  foundRetAddress :: nat
  frame_param_counter :: nat

text \<open>The difference of two pointers to words.\<close>

definition words_apart :: "nat \<Rightarrow> nat \<Rightarrow> int" where
  "words_apart a b = (int a - int b) div 4"

definition shown :: "nat \<Rightarrow> nat \<Rightarrow> walk \<Rightarrow> bool" where
  "shown start esp w \<longleftrightarrow> words_apart esp start < 20 \<or> nparameters w < 10
     \<or> \<bar>words_apart esp (next_ret w)\<bar> < 10 \<or> frame_param_counter w < 8"

text \<open>One line, with its mark; two words above a frame its saved base pointer leads to the next frame.\<close>

definition walk_line :: "bool \<Rightarrow> bool \<Rightarrow> (nat \<Rightarrow> u32 option) \<Rightarrow> nat \<Rightarrow> u32 \<Rightarrow> walk \<Rightarrow> walk crprog" where
  "walk_line opened instead mem esp v w =
     (let line = show_hex esp @ '' | '' @ pointer_text mem v; counted = w\<lparr>frame_param_counter := frame_param_counter w + 1\<rparr>
      in if esp = next_ret w
         then seq (say opened instead (line @ '' '' @ replicate 6 BACKSLASH @ '' stack frame //////'' @ [NL])) (ret counted)
         else if words_apart esp (next_ret w) = 1 then seq (say opened instead (line @ '' <-- ret'' @ [NL])) (ret counted)
         else if words_apart esp (next_ret w) = 2
         then (case (if esp < 8 then None else mem (esp - 8)) of None \<Rightarrow> undefined_behaviour
           | Some f \<Rightarrow> seq (say opened instead (line @ [NL])) (ret (w\<lparr>next_ret := unat f, frame_param_counter := 1\<rparr>)))
         else seq (say opened instead (line @ [NL])) (ret counted))"

text \<open>One word: once a return address has been found, the words behind it are counted.\<close>

definition walk_word :: "bool \<Rightarrow> bool \<Rightarrow> (nat \<Rightarrow> u32 option) \<Rightarrow> nat \<Rightarrow> nat \<Rightarrow> u32 \<Rightarrow> walk \<Rightarrow> walk crprog" where
  "walk_word opened instead mem start esp v w =
     (let w1 = (if foundRetAddress w \<noteq> 0 then w\<lparr>nparameters := nparameters w + 1\<rparr> else w)
      in if shown start esp w1 then walk_line opened instead mem esp v w1 else ret w1)"

text \<open>
  The line for a return address goes to the file in any case. Its name is the null pointer where
  \<open>getFunctionName\<close> finds none; to write that to a stream is undefined.
\<close>

definition walk_function :: "bool \<Rightarrow> seh_globals \<Rightarrow> nat \<Rightarrow> u32 \<Rightarrow> walk \<Rightarrow> walk crprog" where
  "walk_function opened g esp v w =
     (if min_off g \<le> v \<and> v \<le> max_off g
      then (case getFunctionName g v of None \<Rightarrow> undefined_behaviour
        | Some (start, name) \<Rightarrow>
            seq (say opened False (show_hex esp @ ''  '' @ name @ ''('' @ show_hex (unat start) @ '')'' @ [NL]))
            (ret (w\<lparr>foundRetAddress := foundRetAddress w + 1\<rparr>)))
      else ret w)"

function walk_stack ::
    "bool \<Rightarrow> bool \<Rightarrow> seh_globals \<Rightarrow> (nat \<Rightarrow> u32 option) \<Rightarrow> nat \<Rightarrow> nat \<Rightarrow> nat \<Rightarrow> walk \<Rightarrow> unit crprog" where
  "walk_stack opened instead g mem start limit esp w =
     (if limit \<le> esp then skip
      else case mem esp of None \<Rightarrow> undefined_behaviour
        | Some v \<Rightarrow>
           bind (walk_word opened instead mem start esp v w)
           (\<lambda>w2. bind (walk_function opened g esp v w2)
           (\<lambda>w3. walk_stack opened instead g mem start limit (esp + 4) w3)))"
  by pat_completeness auto
termination
  by (relation "measure (\<lambda>(_, _, _, _, _, limit, esp, _). limit - esp)") auto

declare walk_stack.simps [simp del]

definition stack_lines :: "bool \<Rightarrow> bool \<Rightarrow> seh_globals \<Rightarrow> seh_env \<Rightarrow> nat \<Rightarrow> nat \<Rightarrow> unit crprog" where
  "stack_lines opened instead g E esp ebp =
     seq (say opened instead (''---Stack Trace---'' @ [NL]
       @ ''From: '' @ show_hex esp @ '' to: '' @ show_hex (region_end E esp) @ [NL]))
     (seq (walk_stack opened instead g (mem_at E) esp (region_end E esp) esp
        \<lparr>next_ret = ebp, nparameters = 0, foundRetAddress = 0, frame_param_counter = 0\<rparr>)
     (say opened instead (replicate 53 (CHR ''*'') @ [NL])))"

text \<open>When it returns, the process has ended with \<open>exit(EXIT_FAILURE)\<close>.\<close>

definition SEHHandler :: "seh_globals \<Rightarrow> seh_env \<Rightarrow> unit crprog" where
  "SEHHandler g E =
     seq (modify (\<lambda>s. s\<lparr>console := console s @ ''Error: generating report file...'' @ [NL]\<rparr>))
     (seq (say (w_opens E) True (system_lines E @ exception_lines g E))
     (seq (stack_lines (w_opens E) True g E (unat (ctx_reg E ''Esp'')) (unat (ctx_reg E ''Ebp'')))
     (modify (\<lambda>s. s\<lparr>console := console s @ ''Error report generated. Killing server.'' @ [NL]\<rparr>))))"

text \<open>\<open>esp\<close> and \<open>ebp\<close> are read by the assembly; a file that does not open takes nothing.\<close>

definition win_dumpStack :: "seh_globals \<Rightarrow> seh_env \<Rightarrow> nat \<Rightarrow> nat \<Rightarrow> unit crprog" where
  "win_dumpStack g E esp ebp =
     seq (modify (\<lambda>s. s\<lparr>console := console s @ ''Error: generating report file...'' @ [NL]\<rparr>))
     (seq (say (w_opens E) False (replicate 53 (CHR ''*'') @ [NL] @ ''Stack dump - '' @ w_ctime E @ [NL]
        @ ''Compiler info - '' @ w_compiler E @ [NL] @ ''Compilation Date - '' @ w_date E @ [NL, NL]))
     (stack_lines (w_opens E) False g E esp ebp))"

section \<open>Properties\<close>

text \<open>
  A dump is looked for and written in a directory that bears the name of the executable itself: where nothing can be
  created there, no dump is ever written, and the library beside the executable is not found.
\<close>

theorem no_minidump:
  assumes "\<forall>n. \<not> can_create E (module_file E @ [BACKSLASH] @ n)"
  shows "snd (snd (MiniDumpExceptionHandler E)) = None"
proof -
  have "n < length s" if "str_rfind s c = Some n" for s c n
    using that by (induction s arbitrary: n) (auto split: option.splits if_splits)
  then have "str_rfind (module_file E) BACKSLASH \<noteq> Some (length (module_file E))" by fast
  then have "app_directory (module_file E) = module_file E @ [BACKSLASH]" by (simp add: app_directory_def)
  then show ?thesis using assms(1) by (simp add: MiniDumpExceptionHandler_def Let_def)
qed

text \<open>Removing a handler straight behind its installation leaves the chain as it was.\<close>

lemma seh_install_remove:
  "\<not> seh_installed s h \<Longrightarrow> seh_head (snd (seh_RemoveHandler h (snd (seh_InstallHandler h s)))) = seh_head s"
  by (simp add: seh_InstallHandler_def seh_RemoveHandler_def)

text \<open>
  The look-up gives the function an address is in. It fails for the last function of the map, and gives the
  first one for addresses in front of it (if there are two).
\<close>

lemma find_function_split:
  assumes "map_ok m" "m = a @ p # q # b" "fst p \<le> addr" "addr < fst q"
  shows "find_function prev m addr = Some p"
  using assms
proof (induction a arbitrary: prev m)
  case (Cons e a)
  then have "fst e < fst p" by (auto simp: map_keys_def)
  then show ?case using Cons by (auto simp: not_less)
qed (auto simp: not_less)

lemma find_function_last: "\<forall>k \<in> set (map_keys m). k \<le> addr \<Longrightarrow> find_function prev m addr = None"
  by (induction prev m addr rule: find_function.induct) (auto simp: not_less)

theorem function_lookup:
  assumes "map_ok (functionMap g)" "min_off g \<le> addr" "addr \<le> max_off g"
  shows "functionMap g = a @ p # q # b \<and> fst p \<le> addr \<and> addr < fst q \<longrightarrow> getFunctionName g addr = Some p"
    and "(\<forall>k \<in> set (map_keys (functionMap g)). k \<le> addr) \<longrightarrow> getFunctionName g addr = None"
    and "functionMap g = p # q # b \<and> addr < fst p \<longrightarrow> getFunctionName g addr = Some p"
  using assms find_function_split [of "functionMap g" a p q b addr] find_function_last [of "functionMap g" addr]
  by (auto simp: getFunctionName_def)

lemma say_eval: "say opened instead t s = Ret ()
    (if opened then s\<lparr>report_txt := report_txt s @ t\<rparr> else if instead then s\<lparr>console := console s @ t\<rparr> else s)"
  by (simp add: say_def prog_eval)

lemma walk_word_returns:
  assumes "\<And>a. esp - 8 \<le> a \<Longrightarrow> a \<le> esp \<Longrightarrow> mem a \<noteq> None" and "8 \<le> esp"
  shows "\<exists>w' s'. walk_word opened instead mem start esp v w s = Ret w' s'"
  using assms(1) [of "esp - 8"] assms(2)
  by (auto simp: walk_word_def walk_line_def Let_def seq_def bind_def say_eval prog_eval)

text \<open>With the globals as they are, a word that is zero is taken for a return address without a name.\<close>

lemma walk_function_start:
  "walk_function opened globals_start esp v w = (if v = 0 then undefined_behaviour else ret w)"
  by (auto simp: walk_function_def globals_start_def getFunctionName_def)

definition zero_word :: "(nat \<Rightarrow> u32 option) \<Rightarrow> nat \<Rightarrow> nat \<Rightarrow> bool" where
  "zero_word mem esp limit \<longleftrightarrow> (\<exists>k. esp + 4 * k < limit \<and> mem (esp + 4 * k) = Some 0)"

lemma zero_word_step:
  assumes "esp < limit" "mem esp = Some v"
  shows "zero_word mem esp limit \<longleftrightarrow> v = 0 \<or> zero_word mem (esp + 4) limit"
proof
  assume "zero_word mem esp limit"
  then obtain k where k: "esp + 4 * k < limit" "mem (esp + 4 * k) = Some 0" by (auto simp: zero_word_def)
  then show "v = 0 \<or> zero_word mem (esp + 4) limit"
    using assms by (cases k) (auto simp: zero_word_def ac_simps)
next
  assume "v = 0 \<or> zero_word mem (esp + 4) limit"
  then show "zero_word mem esp limit"
  proof
    assume "v = 0"
    then show ?thesis using assms by (auto simp: zero_word_def intro: exI [of _ 0])
  next
    assume "zero_word mem (esp + 4) limit"
    then obtain k where "esp + 4 + 4 * k < limit" "mem (esp + 4 + 4 * k) = Some 0" by (auto simp: zero_word_def)
    then show ?thesis unfolding zero_word_def by (intro exI [of _ "Suc k"]) (simp add: ac_simps)
  qed
qed

lemma walk_stack_start:
  assumes "\<And>a. esp - 8 \<le> a \<Longrightarrow> a < limit \<Longrightarrow> mem a \<noteq> None" and "8 \<le> esp"
  shows "if zero_word mem esp limit then walk_stack opened instead globals_start mem start limit esp w s = Undefined
    else \<exists>t. walk_stack opened instead globals_start mem start limit esp w s = Ret () t"
  using assms
proof (induction "limit - esp" arbitrary: esp w s rule: less_induct)
  case less
  show ?case
  proof (cases "limit \<le> esp")
    case True
    then have "\<not> zero_word mem esp limit" by (simp add: zero_word_def)
    then show ?thesis using True by (subst walk_stack.simps) (simp add: prog_eval)
  next
    case False
    then obtain v where v: "mem esp = Some v" using less(2) [of esp] by auto
    have "\<exists>w2 s2. walk_word opened instead mem start esp v w s = Ret w2 s2"
      using less(2) False by (intro walk_word_returns less(3)) auto
    then obtain w2 s2 where line: "walk_word opened instead mem start esp v w s = Ret w2 s2" by blast
    have unfold: "walk_stack opened instead globals_start mem start limit esp w s
        = (if v = 0 then Undefined else walk_stack opened instead globals_start mem start limit (esp + 4) w2 s2)"
      using False v line
      by (subst walk_stack.simps) (simp add: bind_def walk_function_start prog_eval)
    have "if zero_word mem (esp + 4) limit then walk_stack opened instead globals_start mem start limit (esp + 4) w2 s2 = Undefined
      else \<exists>t. walk_stack opened instead globals_start mem start limit (esp + 4) w2 s2 = Ret () t"
      using less(2,3) False by (intro less(1)) auto
    then show ?thesis using False v unfold zero_word_step [of esp limit mem v] by (cases "v = 0") auto
  qed
qed

lemma stack_lines_start:
  assumes "8 \<le> esp" and "\<And>a. esp - 8 \<le> a \<Longrightarrow> a < region_end E esp \<Longrightarrow> mem_at E a \<noteq> None"
  shows "if zero_word (mem_at E) esp (region_end E esp) then stack_lines opened instead globals_start E esp ebp s = Undefined
    else \<exists>t. stack_lines opened instead globals_start E esp ebp s = Ret () t"
proof (cases "zero_word (mem_at E) esp (region_end E esp)")
  case True
  then show ?thesis
    using walk_stack_start [where mem = "mem_at E" and limit = "region_end E esp", OF assms(2,1), where opened = opened
      and instead = instead and start = esp]
    by (simp add: stack_lines_def seq_def bind_def say_eval)
next
  case False
  then have "wp (walk_stack opened instead globals_start (mem_at E) esp (region_end E esp) esp w) (\<lambda>_ _. True) (\<lambda>_ _. False) u" for w u
    using walk_stack_start [where mem = "mem_at E" and limit = "region_end E esp", OF assms(2,1), where opened = opened
      and instead = instead and start = esp] by (simp add: wp_Ret)
  then have "wp (stack_lines opened instead globals_start E esp ebp) (\<lambda>_ _. True) (\<lambda>_ _. False) s"
    by (simp add: stack_lines_def wp_simps say_def)
  then show ?thesis using False by (simp add: wp_Ret)
qed

text \<open>
  On Windows the report of a crash is finished exactly when no word from the top of the stack to the end of its region
  is zero: the table of functions is never filled and its bounds stay 0, so that a zero is taken
  for a return address in a function without a name.
\<close>

theorem windows_report_ends_at_zero:
  assumes "esp = unat (ctx_reg E ''Esp'')" and "8 \<le> esp"
    and "\<And>a. esp - 8 \<le> a \<Longrightarrow> a < region_end E esp \<Longrightarrow> mem_at E a \<noteq> None"
  shows "if zero_word (mem_at E) esp (region_end E esp) then SEHHandler globals_start E s = Undefined
    else \<exists>t. SEHHandler globals_start E s = Ret () t"
proof (cases "zero_word (mem_at E) esp (region_end E esp)")
  case True
  then show ?thesis using stack_lines_start [OF assms(2,3)]
    by (simp add: SEHHandler_def seq_def bind_def say_eval prog_eval assms(1) [symmetric])
next
  case False
  then have "wp (stack_lines (w_opens E) True globals_start E esp (unat (ctx_reg E ''Ebp''))) (\<lambda>_ _. True) (\<lambda>_ _. False) u" for u
    using stack_lines_start [OF assms(2,3)] by (simp add: wp_Ret)
  then have "wp (SEHHandler globals_start E) (\<lambda>_ _. True) (\<lambda>_ _. False) s"
    by (simp add: SEHHandler_def wp_simps say_def assms(1) [symmetric])
  then show ?thesis using False by (simp add: wp_Ret)
qed

theorem windows_report_ends_at_zero_witness:
  "SEHHandler globals_start \<lparr>w_opens = True, w_ctime = ''now'', w_compiler = [], w_date = [], memory_status = None,
     creation = (1, 1, 2024, 0, 0, 0), kernel_time = (0, 0), user_time = (0, 0), snapshot = None, own_pid = 1, exc_code = 5,
     exc_address = 16, ctx_reg = (\<lambda>_. 64), mem_at = (\<lambda>a. Some (if a = 68 then 0 else 7)), region_end = (\<lambda>_. 80)\<rparr>
     \<lparr>console = [], report_txt = []\<rparr> = Undefined" (is "SEHHandler _ ?E ?s = _")
proof -
  have "zero_word (mem_at ?E) 64 (region_end ?E 64)" unfolding zero_word_def by (rule exI [of _ 1]) simp
  then show ?thesis using windows_report_ends_at_zero [of 64 ?E ?s] by simp
qed

end
