(* ===== verification/Talk.thy ===== *)
theory Talk
  imports LoginFlow
begin

text \<open>
  What the server is for: a line said by one user reaches the others (\<open>src/Commands/Say.cpp\<close>). The
  text is taken from the line by \<open>wordptr(1)\<close>; the first theorem says what that is, the second who gets
  it.
\<close>

section \<open>The text\<close>

text \<open>
  \<open>wordptr(1)\<close> of a first line with two words is the line from its second word on. The offsets are
  never cleared: on every later line it is the line from the same place on, where the second
  word of the first line stood, and a line that ends before that place throws.
\<close>

lemma parse_line: "l \<noteq> [] \<Longrightarrow> parse l sl = Ret () sl' \<Longrightarrow> line sl' = l"
  using parse_loop_total [of 0 "sl\<lparr>word := [], line := l\<rparr>" "Suc (length l)"] by (auto simp: parse_nonempty)

theorem said_text:
  assumes first: "parse l1 Splitline_new = Ret () c1" "2 \<le> length (word c1)"
    and later: "parse l2 c1 = Ret () c2" "l2 \<noteq> []"
  shows "\<exists>k < length l1. wordptr 1 c1 = Ret (drop k l1) c1
    \<and> wordptr 1 c2 = (if k \<le> length l2 then Ret (drop k l2) c2 else Exn Out_of_range c2)"
proof -
  obtain ps where ps: "wordPtr c1 = ps" "length (word c1) = length ps" "list_all (\<lambda>p. p < length l1) ps"
    using parse_records [of l1 Splitline_new] first(1) by (auto simp: Splitline_new_def)
  have two: "1 < length ps" using ps(2) first(2) by simp
  then have k: "ps ! 1 < length l1" using ps(3) by (simp add: list_all_length)
  then have "line c1 = l1" using parse_line [OF _ first(1)] by (cases l1) auto
  moreover have "line c2 = l2" using parse_line [OF later(2,1)] .
  moreover obtain qs where "wordPtr c2 = ps @ qs" using parse_records [of l2 c1] later(1) ps(1) by auto
  ultimately show ?thesis using two k ps(1)
    by (intro exI [of _ "ps ! 1"]) (auto simp: wordptr_def str_substr_from_def nth_append)
qed

section \<open>The others\<close>

definition said :: "string \<Rightarrow> string \<Rightarrow> string" where
  "said name t = crlf (c_str name) @ '' say: '' @ crlf (c_str t) @ [CR, NL]"

definition echoed :: "string \<Rightarrow> string" where
  "echoed t = ''You say: '' @ crlf (c_str t) @ [CR, NL]"

lemma c_str_clean: "NUL \<notin> set (c_str s)"
  unfolding c_str_def by (auto dest: set_takeWhileD)

lemma say_lines:
  "uPrintf [Lit ''You say: '', S t, Lit nl] = uWrite (echoed t)"
  "uPrintf [S name, Lit '' say: '', S t, Lit nl] = uWrite (said name t)"
proof -
  have lits: "c_str ''You say: '' = ''You say: ''" "c_str '' say: '' = '' say: ''" "c_str [NL] = [NL]"
    by (simp_all add: c_str_def NUL_def NL_def)
  have clean: "c_str (x @ [NL]) = x @ [NL]" if "NUL \<notin> set x" for x
    using that by (intro c_str_id) simp
  have keep: "drop_slash (x @ [NL]) = x @ [NL]" for x by (simp add: drop_slash_def)
  have "crlf (drop_slash (c_str (stringFormat [Lit ''You say: '', S t, Lit nl]))) = echoed t"
    using clean [of "''You say: '' @ c_str t"] c_str_clean [of t] keep [of "''You say: '' @ c_str t"]
    by (simp add: stringFormat_def lits crlf_append echoed_def NUL_def) (simp add: NL_def)
  then show "uPrintf [Lit ''You say: '', S t, Lit nl] = uWrite (echoed t)"
    by (simp add: fun_eq_iff uPrintf_def printf_loop_spec)
  have "crlf (drop_slash (c_str (stringFormat [S name, Lit '' say: '', S t, Lit nl]))) = said name t"
    using clean [of "c_str name @ '' say: '' @ c_str t"] c_str_clean [of t] c_str_clean [of name]
      keep [of "c_str name @ '' say: '' @ c_str t"]
    by (simp add: stringFormat_def lits crlf_append said_def NUL_def) (simp add: NL_def)
  then show "uPrintf [S name, Lit '' say: '', S t, Lit nl] = uWrite (said name t)"
    by (simp add: fun_eq_iff uPrintf_def printf_loop_spec)
qed

lemma said_nonempty [simp]: "said name t \<noteq> []" "echoed t \<noteq> []"
  by (simp_all add: said_def echoed_def)

text \<open>One round of the loop over the list of users.\<close>

abbreviation tell_user :: "nat \<Rightarrow> user \<Rightarrow> u32 \<times> nat \<Rightarrow> unit wprog" where
  "tell_user a me \<equiv> \<lambda>(k, b). whenb (b \<noteq> a) (bind (on_user a (on_com (wordptr 1))) (\<lambda>t.
     say b [S (u_name me), Lit '' say: '', S t, Lit nl]))"

lemma on_com_wordptr:
  assumes "map_find (heap w) a = Some u" "wordptr 1 (com u) = Ret t (com u)"
  shows "on_user a (on_com (wordptr 1)) w = Ret t (w\<lparr>heap := map_put a u (heap w)\<rparr>)"
  using assms by (simp add: on_user_def on_com_def)

lemma say_told:
  assumes "map_find (heap w) b = Some v" "uPrintf ps = uWrite x" "x \<noteq> []"
  shows "say b ps w = Ret () (w\<lparr>heap := map_put b (wrote_calls [Write x] v) (heap w)\<rparr>)"
  using assms by (simp add: on_user_def uWrite_eval)

lemma tell_users:
  assumes "map_find (heap w) a = Some u" "wordptr 1 (com u) = Ret t (com u)"
    "\<forall>(k, b) \<in> set us. b = a \<or> map_find (heap w) b \<noteq> None" "distinct (map snd us)"
  shows "\<exists>h. for_each us (tell_user a me) w = Ret () (w\<lparr>heap := h\<rparr>)
    \<and> (\<forall>b. map_find h b = (if b \<noteq> a \<and> b \<in> snd ` set us
         then map_option (wrote_calls [Write (said (u_name me) t)]) (map_find (heap w) b) else map_find (heap w) b))"
  using assms
proof (induction us arbitrary: w)
  case Nil
  then show ?case by (intro exI [of _ "heap w"]) (simp add: prog_eval)
next
  case (Cons x us)
  obtain k b where x: "x = (k, b)" by (cases x)
  show ?case
  proof (cases "b = a")
    case True
    have "\<forall>(j, c) \<in> set us. c = a \<or> map_find (heap w) c \<noteq> None" using Cons.prems(3) by auto
    with Cons.IH [OF Cons.prems(1,2)] Cons.prems(4) obtain h where
      h: "for_each us (tell_user a me) w = Ret () (w\<lparr>heap := h\<rparr>)"
        "\<forall>c. map_find h c = (if c \<noteq> a \<and> c \<in> snd ` set us
          then map_option (wrote_calls [Write (said (u_name me) t)]) (map_find (heap w) c) else map_find (heap w) c)"
      by auto
    then show ?thesis using True x by (intro exI [of _ h]) (auto simp: prog_eval whenb_eval seq_eval)
  next
    case False
    then obtain v where v: "map_find (heap w) b = Some v" using Cons.prems(3) x by auto
    let ?h = "map_put b (wrote_calls [Write (said (u_name me) t)] v) (map_put a u (heap w))"
    have step: "tell_user a me x w = Ret () (w\<lparr>heap := ?h\<rparr>)"
      using False v x say_told [OF _ say_lines(2), of "w\<lparr>heap := map_put a u (heap w)\<rparr>" b v]
      by (simp add: whenb_eval bind_def on_com_wordptr [OF Cons.prems(1,2), unfolded One_nat_def] find_put_any)
    have "map_find ?h a = Some u" using False by (simp add: find_put_any)
    moreover have "\<forall>(j, c) \<in> set us. c = a \<or> map_find ?h c \<noteq> None"
      using Cons.prems(3) by (auto simp: find_put_any)
    ultimately obtain h where h: "for_each us (tell_user a me) (w\<lparr>heap := ?h\<rparr>) = Ret () (w\<lparr>heap := h\<rparr>)"
      "\<forall>c. map_find h c = (if c \<noteq> a \<and> c \<in> snd ` set us
         then map_option (wrote_calls [Write (said (u_name me) t)]) (map_find ?h c) else map_find ?h c)"
      using Cons.IH [of "w\<lparr>heap := ?h\<rparr>"] Cons.prems(2,4) by auto
    have "b \<notin> snd ` set us" using Cons.prems(4) x by simp
    then have "map_find h c = (if c \<noteq> a \<and> c \<in> snd ` set (x # us)
         then map_option (wrote_calls [Write (said (u_name me) t)]) (map_find (heap w) c) else map_find (heap w) c)" for c
      using h(2) [rule_format, of c] v x Cons.prems(1) False
      by (cases "c = b"; cases "c = a") (simp_all add: find_put_any)
    then show ?thesis using h(1) step by (intro exI [of _ h]) (simp add: seq_eval)
  qed
qed

text \<open>
  Claim C24: what one user says reaches every other, once. When the line has a text, the speaker is told \<open>You
  say:\<close> and the text, every other user in the list (also one who is still at the login) gets the speaker's
  name, \<open>say:\<close> and the text, each ended by one line break; nobody else gets anything, and nothing
  else in the server changes.
\<close>

theorem say_reaches_everyone:
  assumes "map_find (heap w) a = Some u" and "2 \<le> length (word (com u))" and "wordptr 1 (com u) = Ret t (com u)"
    and "\<forall>(k, b) \<in> set (listUser w). map_find (heap w) b \<noteq> None" and "distinct (map snd (listUser w))"
  shows "\<exists>w'. Say_execute a w = Ret () w' \<and> w' = w\<lparr>heap := heap w'\<rparr>
    \<and> (\<forall>b. map_find (heap w') b = (if b = a then Some (wrote_calls [Write (echoed t)] u)
        else if b \<in> snd ` set (listUser w) then map_option (wrote_calls [Write (said (u_name u) t)]) (map_find (heap w) b)
        else map_find (heap w) b))"
proof -
  let ?u = "wrote_calls [Write (echoed t)] u"
  let ?w = "w\<lparr>heap := map_put a ?u (map_put a u (heap w))\<rparr>"
  have heard: "say a [Lit ''You say: '', S t, Lit nl] (w\<lparr>heap := map_put a u (heap w)\<rparr>) = Ret () ?w"
    using say_told [OF _ say_lines(1), of "w\<lparr>heap := map_put a u (heap w)\<rparr>" a u] by (simp add: find_put_any)
  have "\<forall>(k, b) \<in> set (listUser w). b = a \<or> map_find (heap ?w) b \<noteq> None"
    using assms(4) by (auto simp: find_put_any)
  then obtain h where h: "for_each (listUser w) (tell_user a u) ?w = Ret () (w\<lparr>heap := h\<rparr>)"
    "\<forall>b. map_find h b = (if b \<noteq> a \<and> b \<in> snd ` set (listUser w)
       then map_option (wrote_calls [Write (said (u_name u) t)]) (map_find (heap ?w) b) else map_find (heap ?w) b)"
    using tell_users [of ?w a ?u t "listUser w" u] assms(3,5) by (auto simp: find_put_any)
  have "Say_execute a w = Ret () (w\<lparr>heap := h\<rparr>)"
    using assms(1,2) h(1) heard on_com_wordptr [OF assms(1,3)]
    by (simp add: Say_execute_def bind_def seq_def the_user_def prog_eval)
  then show ?thesis using h(2) by (intro exI [of _ "w\<lparr>heap := h\<rparr>"]) (simp add: find_put_any)
qed

definition chat_user :: "nat \<Rightarrow> string \<Rightarrow> user" where
  "chat_user p name = (User_new (1000 + p) (Some p))\<lparr>stage := UserStage_CMD_LINE, level := UserLevel_NOVICE, u_name := name\<rparr>"

definition chat_world :: world where
  "chat_world = (world_new \<lparr>m_connected = False, db_calls = []\<rparr>)\<lparr>
     heap := [(1, (chat_user 5 ''Ann'')\<lparr>com := (case parse ''say hi all'' Splitline_new of Ret _ c \<Rightarrow> c)\<rparr>), (2, chat_user 6 ''Bob'')],
     listUser := [(1, 1), (2, 2)]\<rparr>"

theorem say_reaches_everyone_witness:
  "\<exists>w'. Say_execute 1 chat_world = Ret () w'
     \<and> map_option calls (map_find (heap w') 1) = Some [(5, Write (''You say: hi all'' @ [CR, NL]))]
     \<and> map_option calls (map_find (heap w') 2) = Some [(6, Write (''Ann say: hi all'' @ [CR, NL]))]"
proof -
  let ?u = "(chat_user 5 ''Ann'')\<lparr>com := (case parse ''say hi all'' Splitline_new of Ret _ c \<Rightarrow> c)\<rparr>"
  have c: "wordptr 1 (com ?u) = Ret ''hi all'' (com ?u)" "2 \<le> length (word (com ?u))" by code_simp+
  have h: "heap chat_world = [(1, ?u), (2, chat_user 6 ''Bob'')]" "listUser chat_world = [(1, 1), (2, 2)]"
    by (simp_all add: chat_world_def)
  have t: "echoed ''hi all'' = ''You say: hi all'' @ [CR, NL]" "said ''Ann'' ''hi all'' = ''Ann say: hi all'' @ [CR, NL]"
    by code_simp+
  show ?thesis
    using say_reaches_everyone [of chat_world 1 ?u "''hi all''"] c h t
    by (auto simp: chat_user_def User_new_def wrote_calls_def)
qed

end
