(* ===== verification/Delivery.thy ===== *)
theory Delivery
  imports TelnetOutput Talk
begin

text \<open>
  From a user's output to the bytes its connection gets: \<open>uWrite\<close> calls \<open>Protocol::write\<close>
  (\<open>src/Network/Protocol.cpp\<close>), which takes a message of the pool, writes the text into it and sends it
  (\<open>src/Network/OutputMessage.cpp\<close>, \<open>Connection.cpp\<close>).
\<close>

section \<open>What a write leaves alone\<close>

text \<open>Whether the pool is open, and the protocols with their connections.\<close>

definition links :: "bool \<Rightarrow> (nat \<Rightarrow> nat option option) \<Rightarrow> pool \<Rightarrow> bool" where
  "links b f s \<longleftrightarrow> m_isOpen s = b \<and> (\<lambda>p. map_option getConnection (map_find (pool_prots s) p)) = f"

lemma keeps_upd_prot:
  assumes "\<And>r. getConnection (g r) = getConnection r"
  shows "keeps (links b f) (OutputPool.upd_prot p g)"
  by (rule keepsI)
    (auto simp: OutputPool.upd_prot_def prot_at_def links_def bind_def prog_eval find_put_any assms split: option.splits)

lemma keeps_prot_at: "keeps (links b f) (prot_at p)"
  by (rule keepsI) (auto simp: prot_at_def bind_def prog_eval split: option.splits)

lemma keeps_msg_prot: "keeps (links b f) (msg_prot m)"
  by (rule keepsI) (auto simp: msg_prot_def bind_def prog_eval split: option.splits)

lemma keeps_maybe:
  "keeps I m \<Longrightarrow> (\<And>x. keeps I (n x)) \<Longrightarrow> keeps I (case y of None \<Rightarrow> m | Some x \<Rightarrow> n x)"
  by (cases y) simp_all

lemma keeps_on_msg: "keeps (links b f) (on_msg m build)"
  by (rule keepsI) (auto simp: on_msg_def links_def split: out.splits)

lemmas link_rules = keeps_upd_prot keeps_prot_at keeps_msg_prot keeps_maybe keeps_on_msg

lemma links_modify: "(\<And>s. m_isOpen (g s) = m_isOpen s \<and> pool_prots (g s) = pool_prots s) \<Longrightarrow> keeps (links b f) (modify g)"
  by (rule keeps_modify) (simp add: links_def)

lemma keeps_onSendMessage: "keeps (links b f) (onSendMessage p m)"
  unfolding onSendMessage_def by (intro keeps_intros link_rules) simp

lemma keeps_upd_msg: "keeps (links b f) (upd_msg m g)"
  unfolding upd_msg_def by (rule links_modify) simp

lemma keeps_configure: "keeps (links b f) (configureOutputMessage m p autosend)"
  unfolding configureOutputMessage_def
  by (intro keeps_bind keeps_seq keeps_if keeps_basic link_rules keeps_upd_msg links_modify) simp_all

lemma keeps_getOutputMessage: "keeps (links b f) (getOutputMessage g p autosend)"
  unfolding getOutputMessage_def new_message_def
  by (intro keeps_bind keeps_seq keeps_if keeps_whenb keeps_basic link_rules keeps_configure links_modify) simp_all

lemma keeps_connection_send: "keeps (links b f) (connection_send r m)"
  by (cases r) (simp_all add: connection_send_def addToAutoSend_def keeps_bind keeps_seq keeps_basic keeps_msg_prot
      keeps_onSendMessage links_modify)

lemma keeps_drop_handle: "keeps (links b f) (drop_handle m)"
  unfolding drop_handle_def let_go_def releaseMessage_def
  by (intro keeps_bind keeps_seq keeps_whenb keeps_basic links_modify) simp_all

lemma keeps_write: "keeps (links b f) (protocol_write g p str r)"
  unfolding protocol_write_def
  by (intro keeps_bind keeps_seq keeps_basic link_rules keeps_getOutputMessage keeps_connection_send keeps_drop_handle)

section \<open>One write\<close>

text \<open>The text with its zero byte; one that is too long for a message is left out of it.\<close>

definition wire :: "string \<Rightarrow> u8 list" where
  "wire t = (if length (zstr t) < MAXSIZE \<and> length (zstr t) \<le> 8193 then zstr t else [])"

lemma append_wire: "append_op [] (OpString t) = wire t"
  by (simp add: append_op_def wire_def zstr_def)

definition carries :: "pool \<Rightarrow> nat \<Rightarrow> nat option \<Rightarrow> u8 list \<Rightarrow> bool" where
  "carries t m c w \<longleftrightarrow> conn_of t m = c \<and> written (omsg_at t m) = w"

text \<open>What one write has added to the messages connections took, and to the queue.\<close>

definition added :: "send_result \<Rightarrow> nat \<Rightarrow> pool \<Rightarrow> pool \<Rightarrow> bool" where
  "added a m s t \<longleftrightarrow> sent t = sent s @ (if a = Sent then [m] else [])
     \<and> m_toAddQueue t = m_toAddQueue s @ (if a = Queued then [m] else [])"

lemma write_spec:
  assumes inv: "pool_inv {} s" and p: "map_find (pool_prots s) p = Some r" and g: "length g = MAXSIZE"
    and up: "m_isOpen s" "getConnection r = Some c" and len: "op_addressable (OpString str)"
  shows "holds (protocol_write g p str a) (\<lambda>_ t. pool_inv {} t \<and> (\<exists>m. added a m s t \<and> carries t m (Some c) (wire str))) s"
proof -
  let ?Q = "\<lambda>(_ :: unit) t. pool_inv {} t \<and> (\<exists>m. added a m s t \<and> carries t m (Some c) (wire str))"
  have finish: "holds (seq (bind (connection_send a m) (\<lambda>_. skip)) (drop_handle m)) ?Q t"
    if t: "pool_inv {} t" "m \<in> set (held t)" "sent t = sent s" "m_toAddQueue t = m_toAddQueue s" "carries t m (Some c) (wire str)"
    for m t
  proof -
    have "holds (connection_send a m) (\<lambda>_ u. pool_inv {} u \<and> m \<in> set (held u) \<and> added a m s u \<and> omsg_at u = omsg_at t) t"
      by (rule wp_mono [OF connection_send_inv [OF t(1)]])
        (use t in \<open>auto simp: took_def added_def PoolSafety.listed_def\<close>)
    then show ?thesis unfolding wp_seq wp_bind wp_unit
      by (rule wp_mono) (use t(5) in \<open>auto simp: added_def carries_def intro!: wp_mono [OF drop_handle_frame]\<close>)
  qed
  have same: "on_msg m (AddString str) = on_msg m (for_each [OpString str] run_op)" for m
    by (rule ext) (simp add: on_msg_def seq_def bind_def prog_eval split: out.split)
  have "holds (case x of None \<Rightarrow> undefined_behaviour
     | Some m \<Rightarrow> seq (on_msg m (AddString str)) (bind (prot_at p) (\<lambda>q. case getConnection q of
         None \<Rightarrow> undefined_behaviour
       | Some _ \<Rightarrow> seq (bind (connection_send a m) (\<lambda>_. skip)) (drop_handle m)))) ?Q t"
    if t: "pool_inv {} t \<and> omsg_count t \<le> omsg_count s + 1 \<and> gotten False p r s x t" for x t
  proof -
    obtain m r' where x: "x = Some m" "m \<in> set (held t)" "msg_ok (omsg_at t m)" "written (omsg_at t m) = []"
      "conn_of t m = Some c" "sent t = sent s" "m_toAddQueue t = m_toAddQueue s"
      "map_find (pool_prots t) p = Some r'" "getConnection r' = Some c"
      using t up by (auto simp: gotten_def split: option.splits)
    have "holds (on_msg m (AddString str)) (\<lambda>_ v. holds (bind (prot_at p) (\<lambda>q. case getConnection q of
         None \<Rightarrow> undefined_behaviour
       | Some _ \<Rightarrow> seq (bind (connection_send a m) (\<lambda>_. skip)) (drop_handle m))) ?Q v) t"
      unfolding same
    proof (rule wp_mono [OF on_ops_inv [OF _ x(3,4)]])
      fix v assume v: "pool_inv {} v \<and> (\<exists>f. v = t\<lparr>omsg_at := f\<rparr>) \<and> m_state (omsg_at v m) = m_state (omsg_at t m)
        \<and> conn_of v m = conn_of t m \<and> written (omsg_at v m) = foldl append_op [] [OpString str]"
      then have "map_find (pool_prots v) p = Some r'" "m \<in> set (held v)" "sent v = sent s" "m_toAddQueue v = m_toAddQueue s"
        "carries v m (Some c) (wire str)"
        using x by (auto simp: carries_def append_wire)
      then show "holds (bind (prot_at p) (\<lambda>q. case getConnection q of None \<Rightarrow> undefined_behaviour
          | Some _ \<Rightarrow> seq (bind (connection_send a m) (\<lambda>_. skip)) (drop_handle m))) ?Q v"
        using finish v x(9) by (simp add: wp_bind [of "prot_at p"] prot_at_inv)
    qed (use t len in auto)
    then show ?thesis using x(1) by (simp add: wp_seq [of "on_msg _ _"])
  qed
  then show ?thesis unfolding protocol_write_def wp_bind [of "getOutputMessage _ _ _"]
    by (intro wp_mono [OF getOutputMessage_inv [OF inv p g]]) auto
qed

section \<open>A sequence of writes\<close>

text \<open>
  Writes with the answers of their connections. \<open>boost::asio::write\<close> has put the bytes on the connection when
  \<open>Protocol::write\<close> returns with the answer \<open>Sent\<close>. The result says of each write what it gave to
  a connection, and what it put behind the queue of messages to send later: the connection and the bytes.
\<close>

definition newly :: "(pool \<Rightarrow> nat list) \<Rightarrow> pool \<Rightarrow> pool \<Rightarrow> (nat option \<times> u8 list) list" where
  "newly f s t = map (\<lambda>m. (conn_of t m, written (omsg_at t m))) (drop (length (f s)) (f t))"

type_synonym write_effect = "(nat option \<times> u8 list) list \<times> (nat option \<times> u8 list) list"

fun write_all :: "u8 list \<Rightarrow> (nat \<times> string \<times> send_result) list \<Rightarrow> write_effect list pprog" where
  "write_all g [] = ret []"
| "write_all g ((p, t, a) # ws) = bind (gets id) (\<lambda>s. seq (protocol_write g p t a)
     (bind (gets (\<lambda>u. (newly sent s u, newly m_toAddQueue s u))) (\<lambda>x. bind (write_all g ws) (\<lambda>xs. ret (x # xs)))))"

definition linked :: "pool \<Rightarrow> nat \<Rightarrow> nat option" where
  "linked s p = Option.bind (map_find (pool_prots s) p) getConnection"

definition effect_of :: "pool \<Rightarrow> nat \<times> string \<times> send_result \<Rightarrow> write_effect" where
  "effect_of s = (\<lambda>(p, t, a). (if a = Sent then [(linked s p, wire t)] else [],
     if a = Queued then [(linked s p, wire t)] else []))"

text \<open>
  Claim C34: what is written to clients reaches their connections. While the pool is open, every sequence of writes to
  connected clients returns and keeps the books of the pool, whatever the connections answer. A connection that takes
  the message is given exactly the text with a zero byte, one that still writes has exactly this put behind the
  queue, and one that refuses gets nothing; each in the order of the writes. A text that is too
  long for a message goes as an empty message (\<open>wire\<close>).
\<close>

theorem writes_reach_connections:
  assumes "pool_inv {} s" and "m_isOpen s" and "length g = MAXSIZE"
    and "\<forall>(p, t, a) \<in> set ws. linked s p \<noteq> None \<and> length t < 2 ^ 31"
  shows "\<exists>s'. write_all g ws s = Ret (map (effect_of s) ws) s' \<and> pool_inv {} s'"
  using assms
proof (induction ws arbitrary: s)
  case Nil
  then show ?case by (simp add: prog_eval)
next
  case (Cons w ws)
  obtain p t a where w: "w = (p, t, a)" by (cases w)
  obtain r c where r: "map_find (pool_prots s) p = Some r" "getConnection r = Some c"
    using Cons.prems(4) w by (auto simp: linked_def bind_eq_Some_conv)
  have "length (c_str t) \<le> length t" by (simp add: c_str_def length_takeWhile_le)
  then have "op_addressable (OpString t)" using Cons.prems(4) w by (auto simp: op_addressable_def)
  from write_spec [OF Cons.prems(1) r(1) Cons.prems(3,2) r(2) this, where a = a] obtain u m where u: "protocol_write g p t a s = Ret () u"
    "pool_inv {} u" "added a m s u" "carries u m (Some c) (wire t)"
    by (auto simp: wp_Ret)
  have eff: "(newly sent s u, newly m_toAddQueue s u) = effect_of s w"
    using u(3,4) r w by (cases a) (simp_all add: newly_def added_def carries_def effect_of_def linked_def)
  have "links (m_isOpen s) (\<lambda>p. map_option getConnection (map_find (pool_prots s) p)) u"
    by (rule keepsD_Ret [OF keeps_write _ u(1)]) (simp add: links_def)
  then have open_u: "m_isOpen u" and found: "map_option getConnection (map_find (pool_prots u) q)
      = map_option getConnection (map_find (pool_prots s) q)" for q
    using Cons.prems(2) by (simp_all add: links_def fun_eq_iff)
  have "linked u q = linked s q" for q
    using found [of q] by (cases "map_find (pool_prots u) q"; cases "map_find (pool_prots s) q") (simp_all add: linked_def)
  then have same: "linked u = linked s" "effect_of u = effect_of s" by (simp_all add: fun_eq_iff effect_of_def)
  then obtain s' where "write_all g ws u = Ret (map (effect_of s) ws) s'" "pool_inv {} s'"
    using Cons.IH [OF u(2) open_u Cons.prems(3)] Cons.prems(4) by auto
  then show ?case using u(1) eff w by (simp add: seq_def bind_def prog_eval)
qed

theorem writes_reach_connections_witness:
  "\<exists>s'. write_all (replicate MAXSIZE 0) [(1, ''a'', Sent), (1, ''b'', Queued), (1, ''c'', Refused)] (sample_pool\<lparr>m_isOpen := True\<rparr>)
     = Ret [([(Some 2, [97, 0])], []), ([], [(Some 2, [98, 0])]), ([], [])] s' \<and> pool_inv {} s'"
proof -
  have "linked (sample_pool\<lparr>m_isOpen := True\<rparr>) 1 = Some 2" using sample_open(3) by (simp add: linked_def)
  moreover have "wire ''a'' = [97, 0]" "wire ''b'' = [98, 0]" by code_simp+
  ultimately show ?thesis
    using writes_reach_connections [OF sample_open(1), of "replicate MAXSIZE 0" "[(1, ''a'', Sent), (1, ''b'', Queued), (1, ''c'', Refused)]"]
    by (auto simp: effect_of_def)
qed

end
