(* ===== verification/QueryLock.thy ===== *)
theory QueryLock
  imports World
begin

text \<open>
  \<open>Query\<close> (\<open>src/Database/Query.h\<close>, \<open>Query.cpp\<close>) and the operations of \<open>IOUser\<close> (\<open>src/Common/IOUser.cpp\<close>) as
  several threads run them: each makes a \<open>Query\<close> first, which locks a recursive mutex until it goes out of
  scope. The lines of clients are read by the thread of the services, tasks are run by the one of the dispatcher.
\<close>

section \<open>The mutex\<close>

text \<open>\<open>boost::recursive_mutex\<close>: its thread with the number of its locks.\<close>

datatype mutex = Unlocked | Locked nat nat

text \<open>\<open>None\<close>: the thread has to wait.\<close>

fun Query_new :: "nat \<Rightarrow> mutex \<Rightarrow> mutex option" where
  "Query_new t Unlocked = Some (Locked t 1)"
| "Query_new t (Locked u n) = (if t = u then Some (Locked u (n + 1)) else None)"

text \<open>\<open>None\<close>: a thread may not unlock what it has not locked.\<close>

fun Query_delete :: "nat \<Rightarrow> mutex \<Rightarrow> mutex option" where
  "Query_delete t Unlocked = None"
| "Query_delete t (Locked u n) = (if t = u then Some (if n = 1 then Unlocked else Locked u (n - 1)) else None)"

section \<open>The operations statement by statement\<close>

text \<open>
  What a thread still does with the database: nothing, or a statement whose answer decides what follows.
  Between two statements other threads may run.
\<close>

datatype op = Finished | Statement "db \<Rightarrow> db" "db \<Rightarrow> op"

primrec run_op :: "op \<Rightarrow> db \<Rightarrow> db" where
  "run_op Finished d = d"
| "run_op (Statement f k) d = run_op (k d) (f d)"

definition after :: "(std_exn, db, 'a) prog \<Rightarrow> db \<Rightarrow> db" where
  "after m d = (case m d of Ret _ d' \<Rightarrow> d' | _ \<Rightarrow> d)"

definition statement :: "(std_exn, db, 'a) prog \<Rightarrow> ('a \<Rightarrow> op) \<Rightarrow> op" where
  "statement m k = Statement (after m) (\<lambda>d. case m d of Ret a _ \<Rightarrow> k a | _ \<Rightarrow> Finished)"

datatype io_op = Load string | Save string | Create string

definition end_op :: "mysql \<Rightarrow> tx_state \<Rightarrow> op" where
  "end_op env st = statement (tx_end env st) (\<lambda>_. Finished)"

fun io_program :: "mysql \<Rightarrow> io_op \<Rightarrow> op" where
  "io_program env (Load query) = statement (storeQuery env query) (\<lambda>_. Finished)"
| "io_program env (Save query) = statement (tx_begin env) (\<lambda>(ok, st).
     if \<not> ok then end_op env st
     else statement (executeQuery env query) (\<lambda>ok.
       if \<not> ok then end_op env st else statement (tx_commit env st) (\<lambda>(_, st). end_op env st)))"
| "io_program env (Create row) = statement (tx_begin env) (\<lambda>(_, st).
     statement (addRow env row (setQuery create_query Insert_new)) (\<lambda>(added, ins).
     statement (if \<not> added then ret (False, ins) else Insert_execute env ins) (\<lambda>(done, _).
     if \<not> done then end_op env st
     else statement (getLastInsertedRowID env) (\<lambda>_. statement (tx_commit env st) (\<lambda>(_, st). end_op env st)))))"

text \<open>The same operations in one piece, as a thread alone with the database runs them.\<close>

definition save_account :: "mysql \<Rightarrow> string \<Rightarrow> (std_exn, db, bool) prog" where
  "save_account env query = bind (tx_begin env) (\<lambda>(ok, st).
     if \<not> ok then seq (tx_end env st) (ret False)
     else bind (executeQuery env query) (\<lambda>ok.
       if \<not> ok then seq (tx_end env st) (ret False)
       else bind (tx_commit env st) (\<lambda>(ok, st). seq (tx_end env st) (ret ok))))"

lemma IOUser_save_account:
  "IOUser_save H a = bind (the_user a) (\<lambda>u. on_db (save_account (db_env H) (save_query H u)))"
  by (simp add: IOUser_save_def save_account_def)

fun io_call :: "mysql \<Rightarrow> io_op \<Rightarrow> db \<Rightarrow> db" where
  "io_call env (Load query) = after (storeQuery env query)"
| "io_call env (Save query) = after (save_account env query)"
| "io_call env (Create row) = after (create_account env row)"

text \<open>
  A program of the database that always returns, and statements that one by one leave what it leaves.
\<close>

definition returns :: "(std_exn, db, 'a) prog \<Rightarrow> bool" where
  "returns m \<longleftrightarrow> (\<forall>d. wp m (\<lambda>_ _. True) (\<lambda>_ _. False) d)"

lemma returnsE:
  assumes "returns m"
  obtains a d' where "m d = Ret a d'"
  using assms unfolding returns_def wp_Ret by blast

definition implements :: "op \<Rightarrow> (std_exn, db, 'a) prog \<Rightarrow> bool" where
  "implements p m \<longleftrightarrow> (\<forall>d. \<exists>a. m d = Ret a (run_op p d))"

lemma returns_basic:
  "returns (ret a)" "returns (internalQuery env query)" "returns (storeQuery env query)" "returns (executeQuery env query)"
  "returns (getLastInsertedRowID env)" "returns (rollback env)" "returns (commit env)"
  by (simp_all add: returns_def wp_def internalQuery_def storeQuery_def internalSelectQuery_def executeQuery_def
      getLastInsertedRowID_def rollback_def commit_def prog_eval Let_def split: sum.split)

lemma returns_bind: "returns m \<Longrightarrow> (\<And>a. returns (f a)) \<Longrightarrow> returns (bind m f)"
  unfolding returns_def wp_bind by (blast intro: wp_mono)

lemma returns_if: "returns m \<Longrightarrow> returns n \<Longrightarrow> returns (if b then m else n)"
  by simp

lemmas returning = returns_bind returns_if returns_basic

lemma returns_tx: "returns (tx_begin env)" "returns (tx_commit env st)" "returns (tx_end env st)"
  unfolding tx_begin_def beginTransaction_def tx_commit_def tx_end_def skip_def by (intro returning)+

lemma returns_insert: "returns (Insert_execute env i)" "returns (addRow env row i)"
  unfolding Insert_execute_def addRow_def Let_def case_prod_beta by (intro returning)+

lemma implements_bind:
  assumes "returns m" and "\<And>a. implements (k a) (f a)"
  shows "implements (statement m k) (bind m f)"
  unfolding implements_def
proof
  fix d
  obtain a d' where m: "m d = Ret a d'" using assms(1) by (rule returnsE)
  then show "\<exists>b. bind m f d = Ret b (run_op (statement m k) d)"
    using assms(2) [of a] by (auto simp: implements_def bind_def statement_def after_def)
qed

lemma implements_ret: "implements Finished (ret x)"
  by (simp add: implements_def prog_eval)

lemma bind_ret: "bind m ret = m"
  by (rule ext) (simp add: bind_def ret_def split: out.split)

lemma implements_last: "returns m \<Longrightarrow> implements (statement m (\<lambda>_. Finished)) m"
  using implements_bind [of m "\<lambda>_. Finished" ret] by (simp add: implements_ret bind_ret)

lemma implements_end: "implements (end_op env st) (seq (tx_end env st) (ret x))"
  unfolding end_op_def seq_def by (intro implements_bind returns_tx implements_ret)

lemma implements_if: "implements p m \<Longrightarrow> implements q n \<Longrightarrow> implements (if b then p else q) (if b then m else n)"
  by simp

lemmas implementing = implements_bind implements_if implements_end implements_last returns_tx returns_insert

lemma after_implements:
  assumes "implements p m"
  shows "after m = run_op p"
proof
  fix d
  obtain a where "m d = Ret a (run_op p d)" using assms unfolding implements_def by blast
  then show "after m d = run_op p d" by (simp add: after_def)
qed

lemma io_call_run: "io_call env j = run_op (io_program env j)"
  by (cases j; simp only: io_call.simps io_program.simps; rule after_implements)
    (simp_all only: save_account_def create_account_def case_prod_beta implementing returning)

section \<open>Threads\<close>

text \<open>
  The operations each thread has not begun, what it still does of the one it is in, the mutex and the database.
\<close>

record query_state =
  q_jobs :: "nat \<Rightarrow> io_op list"
  q_inside :: "nat \<Rightarrow> op option"
  q_lock :: mutex
  q_db :: db

definition query_start :: "(nat \<Rightarrow> io_op list) \<Rightarrow> db \<Rightarrow> query_state" where
  "query_start J d = \<lparr>q_jobs = J, q_inside = (\<lambda>_. None), q_lock = Unlocked, q_db = d\<rparr>"

inductive query_step :: "mysql \<Rightarrow> query_state \<Rightarrow> query_state \<Rightarrow> bool" for env where
  enter: "q_jobs s t = j # js \<Longrightarrow> q_inside s t = None \<Longrightarrow> Query_new t (q_lock s) = Some l
     \<Longrightarrow> query_step env s (s\<lparr>q_jobs := (q_jobs s)(t := js), q_inside := (q_inside s)(t := Some (io_program env j)), q_lock := l\<rparr>)"
| work: "q_inside s t = Some (Statement f k)
     \<Longrightarrow> query_step env s (s\<lparr>q_inside := (q_inside s)(t := Some (k (q_db s))), q_db := f (q_db s)\<rparr>)"
| leave: "q_inside s t = Some Finished \<Longrightarrow> Query_delete t (q_lock s) = Some l
     \<Longrightarrow> query_step env s (s\<lparr>q_inside := (q_inside s)(t := None), q_lock := l\<rparr>)"

text \<open>The mutex is locked, once, exactly while its thread is in an operation, and no other thread is in one.\<close>

definition one_inside :: "query_state \<Rightarrow> bool" where
  "one_inside s \<longleftrightarrow> (case q_lock s of
     Unlocked \<Rightarrow> q_inside s = (\<lambda>_. None)
   | Locked t n \<Rightarrow> n = 1 \<and> (\<exists>p. q_inside s = (\<lambda>_. None)(t := Some p)))"

text \<open>The database when the operation that is under way is done.\<close>

definition settled :: "query_state \<Rightarrow> db" where
  "settled s = (case q_lock s of
     Unlocked \<Rightarrow> q_db s
   | Locked t n \<Rightarrow> (case q_inside s t of None \<Rightarrow> q_db s | Some p \<Rightarrow> run_op p (q_db s)))"

text \<open>The operations begun so far, one after the other, with their threads.\<close>

definition begun :: "(nat \<Rightarrow> io_op list) \<Rightarrow> (nat \<times> io_op) list \<Rightarrow> query_state \<Rightarrow> bool" where
  "begun J h s \<longleftrightarrow> (\<forall>t. J t = map snd (filter (\<lambda>x. fst x = t) h) @ q_jobs s t)"

definition in_turn :: "mysql \<Rightarrow> (nat \<Rightarrow> io_op list) \<Rightarrow> db \<Rightarrow> query_state \<Rightarrow> bool" where
  "in_turn env J d s \<longleftrightarrow> one_inside s \<and> (\<exists>h. begun J h s \<and> settled s = fold (io_call env) (map snd h) d)"

inductive_cases query_stepE: "query_step env s s'"

lemma none_inside: "one_inside s \<Longrightarrow> Query_new t (q_lock s) = Some l \<Longrightarrow> q_inside s t = None \<Longrightarrow> q_lock s = Unlocked"
  by (cases "q_lock s") (auto simp: one_inside_def split: if_splits)

lemma who_inside: "one_inside s \<Longrightarrow> q_inside s t = Some p \<Longrightarrow> q_lock s = Locked t 1 \<and> q_inside s = (\<lambda>_. None)(t := Some p)"
  by (auto simp: one_inside_def fun_upd_def split: mutex.splits if_splits)

lemma begun_enter:
  assumes "begun J h s" and "q_jobs s t = j # js" and "q_jobs s' = (q_jobs s)(t := js)"
  shows "begun J (h @ [(t, j)]) s'"
  using assms by (auto simp: begun_def)

lemma in_turn_step:
  assumes "query_step env s s'" and "in_turn env J d s"
  shows "in_turn env J d s'"
proof -
  obtain h where inv: "one_inside s" "begun J h s" "settled s = fold (io_call env) (map snd h) d"
    using assms(2) by (auto simp: in_turn_def)
  from assms(1) show ?thesis
  proof cases
    case (enter t j js l)
    have "q_lock s = Unlocked" using none_inside [OF inv(1) enter(4,3)] .
    then have "one_inside s'" "settled s' = fold (io_call env) (map snd (h @ [(t, j)])) d"
      using enter inv by (auto simp: one_inside_def settled_def io_call_run)
    moreover have "begun J (h @ [(t, j)]) s'"
      by (rule begun_enter [OF inv(2) enter(2)]) (simp add: enter(1))
    ultimately show ?thesis unfolding in_turn_def by blast
  next
    case (work t f k)
    then have "one_inside s'" "settled s' = settled s" "begun J h s'"
      using who_inside [OF inv(1) work(2)] inv(2) by (auto simp: one_inside_def settled_def begun_def)
    then show ?thesis using inv(3) unfolding in_turn_def by auto
  next
    case (leave t l)
    then have "one_inside s'" "settled s' = settled s" "begun J h s'"
      using who_inside [OF inv(1) leave(2)] inv(2) by (auto simp: one_inside_def settled_def begun_def)
    then show ?thesis using inv(3) unfolding in_turn_def by auto
  qed
qed

interpretation query: stepping "query_step env" "in_turn env J d" for env J d
  by unfold_locales (rule in_turn_step)

lemma in_turn_start: "in_turn env J d (query_start J d)"
  unfolding in_turn_def
  by (intro conjI exI [of _ "[]"]) (simp_all add: query_start_def one_inside_def begun_def settled_def)

lemma someone_moves:
  assumes "one_inside s" and "q_jobs s t \<noteq> [] \<or> q_inside s t \<noteq> None"
  shows "\<exists>s'. query_step env s s'"
proof (cases "q_lock s")
  case Unlocked
  then obtain j js where "q_jobs s t = j # js" "q_inside s t = None"
    using assms by (auto simp: one_inside_def neq_Nil_conv)
  then show ?thesis using Unlocked query_step.enter [of s t j js "Locked t 1" env] by auto
next
  case (Locked u n)
  then obtain p where p: "n = 1" "q_inside s u = Some p" using assms(1) by (auto simp: one_inside_def)
  show ?thesis
  proof (cases p)
    case Finished
    then show ?thesis using Locked p query_step.leave [of s u Unlocked env] by auto
  next
    case (Statement f k)
    then show ?thesis using p query_step.work [of s u f k env] by auto
  qed
qed

text \<open>
  Claim C13: the operations of users on the database are atomic. However the threads that load, save and create accounts are
  interleaved, statement by statement, the database gets what it would get from the operations one after the other, in an
  order that keeps that of each thread, when the one under way is finished; and while a thread still has
  something to do, some thread can go on.
\<close>

theorem operations_in_turn:
  assumes "(query_step env)\<^sup>*\<^sup>* (query_start J d) s"
  shows "(\<exists>h. (\<forall>t. J t = map snd (filter (\<lambda>x. fst x = t) h) @ q_jobs s t)
      \<and> settled s = fold (io_call env) (map snd h) d)
    \<and> (q_inside s = (\<lambda>_. None) \<longrightarrow> q_db s = settled s)
    \<and> ((\<exists>t. q_jobs s t \<noteq> [] \<or> q_inside s t \<noteq> None) \<longrightarrow> (\<exists>s'. query_step env s s'))"
proof -
  have inv: "in_turn env J d s" using query.reached [OF assms in_turn_start] .
  then have "q_inside s = (\<lambda>_. None) \<longrightarrow> q_db s = settled s"
    by (auto simp: settled_def split: mutex.split)
  moreover have "(\<exists>t. q_jobs s t \<noteq> [] \<or> q_inside s t \<noteq> None) \<longrightarrow> (\<exists>s'. query_step env s s')"
    using inv someone_moves unfolding in_turn_def by blast
  ultimately show ?thesis using inv by (auto simp: in_turn_def begun_def)
qed

definition quiet_mysql :: mysql where
  "quiet_mysql = \<lparr>real_query = \<lambda>_. 0, store_result = \<lambda>_. Inl 0, commit_fails = \<lambda>_. False,
     rollback_fails = \<lambda>_. False, insert_id = \<lambda>_. 1, escape = id\<rparr>"

text \<open>Two threads create an account; the first has sent BEGIN, and the second has to wait.\<close>

theorem operations_in_turn_witness:
  "\<exists>s. (query_step quiet_mysql)\<^sup>*\<^sup>* (query_start ((\<lambda>_. [])(0 := [Create ''1''], 1 := [Create ''2'']))
        \<lparr>m_connected = True, db_calls = []\<rparr>) s
     \<and> db_calls (q_db s) = [Real_query ''BEGIN'', Store_result] \<and> Query_new 1 (q_lock s) = None
     \<and> (\<exists>h. map snd (filter (\<lambda>x. fst x = (0::nat)) h) = [Create ''1''] \<and> map snd (filter (\<lambda>x. fst x = 1) h) = []
          \<and> settled s = fold (io_call quiet_mysql) (map snd h) \<lparr>m_connected = True, db_calls = []\<rparr>)
     \<and> (\<exists>s'. query_step quiet_mysql s s')"
proof -
  let ?J = "(\<lambda>_. [])(0 := [Create ''1''], 1 := [Create ''2'']) :: nat \<Rightarrow> io_op list"
  let ?d = "\<lparr>m_connected = True, db_calls = []\<rparr>"
  let ?x = "(query_start ?J ?d)\<lparr>q_jobs := ?J(0 := []),
    q_inside := (\<lambda>_. None)(0 := Some (io_program quiet_mysql (Create ''1''))), q_lock := Locked 0 1\<rparr>"
  obtain f k where p: "io_program quiet_mysql (Create ''1'') = Statement f k" "f = after (tx_begin quiet_mysql)"
    by (simp add: statement_def)
  let ?s = "?x\<lparr>q_inside := (q_inside ?x)(0 := Some (k ?d)), q_db := f ?d\<rparr>"
  have "query_step quiet_mysql (query_start ?J ?d) ?x"
    using query_step.enter [of "query_start ?J ?d" 0 "Create ''1''" "[]" "Locked 0 1" quiet_mysql]
    by (simp add: query_start_def)
  moreover have "query_step quiet_mysql ?x ?s"
    using query_step.work [of ?x 0 f k quiet_mysql] p(1) by (simp add: query_start_def)
  ultimately have reach: "(query_step quiet_mysql)\<^sup>*\<^sup>* (query_start ?J ?d) ?s"
    by (meson rtranclp.rtrancl_into_rtrancl rtranclp.rtrancl_refl)
  have calls: "db_calls (q_db ?s) = [Real_query ''BEGIN'', Store_result]"
    by (simp add: p(2) after_def tx_begin_def beginTransaction_def executeQuery_def internalQuery_def call_def Let_def
        bind_def prog_eval quiet_mysql_def)
  have parts: "q_jobs ?s 0 = []" "q_jobs ?s 1 = [Create ''2'']" "q_inside ?s 0 \<noteq> None" "Query_new 1 (q_lock ?s) = None"
    by simp_all
  obtain h where h: "\<forall>t. ?J t = map snd (filter (\<lambda>x. fst x = t) h) @ q_jobs ?s t"
    "settled ?s = fold (io_call quiet_mysql) (map snd h) ?d" and go: "\<exists>s'. query_step quiet_mysql ?s s'"
    using operations_in_turn [OF reach] parts(3) by blast
  have order: "map snd (filter (\<lambda>x. fst x = 0) h) = [Create ''1'']" "map snd (filter (\<lambda>x. fst x = 1) h) = []"
    using h(1) [rule_format, of 0] h(1) [rule_format, of 1] by simp_all
  have "\<exists>h. map snd (filter (\<lambda>x. fst x = (0::nat)) h) = [Create ''1''] \<and> map snd (filter (\<lambda>x. fst x = 1) h) = []
      \<and> settled ?s = fold (io_call quiet_mysql) (map snd h) ?d"
    by (intro exI [of _ h] conjI order h(2))
  then show ?thesis by (intro exI [of _ ?s] conjI reach calls parts(4) go)
qed

end
