(* ===== verification/LogText.thy ===== *)
theory LogText
  imports Server Database
begin

text \<open>
  The text of the log: the stream operators of the levels (\<open>src/Log/severity_t.cpp\<close>) and the line the
  formatter of both sinks makes of a message (\<open>src/Log/Logger.cpp\<close>). The time, the process and the thread are
  printed by the library; their texts are parameters.
\<close>

text \<open>\<open>operator<<\<close> for a level: its name, or its number where it has none.\<close>

definition put_level :: "severity_level \<Rightarrow> string" where
  "put_level lvl = (case severity_to_string lvl of Some t \<Rightarrow> t | None \<Rightarrow> show_nat (level_rank lvl))"

text \<open>\<open>operator>>\<close>: the next word of the stream and the rest; \<open>None\<close> is the exception for a word that names no level.\<close>

definition get_level :: "string \<Rightarrow> (severity_level \<times> string) option" where
  "get_level is' =
     (let t = dropWhile is_space is'
      in map_option (\<lambda>l. (l, dropWhile (\<lambda>c. \<not> is_space c) t)) (to_severity (takeWhile (\<lambda>c. \<not> is_space c) t)))"

definition log_line :: "string \<Rightarrow> string \<Rightarrow> string \<Rightarrow> severity_level \<Rightarrow> string \<Rightarrow> string" where
  "log_line stamp pid tid lvl msg =
     stamp @ '' <'' @ pid @ ''/'' @ tid @ ''> : ['' @ put_level lvl @ ''] '' @ msg"

lemma put_level_name: "severity_to_string lvl = Some (put_level lvl)"
  by (cases lvl) (simp_all add: put_level_def severity_to_string_def severityMap_def)

lemma put_level_word: "put_level lvl \<noteq> []" "list_all (\<lambda>c. \<not> is_space c) (put_level lvl)"
  by (cases lvl; simp add: put_level_def severity_to_string_def severityMap_def is_space_def uc_def)+

text \<open>A level written to a stream is read back, in front of the end or of a blank, and the blanks before it are skipped.\<close>

theorem level_roundtrip:
  assumes "list_all is_space gap" and "rest = [] \<or> is_space (hd rest)"
  shows "get_level (gap @ put_level lvl @ rest) = Some (lvl, rest)"
proof -
  have "to_severity (put_level lvl) = Some lvl" using level_text_read [OF put_level_name] .
  moreover have "dropWhile is_space (gap @ put_level lvl @ rest) = put_level lvl @ rest"
    using assms(1) put_level_word [of lvl] by (cases "put_level lvl") (auto simp: list_all_iff)
  moreover have "takeWhile (\<lambda>c. \<not> is_space c) (put_level lvl @ rest) = put_level lvl"
    "dropWhile (\<lambda>c. \<not> is_space c) (put_level lvl @ rest) = rest"
    using put_level_word(2) [of lvl] assms(2) by (cases rest; auto simp: list_all_iff)+
  ultimately show ?thesis by (simp add: get_level_def)
qed

text \<open>Two messages of one thread at one time have the same line only when they have the same level and text.\<close>

lemma put_level_inject: "put_level a @ CHR '']'' # s = put_level b @ CHR '']'' # t \<Longrightarrow> a = b \<and> s = t"
  by (cases a; cases b) (auto simp: put_level_def severity_to_string_def severityMap_def)

theorem log_line_inject: "log_line stamp pid tid a s = log_line stamp pid tid b t \<longleftrightarrow> a = b \<and> s = t"
  by (auto simp: log_line_def dest: put_level_inject)

end
