(* ===== verification/TelnetInput.thy ===== *)
theory TelnetInput
  imports Session
begin

text \<open>
  Telnet options in the input: the part of \<open>uRead\<close> (\<open>src/Common/User.cpp\<close>) that puts what has come behind what
  was kept and calls \<open>parseTelopt\<close>. Nothing else in the program writes \<open>buff\<close> and \<open>bpos\<close>.
\<close>





end
