(* ===== verification/Spec2Isabelle.thy ===== *)
theory Spec2Isabelle
  imports LoginFlow EnumOps Peers TelnetOutput Tracking BlowfishPortable EventFlow Ending WinReport
    Delivery QueryLock LogText TelnetInput
begin

text \<open>
  A verification development for LotosPP, a talker server for telnet clients written in C++ (the
  sources are under \<open>src/src/\<close>; paths below are relative to it). Everything is a shallow embedding:
  pure functions are HOL functions, methods are state transformers with an explicit outcome, loops
  are recursions, and what the threads do to each other is a step relation.

  \<^bold>\<open>The program.\<close> \<open>main.cpp\<close> reads the configuration, starts the threads of the scheduler and the
  dispatcher and has a task open the Telnet service on a port. \<open>Network/ServicePort\<close> accepts a
  connection, \<open>Network/Connection\<close> reads its packets and gives them to its \<open>Telnet\<close> protocol object,
  which hands them to a \<open>User\<close>: telnet options are taken out, keys are edited into a line, and the
  line goes to the login dialogue or to a command. Output goes through messages of a pool
  (\<open>Network/OutputMessage\<close>) back to the connection. Accounts are rows of a MySQL database, their
  passwords Blowfish hashes. Closing a connection and releasing its objects are tasks of the
  dispatcher and events of the scheduler that wait for reference counts to fall to zero.

  \<^bold>\<open>Outcomes.\<close> \<open>Prelude\<close> defines the type \<open>out\<close> of a call: \<open>Ret\<close> (a value and the state), \<open>Exn\<close> (a C++
  exception and the state), \<open>Undefined\<close> (an access past a buffer, a null or dangling pointer, a failed
  assertion) and \<open>Hang\<close> (a call that never returns). A \<open>prog\<close> is a function from a state to an
  outcome; \<open>bind\<close>, \<open>seq\<close>, \<open>whenb\<close>, \<open>for_each\<close> compose them. Two calculi carry the proofs: \<open>keeps I m\<close> (an
  invariant survives the call, by the rules in \<open>keeps_intros\<close>) and \<open>wp m Q R\<close> (the call is defined, returns
  or throws, with \<open>Q\<close> or \<open>R\<close>, by the equations in \<open>wp_simps\<close>). Machine integers are words, strings
  are lists of characters, signed characters are read with \<open>sc\<close> and unsigned ones with \<open>uc\<close>. Three locales hold what
  the machines share: \<open>stepping\<close> (a step relation and what its steps keep: \<open>Tasks\<close>, \<open>EventFlow\<close>, \<open>Ending\<close>, \<open>QueryLock\<close>), \<open>object_life\<close> (an object
  whose calls return or end it with an exception: \<open>Connection\<close>) and \<open>contract\<close> (operations that refine a table: \<open>Services\<close>).

  \<^bold>\<open>The theories.\<close>
    \<^item> \<open>Prelude\<close>, \<open>StdMap\<close>: outcomes, words, \<open>std::string\<close>; \<open>std::map\<close> as a list of entries in key order, with the
      interface \<open>registry\<close> (interpreted on the maps and on the lists of objects in \<open>Registry\<close>).
    \<^item> \<open>StrMisc\<close> (\<open>Strings/misc.cpp\<close>), \<open>Splitline\<close> (\<open>Strings/Splitline.cpp\<close>): cleaning and splitting a command
      line. The splitter always ends inside its line, plain words are the maximal runs of non-blanks, and
      quoting is inverted; the word offsets of a second line are wrong.
    \<^item> \<open>Enums\<close>, \<open>EnumOps\<close> (\<open>Common/enum.h\<close>): the tables of \<open>Enum\<close>, its look-ups and iterator, \<open>BitEnum\<close>, the
      operators of both, and the enumerations the code uses with the numbers of their Lua sources.
    \<^item> \<open>NetMessage\<close> (\<open>Network/NetworkMessage.cpp\<close>): the message buffer. Any sequence of writes refines appending
      to a byte list; scalars are read back (interface \<open>scalar_io\<close>, one interpretation per width).
    \<^item> \<open>BlowfishTables\<close>, \<open>BlowfishCodec\<close>, \<open>Blowfish\<close> (\<open>Security/Blowfish.cpp\<close>, \<open>external/bf_pi.h\<close>): the tables, the radix-64
      codec and the hash with its self-test. The cipher is a permutation (interface \<open>feistel\<close>), a
      password verifies against its own hash, a string that is no hash never verifies where the code is defined (a
      dollar sign that ends the salt is the exception), and every result has the form of its setting. \<open>BlowfishPortable\<close> has the round for other processors, whose offsets are
      right and whose pointers are table entries.
    \<^item> \<open>Registry\<close> (\<open>Common/AutoID.h\<close>, \<open>AutoList.h\<close>, \<open>Creature.cpp\<close>, \<open>Thing.cpp\<close>, \<open>Talker.cpp\<close>): ids and lists of objects.
    \<^item> \<open>UserState\<close>, \<open>Telopt\<close> (\<open>Common/User.cpp\<close>): the \<open>User\<close> record, its formatted output and prompt, and the telnet
      options: \<open>parseTelopt\<close> hangs on every suboption it does not know; window sizes are read back. \<open>TelnetInput\<close>: the part of
      \<open>uRead\<close> that calls it. With known suboptions and no escaped IAC it ends inside its buffer, and the buffer always covers
      the bytes kept.
    \<^item> \<open>Database\<close> (\<open>Database/\<close>): queries, results, batched inserts and transactions over a MySQL client that
      answers by the history of its calls; \<open>World\<close> (\<open>Common/IOUser.cpp\<close>): the state of the server as the users see it,
      and the loading, saving and creation of accounts. \<open>QueryLock\<close> (\<open>Database/Query\<close>): threads that run these operations
      statement by statement under the mutex of \<open>Query\<close>; every interleaving is a sequence of whole operations.
    \<^item> \<open>Session\<close> (\<open>Common/User.cpp\<close>, \<open>Network/Protocols/Telnet.cpp\<close>, \<open>Commands/\<close>): birth and death of a user, login, the line
      editor, commands, and the protocol object; \<open>SessionSafety\<close>: no entry of the list of users dangles, and only the
      confirmation of a new password leaves the login level; \<open>SessionLine\<close>: \<open>uRead\<close> refines an abstract line
      editor; \<open>LoginFlow\<close>: failed attempts and the take-over of a session; \<open>Talk\<close> (\<open>Commands/Say.cpp\<close>): what one user says
      reaches the others once, and which part of the line that is.
    \<^item> \<open>Tasks\<close> (\<open>Common/Task.h\<close>, \<open>Scheduler.cpp\<close>, \<open>Dispatcher.cpp\<close>): both queues and both threads as step relations. The
      scheduler refines a set of pending events, no event is early, no task is lost or run twice.
      The threads' tests without the lock, their waits and wake-ups are steps of their own. \<open>EventFlow\<close> puts both
      together: an event goes from the one to the other once.
    \<^item> \<open>Connection\<close> (\<open>Network/Connection.cpp\<close>): the life of a connection with the jobs it asks of other threads and the
      handlers that are ready in the I/O service kept in its state; one invariant holds through any interleaving in which the
      handlers run in order. A handler that overtakes another, and \<open>closeAll\<close>, can use the deleted socket. \<open>Peers\<close>: the address, port and host
      name of the peer, and \<open>parseDebug\<close>.
    \<^item> \<open>OutputPool\<close>, \<open>PoolSafety\<close>, \<open>TelnetOutput\<close> (\<open>Network/OutputMessage.cpp\<close>, \<open>Protocol.cpp\<close>, the send methods of \<open>Telnet.cpp\<close>): the
      pool of messages with shared pointers and reference counts. The books are kept through any history; what
      a method sends is given as bytes. \<open>Tracking\<close> (\<open>__TRACK_NETWORK__\<close>, \<open>Common/Singleton.h\<close>): the uses a message remembers.
      \<open>Delivery\<close>: a sequence of writes to clients reaches their connections, byte for byte and in order, or waits in the queue,
      or is refused, as they answer.
    \<^item> \<open>Services\<close> (\<open>Network/ServicePort.cpp\<close>, \<open>ServiceManager\<close>, \<open>ConnectionManager.cpp\<close>): how long a port listens; the manager
      refines a table of services by port.
    \<^item> \<open>Startup\<close> (\<open>main.cpp\<close>, \<open>Log/severity_t.cpp\<close>): the configuration that passes the checks opens the service; the
      signal the main thread waits for can be lost. \<open>Server\<close> (\<open>main.cpp\<close>, \<open>Log/Logger.cpp\<close>, \<open>Talker.cpp\<close>): \<open>init\<close>, the file with
      the process id, \<open>main\<close> up to its threads, the filters of the log, \<open>Talker::shutdown\<close>; \<open>LogText\<close>: the lines of
      the log and the names of its levels. \<open>Ending\<close> (\<open>main.cpp\<close>): \<open>main\<close> from the services to
      its return, with \<open>shutdownAndWait\<close>: a thread that waits is waited for, for ever.
    \<^item> \<open>CrashReport\<close> (\<open>Common/ExceptionHandler.cpp\<close>): the handler of a crash on Unix systems; it returns and its report
      can be read back.
      \<open>WinReport\<close>: the minidumps and the walk over the stack on Windows; the report there ends at the first zero.

  \<^bold>\<open>Parameters.\<close> Code outside \<open>src/\<close> is an argument: the MySQL client (record \<open>mysql\<close>), the string functions of \<open>boost\<close>
  and the addresses of peers (record \<open>server\<close>), the random salt (\<open>crypt\<close>), the memory of \<open>BF_INDEX\<close>, the file system and the
  property tree's conversions (record \<open>files\<close>), the process's user, clock and directories (record \<open>machine\<close>), what the kernel and the
  debug tables tell the crash reports (records \<open>crash_env\<close>, \<open>seh_env\<close>, \<open>dump_env\<close>), the resolver of host names, the outcomes of the operations of
  \<open>boost::asio\<close>. A property with an assumption on one of them has a witness with a concrete instance.

  \<^bold>\<open>Bounds and fuel.\<close> \<open>AutoID\<close> searches with \<open>id_steps\<close> steps, one for each id of its range, so that it fails only when
  every id is taken. The telnet loop \<open>telopt_loop\<close> hangs only by repeating a state; its termination proof uses the
  bytes left. The bcrypt loop runs the number of rounds its setting names. The pool counts references in 32 bits: its
  theorem is for histories of fewer than \<open>2 ^ 31\<close> requests, with which they cannot wrap. The scheduler's ids are followed up
  to \<open>2 ^ 32 - 1\<close> events, after which the code hands out ids again.

  \<^bold>\<open>Not modelled.\<close> The text of the time in a log line and the rotation of its file at midnight, which are work of \<open>boost::log\<close>; build
  macros and global variables; the abstract classes of \<open>Database/\<close> (their implementation is modelled); \<open>Strings/stringSplit\<close>, a
  call of \<open>boost\<close>; the fork of \<open>main.cpp\<close>, which is switched off there; the Lua generators of the enumerations (their
  numbers are taken over). \<open>Driver::instance()\<close> (\<open>Common/IOUser.cpp\<close>) is taken to give the driver, never null. Tasks given to a
  dispatcher that has stopped are dropped: the close tasks of a connection are (\<open>taking\<close>), the releases of messages stay listed as on
  their way back. The end of the process by a signal or by \<open>_exit\<close> is no operation of \<open>Server\<close>: nothing of it runs then. Locks are not modelled as such: a critical section is one step, except where holding one is the
  point (\<open>flush\<close> under the lock of the dispatcher, \<open>Query\<close>).
\<close>

end
